(* ===== verification/Prelude.thy ===== *)
theory Prelude
  imports Main "HOL-Library.AList" "HOL-Library.List_Lexorder" "HOL-Library.Product_Lexorder"
begin

text \<open>
  Shared vocabulary of the IncidentDesk development.

  \<^item> Python strings are lists of Unicode code points (type \<open>str\<close>); \<open>u ''abc''\<close> is the
    string of an ASCII literal, and a literal outside ASCII is written as its code points.
  \<^item> Python dicts keep insertion order: they are association lists, read with \<open>map_of\<close> and
    written with \<open>AList.update\<close> (an existing key keeps its place, a new one goes last).
  \<^item> Exceptions are values of type \<open>exn\<close>; a computation that reads and writes a state and may
    raise is a function of type \<open>('s, 'a) M\<close>. The state survives a raise, as in Python.
  \<^item> The generic lemmas on these operations, and the reasoning kit for the monad: the relation
    \<open>grows R m\<close> (a computation only moves the state along a preorder \<open>R\<close>) with its rules, as the
    locale \<open>state_preorder\<close>.
\<close>

named_theorems monad_simps "unfolding rules of the exception-state monad"
named_theorems text_simps "evaluation rules of string operations"

section \<open>Strings\<close>

type_synonym str = "int list"

definition u :: "string \<Rightarrow> str" where
  "u s = map of_char s"

lemma u_eq_iff [simp]: "u s = u t \<longleftrightarrow> s = t"
  by (simp add: u_def inj_map_eq_map inj_on_def)

lemma u_Nil [simp]: "u [] = []"
  by (simp add: u_def)

lemma u_Cons: "u (c # cs) = of_char c # u cs"
  by (simp add: u_def)

lemma u_append: "u (s @ t) = u s @ u t"
  by (simp add: u_def)

lemma length_u [simp]: "length (u s) = length s"
  by (simp add: u_def)

lemma u_eq_Nil [simp]: "u s = [] \<longleftrightarrow> s = []" "[] = u s \<longleftrightarrow> s = []"
  by (auto simp: u_def)

text \<open>Decimal text of an integer, as \<open>str(n)\<close> writes it.\<close>

fun dec_nat :: "nat \<Rightarrow> str" where
  "dec_nat n = (if n < 10 then [48 + int n] else dec_nat (n div 10) @ [48 + int (n mod 10)])"

declare dec_nat.simps [simp del]

definition dec :: "int \<Rightarrow> str" where
  "dec i = (if i < 0 then 45 # dec_nat (nat (- i)) else dec_nat (nat i))"

definition is_digit :: "int \<Rightarrow> bool" where
  "is_digit c \<longleftrightarrow> 48 \<le> c \<and> c \<le> 57"

lemma dec_nat_digits: "\<forall>c \<in> set (dec_nat n). is_digit c"
proof (induction n rule: dec_nat.induct)
  case (1 n)
  then show ?case by (subst dec_nat.simps) (auto simp: is_digit_def)
qed

lemma dec_nat_nonempty [simp]: "dec_nat n \<noteq> []"
  by (subst dec_nat.simps) simp

text \<open>The value a digit string denotes; \<open>dec_nat\<close> is a right inverse of it.\<close>

definition digits_value :: "str \<Rightarrow> nat" where
  "digits_value s = foldl (\<lambda>a c. 10 * a + nat (c - 48)) 0 s"

lemma digits_value_snoc: "digits_value (s @ [c]) = 10 * digits_value s + nat (c - 48)"
  by (simp add: digits_value_def)

lemma digits_value_dec_nat: "digits_value (dec_nat n) = n"
proof (induction n rule: dec_nat.induct)
  case (1 n)
  show ?case
  proof (cases "n < 10")
    case True
    then show ?thesis by (subst dec_nat.simps) (simp add: digits_value_def)
  next
    case False
    with 1 have "digits_value (dec_nat (n div 10)) = n div 10" by simp
    with False show ?thesis
      by (subst dec_nat.simps) (simp add: digits_value_snoc nat_int)
  qed
qed

lemma dec_nat_inj: "dec_nat m = dec_nat n \<longleftrightarrow> m = n"
  by (metis digits_value_dec_nat)

lemma dec_nat_hd: "hd (dec_nat n) \<noteq> 45"
proof -
  have "hd (dec_nat n) \<in> set (dec_nat n)" by simp
  with dec_nat_digits[of n] have "is_digit (hd (dec_nat n))" by blast
  then show ?thesis by (auto simp: is_digit_def)
qed

lemma dec_inj: "dec i = dec j \<longleftrightarrow> i = j"
proof
  assume eq: "dec i = dec j"
  show "i = j"
  proof (cases "i < 0"; cases "j < 0")
    assume "i < 0" "j < 0"
    with eq show ?thesis by (simp add: dec_def dec_nat_inj)
  next
    assume "i < 0" "\<not> j < 0"
    with eq have "hd (dec_nat (nat j)) = 45" by (simp add: dec_def) (metis list.sel(1))
    then show ?thesis using dec_nat_hd by blast
  next
    assume "\<not> i < 0" "j < 0"
    with eq have "hd (dec_nat (nat i)) = 45" by (simp add: dec_def)
    then show ?thesis using dec_nat_hd by blast
  next
    assume "\<not> i < 0" "\<not> j < 0"
    with eq show ?thesis by (simp add: dec_def dec_nat_inj)
  qed
qed simp

text \<open>
  The zeros of the decimal digit ranges of Unicode 15 (category \<open>Nd\<close>, ten digits from each):
  the characters that \<open>\\d\<close> matches and that \<open>int\<close> reads.
\<close>

definition digit_zeros :: "int list" where
  "digit_zeros = [48, 1632, 1776, 1984, 2406, 2534, 2662, 2790, 2918, 3046, 3174, 3302, 3430, 3558, 3664,
     3792, 3872, 4160, 4240, 6112, 6160, 6470, 6608, 6784, 6800, 6992, 7088, 7232, 7248,
     42528, 43216, 43264, 43472, 43504, 43600, 44016, 65296, 66720, 68912, 69734, 69872,
     69942, 70096, 70384, 70736, 70864, 71248, 71360, 71472, 71904, 72016, 72784, 73040,
     73120, 73552, 92768, 92864, 93008, 120782, 120792, 120802, 120812, 120822, 123200,
     123632, 124144, 125264, 130032]"

definition digit_val :: "int \<Rightarrow> nat option" where
  "digit_val c = (case find (\<lambda>z. z \<le> c \<and> c < z + 10) digit_zeros of
     None \<Rightarrow> None | Some z \<Rightarrow> Some (nat (c - z)))"

definition is_decimal :: "int \<Rightarrow> bool" where
  "is_decimal c \<longleftrightarrow> list_ex (\<lambda>z. z \<le> c \<and> c < z + 10) digit_zeros"

lemma is_digit_decimal: "is_digit c \<Longrightarrow> is_decimal c"
  by (simp add: is_digit_def is_decimal_def digit_zeros_def)

lemma digit_val_digit: "is_digit c \<Longrightarrow> digit_val c = Some (nat (c - 48))"
  by (simp add: is_digit_def digit_val_def digit_zeros_def)

lemma is_decimal_val: "is_decimal c \<longleftrightarrow> digit_val c \<noteq> None"
proof -
  have "list_ex P xs \<longleftrightarrow> find P xs \<noteq> None" for P and xs :: "int list"
    by (induction xs) auto
  then show ?thesis by (simp add: is_decimal_def digit_val_def split: option.splits)
qed

text \<open>\<open>sep.join(parts)\<close>.\<close>

fun join :: "str \<Rightarrow> str list \<Rightarrow> str" where
  "join sep [] = []"
| "join sep [x] = x"
| "join sep (x # y # xs) = x @ sep @ join sep (y # xs)"

text \<open>The code points for which \<open>str.isspace\<close> holds and which \<open>\\s\<close> matches.\<close>

definition is_space :: "int \<Rightarrow> bool" where
  "is_space c \<longleftrightarrow> (9 \<le> c \<and> c \<le> 13) \<or> (28 \<le> c \<and> c \<le> 32) \<or> c = 133 \<or> c = 160 \<or> c = 5760
     \<or> (8192 \<le> c \<and> c \<le> 8202) \<or> c = 8232 \<or> c = 8233 \<or> c = 8239 \<or> c = 8287 \<or> c = 12288"

definition strip :: "str \<Rightarrow> str" where
  "strip s = rev (dropWhile is_space (rev (dropWhile is_space s)))"

lemma dropWhile_suffix: "\<exists>a. s = a @ dropWhile P s"
  by (metis takeWhile_dropWhile_id)

lemma strip_infix: "\<exists>a b. s = a @ strip s @ b"
proof -
  obtain a where a: "s = a @ dropWhile is_space s" using dropWhile_suffix by blast
  obtain b where "rev (dropWhile is_space s) = b @ dropWhile is_space (rev (dropWhile is_space s))"
    using dropWhile_suffix by blast
  then have "dropWhile is_space s = strip s @ rev b"
    by (metis rev_append rev_rev_ident strip_def)
  with a show ?thesis by metis
qed

lemma set_strip: "set (strip s) \<subseteq> set s"
proof -
  obtain a b where "s = a @ strip s @ b" using strip_infix by blast
  then have "set s = set a \<union> set (strip s) \<union> set b" by (metis set_append Un_assoc)
  then show ?thesis by blast
qed

lemma strip_last: "strip s \<noteq> [] \<Longrightarrow> \<not> is_space (last (strip s))"
  unfolding strip_def by (metis hd_dropWhile last_rev rev.simps(1))

lemma dropWhile_id: "s = [] \<or> \<not> P (hd s) \<Longrightarrow> dropWhile P s = s"
  by (cases s) auto

lemma strip_id: "s \<noteq> [] \<Longrightarrow> \<not> is_space (hd s) \<Longrightarrow> \<not> is_space (last s) \<Longrightarrow> strip s = s"
  by (simp add: strip_def dropWhile_id hd_rev)

lemma strip_hd: "strip s \<noteq> [] \<Longrightarrow> \<not> is_space (hd (strip s))"
proof -
  assume ne: "strip s \<noteq> []"
  let ?t = "dropWhile is_space s"
  obtain b where "rev ?t = b @ dropWhile is_space (rev ?t)"
    using dropWhile_suffix by blast
  then have t: "?t = strip s @ rev b"
    by (metis rev_append rev_rev_ident strip_def)
  then have "hd ?t = hd (strip s)" using ne by (metis hd_append2)
  moreover have "?t \<noteq> []" using t ne by auto
  ultimately show ?thesis by (metis hd_dropWhile)
qed

lemma strip_strip [simp]: "strip (strip s) = strip s"
proof (cases "strip s = []")
  case True
  moreover have "strip [] = []" by (simp add: strip_def)
  ultimately show ?thesis by simp
next
  case False
  then show ?thesis by (intro strip_id strip_hd strip_last)
qed

definition startswith :: "str \<Rightarrow> str \<Rightarrow> bool" where
  "startswith s p \<longleftrightarrow> take (length p) s = p"

lemma startswith_append [simp]: "startswith (p @ s) p"
  by (simp add: startswith_def)

lemma startswith_cancel [simp]: "startswith (p @ s) (p @ q) = startswith s q"
  by (simp add: startswith_def)

definition removeprefix :: "str \<Rightarrow> str \<Rightarrow> str" where
  "removeprefix s p = (if startswith s p then drop (length p) s else s)"

definition removesuffix :: "str \<Rightarrow> str \<Rightarrow> str" where
  "removesuffix s p = rev (removeprefix (rev s) (rev p))"

text \<open>\<open>t in s\<close> on strings.\<close>

fun contains :: "str \<Rightarrow> str \<Rightarrow> bool" where
  "contains t [] = (t = [])"
| "contains t (c # s) = (startswith (c # s) t \<or> contains t s)"

lemma contains_iff: "contains t s \<longleftrightarrow> (\<exists>a b. s = a @ t @ b)"
proof (induction s)
  case Nil
  then show ?case by auto
next
  case (Cons c s)
  have "startswith (c # s) t \<longleftrightarrow> (\<exists>b. c # s = t @ b)"
    unfolding startswith_def by (metis append_eq_conv_conj)
  with Cons show ?case by (auto simp: Cons_eq_append_conv)
qed

text \<open>
  \<open>str.lower\<close> and \<open>str.casefold\<close>: ASCII letters are written out; the mapping of a code point
  outside ASCII (a table of the Unicode database) is the argument \<open>f\<close>.
\<close>

definition ascii_lower :: "int \<Rightarrow> int" where
  "ascii_lower c = (if 65 \<le> c \<and> c \<le> 90 then c + 32 else c)"

definition ascii_upper :: "int \<Rightarrow> int" where
  "ascii_upper c = (if 97 \<le> c \<and> c \<le> 122 then c - 32 else c)"

definition lower :: "(int \<Rightarrow> str) \<Rightarrow> str \<Rightarrow> str" where
  "lower f s = concat (map (\<lambda>c. if c < 128 then [ascii_lower c] else f c) s)"

definition upper :: "(int \<Rightarrow> str) \<Rightarrow> str \<Rightarrow> str" where
  "upper f s = concat (map (\<lambda>c. if c < 128 then [ascii_upper c] else f c) s)"

definition replace_char :: "int \<Rightarrow> str \<Rightarrow> str \<Rightarrow> str" where
  "replace_char c t s = concat (map (\<lambda>x. if x = c then t else [x]) s)"

section \<open>Lists and dicts\<close>

text \<open>\<open>list(dict.fromkeys(xs))\<close>: the first occurrence of each element, in order.\<close>

fun uniq_acc :: "'a list \<Rightarrow> 'a list \<Rightarrow> 'a list" where
  "uniq_acc seen [] = []"
| "uniq_acc seen (x # xs) =
     (if x \<in> set seen then uniq_acc seen xs else x # uniq_acc (x # seen) xs)"

definition uniq :: "'a list \<Rightarrow> 'a list" where
  "uniq xs = uniq_acc [] xs"

lemma set_uniq_acc: "set (uniq_acc seen xs) = set xs - set seen"
  by (induction xs arbitrary: seen) auto

lemma set_uniq [simp]: "set (uniq xs) = set xs"
  by (simp add: uniq_def set_uniq_acc)

lemma distinct_uniq_acc: "distinct (uniq_acc seen xs)"
  by (induction xs arbitrary: seen) (auto simp: set_uniq_acc)

lemma distinct_uniq [simp]: "distinct (uniq xs)"
  by (simp add: uniq_def distinct_uniq_acc)

lemma uniq_acc_id: "distinct xs \<Longrightarrow> set xs \<inter> set seen = {} \<Longrightarrow> uniq_acc seen xs = xs"
  by (induction xs arbitrary: seen) auto

lemma uniq_id: "distinct xs \<Longrightarrow> uniq xs = xs"
  by (simp add: uniq_def uniq_acc_id)

lemma uniq_Cons_hd: "xs \<noteq> [] \<Longrightarrow> uniq xs \<noteq> [] \<and> hd (uniq xs) = hd xs"
  by (cases xs) (auto simp: uniq_def)

text \<open>\<open>d.get(k, default)\<close>.\<close>

definition dict_get :: "('k \<times> 'v) list \<Rightarrow> 'k \<Rightarrow> 'v \<Rightarrow> 'v" where
  "dict_get d k z = (case map_of d k of None \<Rightarrow> z | Some v \<Rightarrow> v)"

text \<open>A dict built entry by entry, a later value replacing an earlier one.\<close>

definition dict_of :: "('k \<times> 'v) list \<Rightarrow> ('k \<times> 'v) list" where
  "dict_of kvs = fold (\<lambda>(k, v) d. AList.update k v d) kvs []"

lemma keys_update: "fst ` set (AList.update k v d) = insert k (fst ` set d)"
  by (induction d) auto

lemma distinct_keys_update [simp]:
  "distinct (map fst d) \<Longrightarrow> distinct (map fst (AList.update k v d))"
  by (rule distinct_update)

lemma distinct_keys_fold_update:
  "distinct (map fst d) \<Longrightarrow>
   distinct (map fst (fold (\<lambda>(k, v) d. AList.update k v d) kvs d))"
  by (induction kvs arbitrary: d) auto

lemma distinct_dict_of [simp]: "distinct (map fst (dict_of kvs))"
  by (simp add: dict_of_def distinct_keys_fold_update)

section \<open>Exceptions\<close>

text \<open>
  The exceptions the code raises or distinguishes. \<open>ValidationError\<close> (pydantic),
  \<open>JSONDecodeError\<close> and \<open>UnicodeEncodeError\<close> are subclasses of \<open>ValueError\<close>. \<open>OtherError c m\<close> is an exception of a
  library class \<open>c\<close> with message \<open>m\<close> that the code handles only as an \<open>Exception\<close>.
\<close>

datatype exn =
    PermissionError str
  | ValueError str
  | RuntimeError str
  | KeyError str
  | TypeError
  | AttributeError
  | IndexError
  | OverflowError
  | ValidationError
  | JSONDecodeError
  | UnicodeEncodeError
  | HTTPStatusError int
  | TransportError
  | HTTPException int str
  | OtherError str str

fun class_name :: "exn \<Rightarrow> str" where
  "class_name (PermissionError _) = u ''PermissionError''"
| "class_name (ValueError _) = u ''ValueError''"
| "class_name (RuntimeError _) = u ''RuntimeError''"
| "class_name (KeyError _) = u ''KeyError''"
| "class_name TypeError = u ''TypeError''"
| "class_name AttributeError = u ''AttributeError''"
| "class_name IndexError = u ''IndexError''"
| "class_name OverflowError = u ''OverflowError''"
| "class_name ValidationError = u ''ValidationError''"
| "class_name JSONDecodeError = u ''JSONDecodeError''"
| "class_name UnicodeEncodeError = u ''UnicodeEncodeError''"
| "class_name (HTTPStatusError _) = u ''HTTPStatusError''"
| "class_name TransportError = u ''TransportError''"
| "class_name (HTTPException _ _) = u ''HTTPException''"
| "class_name (OtherError c _) = c"

fun is_value_error :: "exn \<Rightarrow> bool" where
  "is_value_error (ValueError _) = True"
| "is_value_error ValidationError = True"
| "is_value_error JSONDecodeError = True"
| "is_value_error UnicodeEncodeError = True"
| "is_value_error _ = False"

fun is_permission_error :: "exn \<Rightarrow> bool" where
  "is_permission_error (PermissionError _) = True"
| "is_permission_error _ = False"

fun is_runtime_error :: "exn \<Rightarrow> bool" where
  "is_runtime_error (RuntimeError _) = True"
| "is_runtime_error _ = False"

section \<open>Fallible values\<close>

type_synonym 'a res = "exn + 'a"

definition rbind :: "'a res \<Rightarrow> ('a \<Rightarrow> 'b res) \<Rightarrow> 'b res" where
  "rbind r k = (case r of Inl e \<Rightarrow> Inl e | Inr x \<Rightarrow> k x)"

lemma rbind_Inl [simp]: "rbind (Inl e) k = Inl e"
  by (simp add: rbind_def)

lemma rbind_Inr [simp]: "rbind (Inr x) k = k x"
  by (simp add: rbind_def)

lemma rbind_eq_Inr: "rbind r k = Inr y \<longleftrightarrow> (\<exists>x. r = Inr x \<and> k x = Inr y)"
  by (cases r) auto

lemma rbind_eq_Inl: "rbind r k = Inl e \<longleftrightarrow> r = Inl e \<or> (\<exists>x. r = Inr x \<and> k x = Inl e)"
  by (cases r) auto

fun rmap :: "('a \<Rightarrow> 'b res) \<Rightarrow> 'a list \<Rightarrow> 'b list res" where
  "rmap f [] = Inr []"
| "rmap f (x # xs) = rbind (f x) (\<lambda>y. rbind (rmap f xs) (\<lambda>ys. Inr (y # ys)))"

lemma rmap_Inr_iff: "rmap f xs = Inr ys \<longleftrightarrow> list_all2 (\<lambda>x y. f x = Inr y) xs ys"
  by (induction xs arbitrary: ys) (auto simp: rbind_eq_Inr list_all2_Cons1)

lemma rmap_length: "rmap f xs = Inr ys \<Longrightarrow> length ys = length xs"
  by (auto simp: rmap_Inr_iff list_all2_lengthD)

lemma rmap_mem: "rmap f xs = Inr ys \<Longrightarrow> y \<in> set ys \<Longrightarrow> \<exists>x \<in> set xs. f x = Inr y"
  by (induction xs arbitrary: ys) (auto simp: rbind_eq_Inr)

lemma rmap_unit: "(\<exists>ys. rmap f xs = Inr ys) \<longleftrightarrow> (\<forall>x \<in> set xs. f x = Inr ())"
  by (induction xs) (auto simp: rbind_eq_Inr)

lemma rmap_fst:
  "rmap f xs = Inr ps \<Longrightarrow> (\<And>x p. f x = Inr p \<Longrightarrow> fst p = x) \<Longrightarrow> map fst ps = xs"
  by (induction xs arbitrary: ps) (auto simp: rbind_eq_Inr)

fun rfold :: "('a \<Rightarrow> 'b \<Rightarrow> 'b res) \<Rightarrow> 'a list \<Rightarrow> 'b \<Rightarrow> 'b res" where
  "rfold f [] b = Inr b"
| "rfold f (x # xs) b = rbind (f x b) (rfold f xs)"

lemma rfold_inv:
  assumes "rfold f xs b = Inr c" and "P b"
    and "\<And>x b b'. x \<in> set xs \<Longrightarrow> P b \<Longrightarrow> f x b = Inr b' \<Longrightarrow> P b'"
  shows "P c"
  using assms
proof (induction xs arbitrary: b)
  case Nil
  then show ?case by simp
next
  case (Cons x xs)
  then obtain b' where b': "f x b = Inr b'" and rest: "rfold f xs b' = Inr c"
    by (auto simp: rbind_eq_Inr)
  have "P b'" using Cons.prems(2) b' by (rule Cons.prems(3) [rotated]) simp
  with rest show ?case by (rule Cons.IH) (meson Cons.prems(3) list.set_intros(2))
qed

text \<open>
  \<open>int(s)\<close> for a string: surrounding space, an optional sign, and decimal digits that single
  underscores may separate.
\<close>

fun read_digits :: "nat \<Rightarrow> str \<Rightarrow> nat option" where
  "read_digits a [] = Some a"
| "read_digits a (c # s) =
     (case digit_val c of
        Some d \<Rightarrow> read_digits (10 * a + d) s
      | None \<Rightarrow> (case s of
            c' # s' \<Rightarrow> if c = 95 then
              (case digit_val c' of Some d \<Rightarrow> read_digits (10 * a + d) s' | None \<Rightarrow> None) else None
          | [] \<Rightarrow> None))"

definition read_nat :: "str \<Rightarrow> nat option" where
  "read_nat s = (case s of [] \<Rightarrow> None | c # s' \<Rightarrow>
     (case digit_val c of None \<Rightarrow> None | Some d \<Rightarrow> read_digits d s'))"

definition py_int :: "str \<Rightarrow> int res" where
  "py_int s0 = (let s = strip s0 in
     case (case s of
         c # s' \<Rightarrow> if c = 45 then map_option (\<lambda>n. - int n) (read_nat s')
                   else if c = 43 then map_option int (read_nat s') else map_option int (read_nat s)
       | [] \<Rightarrow> None) of
       None \<Rightarrow> Inl (ValueError (u ''invalid literal for int()'')) | Some i \<Rightarrow> Inr i)"

lemma read_digits_digits:
  "\<forall>c \<in> set s. is_digit c \<Longrightarrow> read_digits a s = Some (foldl (\<lambda>a c. 10 * a + nat (c - 48)) a s)"
  by (induction s arbitrary: a) (auto simp: digit_val_digit)

lemma read_nat_dec_nat: "read_nat (dec_nat n) = Some n"
proof -
  obtain c s where cs: "dec_nat n = c # s" by (meson dec_nat_nonempty neq_Nil_conv)
  then have d: "is_digit c" "\<forall>c \<in> set s. is_digit c" using dec_nat_digits[of n] by auto
  have "foldl (\<lambda>a c. 10 * a + nat (c - 48)) (nat (c - 48)) s = digits_value (c # s)"
    by (simp add: digits_value_def)
  with d cs show ?thesis
    by (simp add: read_nat_def digit_val_digit read_digits_digits) (metis digits_value_dec_nat)
qed

lemma digit_not_space: "is_digit c \<Longrightarrow> \<not> is_space c"
  by (auto simp: is_digit_def is_space_def)

lemma strip_dec: "strip (dec i) = dec i"
proof (rule strip_id)
  have d: "\<forall>c \<in> set (dec i). is_digit c \<or> c = 45"
    using dec_nat_digits by (auto simp: dec_def)
  show ne: "dec i \<noteq> []" by (simp add: dec_def)
  have "\<not> is_space 45" by (simp add: is_space_def)
  with d show "\<not> is_space (hd (dec i))" "\<not> is_space (last (dec i))"
    using ne digit_not_space by (metis hd_in_set, metis last_in_set)
qed

text \<open>\<open>int(str(i)) == i\<close>.\<close>

lemma py_int_dec: "py_int (dec i) = Inr i"
proof (cases "i < 0")
  case True
  then show ?thesis using strip_dec[of i] by (simp add: py_int_def dec_def read_nat_dec_nat)
next
  case False
  obtain c s where cs: "dec_nat (nat i) = c # s" by (meson dec_nat_nonempty neq_Nil_conv)
  have "is_digit c" using dec_nat_digits[of "nat i"] cs by auto
  then have "c \<noteq> 45" "c \<noteq> 43" by (auto simp: is_digit_def)
  with False show ?thesis using strip_dec[of i] read_nat_dec_nat[of "nat i"] cs
    by (simp add: py_int_def dec_def)
qed

section \<open>The exception-state monad\<close>

type_synonym ('s, 'a) M = "'s \<Rightarrow> 'a res \<times> 's"

definition ret :: "'a \<Rightarrow> ('s, 'a) M" where
  "ret x = (\<lambda>s. (Inr x, s))"

definition raise :: "exn \<Rightarrow> ('s, 'a) M" where
  "raise e = (\<lambda>s. (Inl e, s))"

definition bnd :: "('s, 'a) M \<Rightarrow> ('a \<Rightarrow> ('s, 'b) M) \<Rightarrow> ('s, 'b) M" where
  "bnd m k = (\<lambda>s. case m s of (Inl e, s') \<Rightarrow> (Inl e, s') | (Inr x, s') \<Rightarrow> k x s')"

definition sq :: "('s, 'a) M \<Rightarrow> ('s, 'b) M \<Rightarrow> ('s, 'b) M" where
  "sq m k = bnd m (\<lambda>_. k)"

definition lift :: "'a res \<Rightarrow> ('s, 'a) M" where
  "lift r = (\<lambda>s. (r, s))"

definition catch :: "('s, 'a) M \<Rightarrow> (exn \<Rightarrow> ('s, 'a) M) \<Rightarrow> ('s, 'a) M" where
  "catch m h = (\<lambda>s. case m s of (Inl e, s') \<Rightarrow> h e s' | (Inr x, s') \<Rightarrow> (Inr x, s'))"

definition gets :: "('s \<Rightarrow> 'a) \<Rightarrow> ('s, 'a) M" where
  "gets f = (\<lambda>s. (Inr (f s), s))"

definition modify :: "('s \<Rightarrow> 's) \<Rightarrow> ('s, unit) M" where
  "modify f = (\<lambda>s. (Inr (), f s))"

definition guard_M :: "bool \<Rightarrow> exn \<Rightarrow> ('s, unit) M" where
  "guard_M b e = (if b then ret () else raise e)"

definition when_M :: "bool \<Rightarrow> ('s, unit) M \<Rightarrow> ('s, unit) M" where
  "when_M b m = (if b then m else ret ())"

fun fold_M :: "('a \<Rightarrow> 'b \<Rightarrow> ('s, 'b) M) \<Rightarrow> 'a list \<Rightarrow> 'b \<Rightarrow> ('s, 'b) M" where
  "fold_M f [] b = ret b"
| "fold_M f (x # xs) b = bnd (f x b) (fold_M f xs)"

fun map_M :: "('a \<Rightarrow> ('s, 'b) M) \<Rightarrow> 'a list \<Rightarrow> ('s, 'b list) M" where
  "map_M f [] = ret []"
| "map_M f (x # xs) = bnd (f x) (\<lambda>y. bnd (map_M f xs) (\<lambda>ys. ret (y # ys)))"

lemmas monad_defs = ret_def raise_def bnd_def sq_def lift_def catch_def gets_def modify_def
  guard_M_def when_M_def

declare monad_defs [monad_simps]

lemma bnd_ret [simp]: "bnd (ret x) k = k x"
  by (simp add: monad_defs)

lemma bnd_raise [simp]: "bnd (raise e) k = raise e"
  by (simp add: monad_defs)

lemma bnd_assoc: "bnd (bnd m k) l = bnd m (\<lambda>x. bnd (k x) l)"
  by (rule ext) (auto simp: monad_defs split: prod.splits sum.splits)

lemma bnd_Inr:
  "bnd m k s = (Inr y, t) \<longleftrightarrow> (\<exists>x s'. m s = (Inr x, s') \<and> k x s' = (Inr y, t))"
  by (auto simp: bnd_def split: prod.splits sum.splits)

lemma bnd_Inl:
  "bnd m k s = (Inl e, t) \<longleftrightarrow>
     m s = (Inl e, t) \<or> (\<exists>x s'. m s = (Inr x, s') \<and> k x s' = (Inl e, t))"
  by (auto simp: bnd_def split: prod.splits sum.splits)

lemma sq_Inr: "sq m k s = (Inr y, t) \<longleftrightarrow> (\<exists>x s'. m s = (Inr x, s') \<and> k s' = (Inr y, t))"
  by (simp add: sq_def bnd_Inr)

lemma ret_iff [simp]: "ret x s = (r, t) \<longleftrightarrow> r = Inr x \<and> t = s"
  by (auto simp: ret_def)

lemma raise_iff [simp]: "raise e s = (r, t) \<longleftrightarrow> r = Inl e \<and> t = s"
  by (auto simp: raise_def)

lemma lift_iff [simp]: "lift r0 s = (r, t) \<longleftrightarrow> r0 = r \<and> t = s"
  by (auto simp: lift_def)

lemma gets_iff [simp]: "gets f s = (r, t) \<longleftrightarrow> r = Inr (f s) \<and> t = s"
  by (auto simp: gets_def)

lemma modify_iff [simp]: "modify f s = (r, t) \<longleftrightarrow> r = Inr () \<and> t = f s"
  by (auto simp: modify_def)

lemma guard_M_Inr [simp]: "guard_M b e s = (Inr x, t) \<longleftrightarrow> b \<and> t = s"
  by (auto simp: guard_M_def)

lemma catch_Inr:
  "catch m h s = (Inr y, t) \<longleftrightarrow>
     m s = (Inr y, t) \<or> (\<exists>e s'. m s = (Inl e, s') \<and> h e s' = (Inr y, t))"
  by (auto simp: catch_def split: prod.splits sum.splits)

lemma run_ok: "\<not> isl (fst p) \<Longrightarrow> \<exists>v t. p = (Inr v, t)"
  by (cases p; cases "fst p") auto

text \<open>The success cases of a computation, for case analysis of a finished run.\<close>

lemmas run_Inr = bnd_Inr sq_Inr

subsection \<open>State changes along a preorder\<close>

text \<open>
  \<open>grows R m\<close>: whatever \<open>m\<close> does, normal return or raise, the state only moves along \<open>R\<close>.
  A component fixes its own \<open>R\<close> (a counter only goes up, a trace only gets longer, a
  connection stays the same) and gets the rules for composed computations from the locale.
\<close>

definition grows :: "('s \<Rightarrow> 's \<Rightarrow> bool) \<Rightarrow> ('s, 'a) M \<Rightarrow> bool" where
  "grows R m \<longleftrightarrow> (\<forall>s. R s (snd (m s)))"

locale state_preorder =
  fixes R :: "'s \<Rightarrow> 's \<Rightarrow> bool"
  assumes R_refl: "R s s"
    and R_trans: "R s t \<Longrightarrow> R t v \<Longrightarrow> R s v"
begin

lemma grows_pure: "grows R (ret x)" "grows R (raise e)" "grows R (lift r)" "grows R (gets f)"
  "grows R (guard_M b e)"
  by (auto simp: grows_def monad_defs R_refl)

lemma grows_bnd: "grows R m \<Longrightarrow> (\<And>x. grows R (k x)) \<Longrightarrow> grows R (bnd m k)"
  unfolding grows_def bnd_def
  by (auto split: prod.splits sum.splits) (metis snd_conv R_trans)+

lemma grows_sq: "grows R m \<Longrightarrow> grows R k \<Longrightarrow> grows R (sq m k)"
  by (simp add: sq_def grows_bnd)

lemma grows_catch: "grows R m \<Longrightarrow> (\<And>e. grows R (h e)) \<Longrightarrow> grows R (catch m h)"
  unfolding grows_def catch_def
  by (auto split: prod.splits sum.splits) (metis snd_conv R_trans)+

lemma grows_when: "(b \<Longrightarrow> grows R m) \<Longrightarrow> grows R (when_M b m)"
  by (auto simp: when_M_def grows_pure)

lemma grows_if: "grows R m \<Longrightarrow> grows R k \<Longrightarrow> grows R (if b then m else k)"
  by simp

lemma grows_fold: "(\<And>x b. grows R (f x b)) \<Longrightarrow> grows R (fold_M f xs b)"
  by (induction xs arbitrary: b) (auto intro: grows_bnd grows_pure)

lemma grows_map: "(\<And>x. grows R (f x)) \<Longrightarrow> grows R (map_M f xs)"
  by (induction xs) (auto intro: grows_bnd grows_pure)

lemmas grows_rules = grows_pure grows_bnd grows_sq grows_catch grows_when grows_if grows_fold
  grows_map

end

subsection \<open>Invariants across exceptions\<close>

text \<open>
  \<open>leads J I m\<close>: started where \<open>J\<close> holds, \<open>m\<close> ends, by return or by raise, where \<open>I\<close> holds.
  The rules follow the program text; a \<open>modify\<close> may strengthen the assertion for what follows it.
\<close>

definition leads :: "('s \<Rightarrow> bool) \<Rightarrow> ('s \<Rightarrow> bool) \<Rightarrow> ('s, 'a) M \<Rightarrow> bool" where
  "leads J I m \<longleftrightarrow> (\<forall>s. J s \<longrightarrow> I (snd (m s)))"

lemma leads_pure: "(\<And>s. J s \<Longrightarrow> I s) \<Longrightarrow> leads J I (ret x)" "(\<And>s. J s \<Longrightarrow> I s) \<Longrightarrow> leads J I (raise e)"
  "(\<And>s. J s \<Longrightarrow> I s) \<Longrightarrow> leads J I (lift r)" "(\<And>s. J s \<Longrightarrow> I s) \<Longrightarrow> leads J I (gets f)"
  "(\<And>s. J s \<Longrightarrow> I s) \<Longrightarrow> leads J I (guard_M b e)"
  by (auto simp: leads_def monad_defs)

lemma leads_modify: "(\<And>s. J s \<Longrightarrow> I (f s)) \<Longrightarrow> leads J I (modify f)"
  by (auto simp: leads_def monad_defs)

lemma leads_bnd:
  assumes "leads J J m" and "\<And>s. J s \<Longrightarrow> I s" and "\<And>x. leads J I (k x)"
  shows "leads J I (bnd m k)"
  using assms unfolding leads_def bnd_def
  by (fastforce split: prod.splits sum.splits)

lemma leads_sq: "leads J J m \<Longrightarrow> (\<And>s. J s \<Longrightarrow> I s) \<Longrightarrow> leads J I k \<Longrightarrow> leads J I (sq m k)"
  by (simp add: sq_def leads_bnd)

lemma leads_lift_bnd:
  "(\<And>s. J s \<Longrightarrow> I s) \<Longrightarrow> (\<And>v. r = Inr v \<Longrightarrow> leads J I (k v)) \<Longrightarrow> leads J I (bnd (lift r) k)"
  by (cases r) (auto simp: leads_def monad_defs)

lemma leads_lift_sq:
  "(\<And>s. J s \<Longrightarrow> I s) \<Longrightarrow> (\<And>v. r = Inr v \<Longrightarrow> leads J I k) \<Longrightarrow> leads J I (sq (lift r) k)"
  by (simp add: sq_def leads_lift_bnd)

lemma leads_modify_sq:
  "(\<And>s. J s \<Longrightarrow> J' (f s)) \<Longrightarrow> leads J' I k \<Longrightarrow> leads J I (sq (modify f) k)"
  by (auto simp: leads_def monad_defs)

lemma leads_catch:
  assumes "leads J J m" and "\<And>s. J s \<Longrightarrow> I s" and "\<And>e. leads J I (h e)"
  shows "leads J I (catch m h)"
  using assms unfolding leads_def catch_def
  by (fastforce split: prod.splits sum.splits)

lemma leads_when: "(\<And>s. J s \<Longrightarrow> I s) \<Longrightarrow> (b \<Longrightarrow> leads J I m) \<Longrightarrow> leads J I (when_M b m)"
  by (auto simp: when_M_def leads_pure)

lemma leads_if: "(b \<Longrightarrow> leads J I m) \<Longrightarrow> (\<not> b \<Longrightarrow> leads J I k) \<Longrightarrow> leads J I (if b then m else k)"
  by simp

lemma leads_fold: "(\<And>x b. x \<in> set xs \<Longrightarrow> leads I I (f x b)) \<Longrightarrow> leads I I (fold_M f xs b)"
  by (induction xs arbitrary: b) (auto intro!: leads_bnd leads_pure)

lemmas leads_rules = leads_lift_bnd leads_lift_sq leads_pure leads_modify leads_sq leads_bnd
  leads_catch leads_when leads_if leads_fold

end
