(* ===== verification/Json.thy ===== *)
theory Json
  imports Prelude "HOL-Library.Multiset"
begin

text \<open>
  JSON values as Python holds them after \<open>json.loads\<close>, the accesses the code makes on them
  (\<open>d[k]\<close>, \<open>d.get(k)\<close>, truth value) with the exceptions Python raises, \<open>json.dumps\<close> with the
  two options the code uses, and UTF-8 encoding. A float is held as the text \<open>repr\<close> gives for
  it: no float read from a record is computed with, it is only passed on and printed.
\<close>

datatype json =
    JNull
  | JBool bool
  | JInt int
  | JFloat str
  | JStr str
  | JList "json list"
  | JObj "(str \<times> json) list"

section \<open>Access\<close>

text \<open>\<open>d[k]\<close> with a string key.\<close>

fun jget :: "json \<Rightarrow> str \<Rightarrow> json res" where
  "jget (JObj d) k = (case map_of d k of None \<Rightarrow> Inl (KeyError k) | Some v \<Rightarrow> Inr v)"
| "jget _ k = Inl TypeError"

text \<open>\<open>d.get(k, z)\<close>: only a dict has the method.\<close>

fun jget_def :: "json \<Rightarrow> str \<Rightarrow> json \<Rightarrow> json res" where
  "jget_def (JObj d) k z = Inr (dict_get d k z)"
| "jget_def _ k z = Inl AttributeError"

definition jget_opt :: "json \<Rightarrow> str \<Rightarrow> json res" where
  "jget_opt d k = jget_def d k JNull"

text \<open>\<open>bool(v)\<close>.\<close>

fun truthy :: "json \<Rightarrow> bool" where
  "truthy JNull = False"
| "truthy (JBool b) = b"
| "truthy (JInt i) = (i \<noteq> 0)"
| "truthy (JFloat t) = (t \<noteq> u ''0.0'' \<and> t \<noteq> u ''-0.0'')"
| "truthy (JStr t) = (t \<noteq> [])"
| "truthy (JList xs) = (xs \<noteq> [])"
| "truthy (JObj d) = (d \<noteq> [])"

text \<open>Iterating over a value that must be a list, and a field that pydantic types as \<open>str\<close>.\<close>

fun as_list :: "json \<Rightarrow> json list res" where
  "as_list (JList xs) = Inr xs"
| "as_list (JStr t) = Inr (map (\<lambda>c. JStr [c]) t)"
| "as_list (JObj d) = Inr (map (JStr \<circ> fst) d)"
| "as_list _ = Inl TypeError"

fun as_str :: "json \<Rightarrow> str res" where
  "as_str (JStr t) = Inr t"
| "as_str _ = Inl ValidationError"

fun is_dict :: "json \<Rightarrow> bool" where
  "is_dict (JObj _) = True"
| "is_dict _ = False"

definition strs :: "str list \<Rightarrow> json" where
  "strs xs = JList (map JStr xs)"

text \<open>What a set or a dict can hold as a key, and \<open>len\<close>.\<close>

fun hashable :: "json \<Rightarrow> bool" where
  "hashable (JList _) = False"
| "hashable (JObj _) = False"
| "hashable _ = True"

definition json_len :: "json \<Rightarrow> nat res" where
  "json_len j = (case j of JList xs \<Rightarrow> Inr (length xs) | JStr t \<Rightarrow> Inr (length t)
     | JObj d \<Rightarrow> Inr (length d) | _ \<Rightarrow> Inl TypeError)"

section \<open>json.dumps\<close>

definition hex_digit :: "int \<Rightarrow> int" where
  "hex_digit n = (if n < 10 then 48 + n else 87 + n)"

definition hex4 :: "int \<Rightarrow> str" where
  "hex4 n = [92, 117, hex_digit (n div 4096 mod 16), hex_digit (n div 256 mod 16),
     hex_digit (n div 16 mod 16), hex_digit (n mod 16)]"

text \<open>
  One character of a string: with \<open>ensure_ascii\<close> everything outside the printable ASCII range
  is escaped, beyond the basic plane as a surrogate pair; without it only control characters.
\<close>

definition esc_char :: "bool \<Rightarrow> int \<Rightarrow> str" where
  "esc_char ascii c =
     (if c = 34 then [92, 34] else if c = 92 then [92, 92]
      else if c = 8 then [92, 98] else if c = 12 then [92, 102]
      else if c = 10 then [92, 110] else if c = 13 then [92, 114] else if c = 9 then [92, 116]
      else if c < 32 then hex4 c
      else if ascii \<and> 126 < c then
        (if c < 65536 then hex4 c
         else hex4 (55296 + (c - 65536) div 1024) @ hex4 (56320 + (c - 65536) mod 1024))
      else [c])"

definition quote :: "bool \<Rightarrow> str \<Rightarrow> str" where
  "quote ascii t = [34] @ concat (map (esc_char ascii) t) @ [34]"

primrec dumps :: "bool \<Rightarrow> json \<Rightarrow> str" where
  "dumps a JNull = u ''null''"
| "dumps a (JBool b) = (if b then u ''true'' else u ''false'')"
| "dumps a (JInt i) = dec i"
| "dumps a (JFloat t) = t"
| "dumps a (JStr t) = quote a t"
| "dumps a (JList xs) = u ''['' @ join (u '', '') (map (dumps a) xs) @ u '']''"
| "dumps a (JObj d) = u ''{'' @ join (u '', '')
     (map (\<lambda>kv. quote a (fst kv) @ u '': '' @ snd kv) (map (map_prod id (dumps a)) d)) @ u ''}''"

text \<open>\<open>sort_keys=True\<close>: the items of every dict, sorted by key.\<close>

primrec sort_json :: "json \<Rightarrow> json" where
  "sort_json JNull = JNull"
| "sort_json (JBool b) = JBool b"
| "sort_json (JInt i) = JInt i"
| "sort_json (JFloat t) = JFloat t"
| "sort_json (JStr t) = JStr t"
| "sort_json (JList xs) = JList (map sort_json xs)"
| "sort_json (JObj d) = JObj (sort_key fst (map (map_prod id sort_json) d))"

definition dumps_sorted :: "bool \<Rightarrow> json \<Rightarrow> str" where
  "dumps_sorted a j = dumps a (sort_json j)"

text \<open>Two dicts with the same entries in a different order have the same sorted text.\<close>

lemma sort_key_fst_perm:
  assumes "distinct (map fst xs)" and "set xs = set ys" and "distinct (map fst ys)"
  shows "sort_key fst xs = sort_key (fst :: 'a::linorder \<times> 'b \<Rightarrow> 'a) ys"
proof (rule map_sorted_distinct_set_unique [where f = fst])
  show "inj_on fst (set (sort_key fst xs) \<union> set (sort_key fst ys))"
    using assms by (simp add: distinct_map)
  have "distinct (map f (sort_key f zs)) \<longleftrightarrow> distinct (map f zs)"
    for f :: "'a \<times> 'b \<Rightarrow> 'a" and zs
    by (rule mset_eq_imp_distinct_iff) (simp only: mset_map mset_sort)
  then show "distinct (map fst (sort_key fst xs))" "distinct (map fst (sort_key fst ys))"
    using assms by simp_all
qed (use assms in simp_all)

lemma dumps_sorted_order_irrelevant:
  assumes "distinct (map fst d)" and "distinct (map fst d')" and "set d = set d'"
  shows "dumps_sorted a (JObj d) = dumps_sorted a (JObj d')"
proof -
  let ?f = "map (map_prod id sort_json)"
  have keys: "map fst (?f xs) = map fst xs" for xs :: "(str \<times> json) list"
    by (induction xs) auto
  have "sort_key fst (?f d) = sort_key fst (?f d')"
    using assms keys by (intro sort_key_fst_perm) auto
  then show ?thesis by (simp add: dumps_sorted_def)
qed

section \<open>UTF-8\<close>

definition utf8_char :: "int \<Rightarrow> int list" where
  "utf8_char c =
     (if c < 128 then [c]
      else if c < 2048 then [192 + c div 64, 128 + c mod 64]
      else if c < 65536 then [224 + c div 4096, 128 + c div 64 mod 64, 128 + c mod 64]
      else [240 + c div 262144, 128 + c div 4096 mod 64, 128 + c div 64 mod 64, 128 + c mod 64])"

text \<open>\<open>s.encode()\<close>: a lone surrogate cannot be encoded.\<close>

definition encode :: "str \<Rightarrow> int list res" where
  "encode s = (if \<exists>c \<in> set s. 55296 \<le> c \<and> c \<le> 57343 then Inl UnicodeEncodeError
     else Inr (concat (map utf8_char s)))"

text \<open>With \<open>ensure_ascii\<close> the text is printable ASCII, so encoding it cannot fail.\<close>

definition printable :: "int \<Rightarrow> bool" where
  "printable c \<longleftrightarrow> 32 \<le> c \<and> c \<le> 126"

lemma hex_digit_printable: "0 \<le> n \<Longrightarrow> n < 16 \<Longrightarrow> printable (hex_digit n)"
  by (auto simp: hex_digit_def printable_def)

lemma hex4_printable: "\<forall>c \<in> set (hex4 n). printable c"
  by (auto simp: hex4_def intro!: hex_digit_printable) (auto simp: printable_def)

lemma esc_char_printable: "\<forall>d \<in> set (esc_char True c). printable d"
  using hex4_printable by (auto simp: esc_char_def printable_def split: if_splits)

lemma quote_printable: "\<forall>d \<in> set (quote True t). printable d"
  using esc_char_printable by (auto simp: quote_def printable_def)

lemma set_join: "set (join sep xs) \<subseteq> set sep \<union> (\<Union>x \<in> set xs. set x)"
  by (induction sep xs rule: join.induct) auto

lemma digit_printable: "is_digit c \<Longrightarrow> printable c"
  by (simp add: is_digit_def printable_def)

lemma dec_nat_printable: "\<forall>c \<in> set (dec_nat n). printable c"
  using dec_nat_digits digit_printable by blast

lemma dec_printable: "\<forall>c \<in> set (dec i). printable c"
  using dec_nat_printable by (auto simp: dec_def) (simp add: printable_def)

lemma join_printable:
  "\<forall>c \<in> set sep. printable c \<Longrightarrow> \<forall>p \<in> set ps. \<forall>c \<in> set p. printable c \<Longrightarrow>
   \<forall>c \<in> set (join sep ps). printable c"
  using set_join[of sep ps] by blast

primrec floats_ok :: "json \<Rightarrow> bool" where
  "floats_ok JNull = True"
| "floats_ok (JBool b) = True"
| "floats_ok (JInt i) = True"
| "floats_ok (JFloat t) = list_all printable t"
| "floats_ok (JStr t) = True"
| "floats_ok (JList xs) = list_all id (map floats_ok xs)"
| "floats_ok (JObj d) = list_all snd (map (map_prod id floats_ok) d)"

lemma dumps_ascii_printable: "floats_ok j \<Longrightarrow> \<forall>c \<in> set (dumps True j). printable c"
proof (induction j)
  case (JList xs)
  then have "\<forall>x \<in> set xs. \<forall>c \<in> set (dumps True x). printable c"
    by (auto simp: list_all_iff)
  then have "\<forall>c \<in> set (join (u '', '') (map (dumps True) xs)). printable c"
    by (intro join_printable) (auto simp: u_def printable_def)
  then show ?case by (auto simp: u_def printable_def)
next
  case (JObj d)
  let ?parts = "map (\<lambda>kv. quote True (fst kv) @ u '': '' @ snd kv) (map (map_prod id (dumps True)) d)"
  have "\<forall>kv \<in> set d. \<forall>c \<in> set (dumps True (snd kv)). printable c"
    using JObj by (fastforce simp: list_all_iff)
  then have "\<forall>p \<in> set ?parts. \<forall>c \<in> set p. printable c"
    using quote_printable by (auto simp: u_def printable_def)
  then have "\<forall>c \<in> set (join (u '', '') ?parts). printable c"
    by (intro join_printable) (auto simp: u_def printable_def)
  then show ?case by (auto simp: u_def printable_def simp del: map_map)
qed (use quote_printable dec_printable in \<open>auto simp: u_def printable_def list_all_iff\<close>)

lemma encode_ascii: "\<forall>c \<in> set s. printable c \<Longrightarrow> encode s = Inr s"
proof -
  assume a: "\<forall>c \<in> set s. printable c"
  then have "concat (map utf8_char s) = s"
    by (induction s) (auto simp: utf8_char_def printable_def)
  with a show ?thesis by (auto simp: encode_def printable_def)
qed

lemma encode_length: "encode s = Inr b \<Longrightarrow> length s \<le> length b"
proof -
  assume "encode s = Inr b"
  then have "b = concat (map utf8_char s)" by (auto simp: encode_def split: if_splits)
  moreover have "1 \<le> length (utf8_char c)" for c by (simp add: utf8_char_def)
  ultimately show ?thesis
    by (induction s arbitrary: b) (auto simp: add_le_mono, metis One_nat_def add_le_mono plus_1_eq_Suc)
qed

end
