(* ===== verification/Contracts.thy ===== *)
theory Contracts
  imports Complex_Main Json
begin

text \<open>
  \<^verbatim>\<open>worker/incident_worker/contracts.py\<close>: the typed contracts the worker exchanges, one record per
  class with the constraints pydantic enforces on construction as a predicate \<open>wf_\<dots>\<close>, and the
  two operations on \<open>datetime\<close> the worker uses on them, comparison and equality.
\<close>

section \<open>Timestamps\<close>

text \<open>
  A \<open>datetime\<close>: the wall clock in microseconds, the time zone object if it has one, and the
  offset from UTC that the zone gives at that time. Two values with the same zone object are
  compared by wall clock, others by UTC; comparing a naive with an aware one raises.
\<close>

datatype tzinfo = Fixed int | Zone str

record datetime =
  wall :: int
  tz :: "tzinfo option"
  utcoffset :: int

definition utc :: "datetime \<Rightarrow> int" where
  "utc d = wall d - utcoffset d"

definition dt_key :: "datetime \<Rightarrow> datetime \<Rightarrow> int res" where
  "dt_key a b = (case (tz a, tz b) of
     (None, None) \<Rightarrow> Inr (wall a - wall b)
   | (Some z, Some z') \<Rightarrow> Inr (if z = z' then wall a - wall b else utc a - utc b)
   | _ \<Rightarrow> Inl TypeError)"

definition dt_less :: "datetime \<Rightarrow> datetime \<Rightarrow> bool res" where
  "dt_less a b = rbind (dt_key a b) (\<lambda>d. Inr (d < 0))"

definition dt_eq :: "datetime \<Rightarrow> datetime \<Rightarrow> bool" where
  "dt_eq a b = (case dt_key a b of Inl _ \<Rightarrow> False | Inr d \<Rightarrow> d = 0)"

text \<open>Timestamps whose zones are fixed offsets are ordered by UTC.\<close>

definition fixed_zone :: "datetime \<Rightarrow> bool" where
  "fixed_zone d \<longleftrightarrow> tz d = Some (Fixed (utcoffset d))"

lemma dt_less_fixed: "fixed_zone a \<Longrightarrow> fixed_zone b \<Longrightarrow> dt_less a b = Inr (utc a < utc b)"
  by (auto simp: dt_less_def dt_key_def fixed_zone_def utc_def)

section \<open>Budget and queries\<close>

record Budget =
  steps :: int
  seconds :: int
  output_bytes :: int
  model_calls :: int
  tokens :: int

definition wf_Budget :: "Budget \<Rightarrow> bool" where
  "wf_Budget b \<longleftrightarrow> 1 \<le> steps b \<and> steps b \<le> 32 \<and> 1 \<le> seconds b \<and> seconds b \<le> 300
     \<and> 100 \<le> output_bytes b \<and> output_bytes b \<le> 1048576
     \<and> 0 \<le> model_calls b \<and> model_calls b \<le> 5 \<and> 1 \<le> tokens b \<and> tokens b \<le> 32000"

datatype log_mode = Anomalies | Search | All

datatype level = ERROR | FATAL | SEVERE | FAILURE | WARN | WARNING | CRITICAL | ALERT | EMERG
  | INFO | DEBUG | TRACE | UNKNOWN

record LogQuery =
  mode :: log_mode
  terms :: "str list"
  levels :: "level list"

definition default_LogQuery :: LogQuery where
  "default_LogQuery = \<lparr>mode = Anomalies, terms = [], levels = []\<rparr>"

definition wf_LogQuery :: "LogQuery \<Rightarrow> bool" where
  "wf_LogQuery q \<longleftrightarrow> length (terms q) \<le> 6 \<and> length (levels q) \<le> 12"

lemma wf_default_LogQuery [simp]: "wf_LogQuery default_LogQuery"
  by (simp add: wf_LogQuery_def default_LogQuery_def)

section \<open>The task a worker runs\<close>

record RunContext =
  protocol_version :: int
  run_id :: str
  subject :: str
  team :: str
  service :: str
  symptom :: str
  start :: datetime
  end_time :: datetime
  source_version :: int
  generation :: int
  attempt :: int
  owner :: str
  lease_seconds :: int
  query :: LogQuery
  budget :: Budget

definition wf_RunContext :: "RunContext \<Rightarrow> bool" where
  "wf_RunContext r \<longleftrightarrow> protocol_version r = 1 \<and> wf_LogQuery (query r) \<and> wf_Budget (budget r)"

section \<open>Query plans\<close>

datatype source = Logs | Deployments | Git | Runbook | Cluster

datatype object_type = Service | Deployment | Commit | RunbookT | Incident | Team

record PlanStep =
  step_source :: source
  step_object :: object_type
  path :: "str list"
  limit :: int

text \<open>\<open>object\<close> is a literal of five names; \<open>Team\<close> is not one of them.\<close>

definition wf_PlanStep :: "PlanStep \<Rightarrow> bool" where
  "wf_PlanStep s \<longleftrightarrow> step_object s \<noteq> Team \<and> 1 \<le> limit s \<and> limit s \<le> 100"

record QueryPlan =
  plan_service :: str
  plan_start :: datetime
  plan_end :: datetime
  plan_steps :: "PlanStep list"

definition wf_QueryPlan :: "QueryPlan \<Rightarrow> bool" where
  "wf_QueryPlan p \<longleftrightarrow> length (plan_steps p) \<le> 12 \<and> list_all wf_PlanStep (plan_steps p)"

fun source_name :: "source \<Rightarrow> str" where
  "source_name Logs = u ''logs''"
| "source_name Deployments = u ''deployments''"
| "source_name Git = u ''git''"
| "source_name Runbook = u ''runbook''"
| "source_name Cluster = u ''cluster''"

lemma source_name_inj [simp]: "source_name a = source_name b \<longleftrightarrow> a = b"
  by (cases a; cases b) simp_all

fun object_name :: "object_type \<Rightarrow> str" where
  "object_name Service = u ''Service''"
| "object_name Deployment = u ''Deployment''"
| "object_name Commit = u ''Commit''"
| "object_name RunbookT = u ''Runbook''"
| "object_name Incident = u ''Incident''"
| "object_name Team = u ''Team''"

section \<open>Evidence and the context bundle\<close>

record Evidence =
  ev_id :: str
  ev_source :: source
  locator :: str
  collected_at :: str
  event_time :: str
  version :: str
  sha256 :: str
  snippet :: json
  ev_team :: str
  source_record :: str
  available :: bool

datatype tool_status = StatusOk | StatusError | StatusDenied | StatusTruncated

record ToolResult =
  tool :: str
  tool_status :: tool_status
  tool_records :: "json list"
  next_cursor :: "str option"
  watermark :: str
  observed_at :: str
  tool_error :: "str option"

text \<open>The dicts a bundle holds, with the keys \<open>assemble\<close> gives them.\<close>

record fact =
  fact_id :: str
  fact_kind :: str
  fact_text :: str
  fact_evidence :: "str list"
  transform :: str
  query_step :: json

record conflict =
  conflict_text :: str
  conflict_evidence :: "str list"

record freshness =
  fresh_source :: source
  fresh_observed_at :: json
  fresh_watermark :: str

datatype obj =
    ServiceObj str str
  | DeploymentObj str str "str list" str
  | CommitObj json str "str list"

record ContextBundle =
  scope :: "(str \<times> str) list"
  objects :: "obj list"
  facts :: "fact list"
  evidence :: "Evidence list"
  missing :: "str list"
  conflicts :: "conflict list"
  fresh :: "freshness list"
  plan :: QueryPlan
  token_budget :: int
  memories :: json
  retrieval :: json

end
