(* ===== verification/World.thy ===== *)
theory World
  imports Contracts
begin

text \<open>
  The outside of a worker process. Every interaction with it (a clock reading, a pause, an HTTP
  request, a database query) is an \<open>effect\<close> recorded in the trace of the worker's state, latest
  first; what comes back is given by an \<open>outside\<close>, a record of functions of the trace so far.
  The answers may thus depend on everything that happened before, and on nothing the worker could
  foresee: each theorem over an arbitrary outside covers every behaviour of the Go API, the
  sources and the clock.
\<close>

datatype effect =
    Monotonic
  | Sleep rat
  | ApiCall str json
  | SourceCall source json
  | DeploymentSql
  | UtcNow
  | HttpGet str
  | DbPing
  | PerfCounter
  | ModelCall json

text \<open>
  An HTTP response: a success with a JSON body, a success whose body is not JSON, an error status,
  or no response at all (httpx raises \<open>TransportError\<close>).
\<close>

datatype reply = Ok json | NotJson | Status int | NoReply

text \<open>A row of \<open>sources.deployments\<close>, its time in microseconds of UTC.\<close>

record deployment_row =
  row_id :: str
  row_service :: str
  row_app_id :: str
  row_version :: str
  row_commit_sha :: str
  row_time :: int
  row_watermark :: int
  row_deleted :: bool

text \<open>
  The last six fields are library functions that do not touch the outside: reading a timestamp
  in Postgres, printing one, the collation key of text in the database, SHA-256, \<open>repr\<close> of a
  nested value, and the JSON text pydantic writes.
\<close>

record outside =
  clock :: "effect list \<Rightarrow> rat"
  api :: "effect list \<Rightarrow> reply"
  source_api :: "effect list \<Rightarrow> reply"
  deployment_table :: "effect list \<Rightarrow> deployment_row list res"
  utc_now :: "effect list \<Rightarrow> str"
  http_get :: "effect list \<Rightarrow> reply"
  elapsed_ms :: "effect list \<Rightarrow> json"
  db_ping :: "effect list \<Rightarrow> bool"
  pg_timestamp :: "str \<Rightarrow> int res"
  isoformat :: "int \<Rightarrow> str"
  collate :: "str \<Rightarrow> str"
  sha256_hex :: "int list \<Rightarrow> str"
  py_repr :: "json \<Rightarrow> str"
  model_json :: "json \<Rightarrow> str"

record circuit =
  failures :: nat
  until :: rat

definition new_circuit :: circuit where
  "new_circuit = \<lparr>failures = 0, until = 0\<rparr>"

text \<open>The mutable state of one task: the SDK's call counter, the trace, the source circuits.\<close>

record wstate =
  calls :: int
  trace :: "effect list"
  circuits :: "source \<Rightarrow> circuit"

type_synonym 'a W = "(wstate, 'a) M"

definition emit :: "effect \<Rightarrow> unit W" where
  "emit e = modify (\<lambda>s. s\<lparr>trace := e # trace s\<rparr>)"

definition monotonic :: "outside \<Rightarrow> rat W" where
  "monotonic O' = sq (emit Monotonic) (gets (\<lambda>s. clock O' (trace s)))"

text \<open>A request: httpx raises when there is no response.\<close>

definition received :: "reply \<Rightarrow> reply W" where
  "received r = (case r of NoReply \<Rightarrow> raise TransportError | _ \<Rightarrow> ret r)"

definition post_api :: "outside \<Rightarrow> str \<Rightarrow> json \<Rightarrow> reply W" where
  "post_api O' url body = sq (emit (ApiCall url body)) (bnd (gets (\<lambda>s. api O' (trace s))) received)"

definition post_source :: "outside \<Rightarrow> source \<Rightarrow> json \<Rightarrow> reply W" where
  "post_source O' src body =
     sq (emit (SourceCall src body)) (bnd (gets (\<lambda>s. source_api O' (trace s))) received)"

definition raise_for_status :: "reply \<Rightarrow> unit W" where
  "raise_for_status r = (case r of Status c \<Rightarrow> raise (HTTPStatusError c) | _ \<Rightarrow> ret ())"

definition json_of :: "reply \<Rightarrow> json W" where
  "json_of r = (case r of Ok j \<Rightarrow> ret j | _ \<Rightarrow> raise JSONDecodeError)"

definition now_utc :: "outside \<Rightarrow> str W" where
  "now_utc O' = sq (emit UtcNow) (gets (\<lambda>s. utc_now O' (trace s)))"

definition get_url :: "outside \<Rightarrow> str \<Rightarrow> reply W" where
  "get_url O' url = sq (emit (HttpGet url)) (bnd (gets (\<lambda>s. http_get O' (trace s))) received)"

definition read_deployments :: "outside \<Rightarrow> deployment_row list W" where
  "read_deployments O' = sq (emit DeploymentSql) (bnd (gets (\<lambda>s. deployment_table O' (trace s))) lift)"

text \<open>The JSON number \<open>round((time.perf_counter() - start) * 1000, 2)\<close>.\<close>

definition elapsed :: "outside \<Rightarrow> json W" where
  "elapsed O' = sq (emit PerfCounter) (gets (\<lambda>s. elapsed_ms O' (trace s)))"

section \<open>How a state moves\<close>

text \<open>A trace only grows; two orders on states that every component's operations respect.\<close>

definition extends :: "'a list \<Rightarrow> 'a list \<Rightarrow> bool" where
  "extends t t' \<longleftrightarrow> (\<exists>new. t' = new @ t)"

lemma extends_refl [simp]: "extends t t"
  by (simp add: extends_def)

lemma extends_trans: "extends a b \<Longrightarrow> extends b c \<Longrightarrow> extends a c"
  by (auto simp: extends_def)

lemma extends_Cons [simp]: "extends t (e # t)"
  by (auto simp: extends_def)

lemma extends_set: "extends t t' \<Longrightarrow> set t \<subseteq> set t'"
  by (auto simp: extends_def)

definition trace_grows :: "wstate \<Rightarrow> wstate \<Rightarrow> bool" where
  "trace_grows s t \<longleftrightarrow> extends (trace s) (trace t) \<and> calls s \<le> calls t"

interpretation tg: state_preorder trace_grows
  by unfold_locales (auto simp: trace_grows_def intro: extends_trans)

lemma grows_emit: "grows trace_grows (emit e)"
  by (simp add: grows_def emit_def modify_def trace_grows_def)

lemma grows_received: "grows trace_grows (received r)"
  by (cases r) (simp_all add: received_def tg.grows_pure)

lemma grows_raise_for_status: "grows trace_grows (raise_for_status r)"
  by (cases r) (simp_all add: raise_for_status_def tg.grows_pure)

lemma grows_json_of: "grows trace_grows (json_of r)"
  by (cases r) (simp_all add: json_of_def tg.grows_pure)

lemma grows_monotonic: "grows trace_grows (monotonic O')"
  unfolding monotonic_def by (intro tg.grows_sq grows_emit tg.grows_pure)

lemma grows_post_api: "grows trace_grows (post_api O' url body)"
  unfolding post_api_def by (intro tg.grows_sq tg.grows_bnd grows_emit tg.grows_pure grows_received)

lemma grows_post_source: "grows trace_grows (post_source O' src body)"
  unfolding post_source_def
  by (intro tg.grows_sq tg.grows_bnd grows_emit tg.grows_pure grows_received)

lemma grows_now_utc: "grows trace_grows (now_utc O')"
  unfolding now_utc_def by (intro tg.grows_rules grows_emit)

lemma grows_elapsed: "grows trace_grows (elapsed O')"
  unfolding elapsed_def by (intro tg.grows_rules grows_emit)

lemma grows_read_deployments: "grows trace_grows (read_deployments O')"
  unfolding read_deployments_def by (intro tg.grows_rules grows_emit)

lemmas grows_world = grows_elapsed grows_now_utc grows_read_deployments grows_emit grows_received grows_raise_for_status grows_json_of
  grows_monotonic grows_post_api grows_post_source

text \<open>Effects in a trace that are requests to a source.\<close>

fun is_source_call :: "effect \<Rightarrow> bool" where
  "is_source_call (SourceCall _ _) = True"
| "is_source_call _ = False"

fun is_api_call :: "effect \<Rightarrow> bool" where
  "is_api_call (ApiCall _ _) = True"
| "is_api_call _ = False"

definition source_calls :: "wstate \<Rightarrow> nat" where
  "source_calls s = length (filter is_source_call (trace s))"

lemma emit_run [simp]: "emit e s = (Inr (), s\<lparr>trace := e # trace s\<rparr>)"
  by (simp add: emit_def modify_def)

lemma monotonic_run: "monotonic O' s =
    (Inr (clock O' (Monotonic # trace s)), s\<lparr>trace := Monotonic # trace s\<rparr>)"
  by (simp add: monotonic_def monad_defs)

lemma post_api_run: "post_api O' url body s =
    (case api O' (ApiCall url body # trace s) of
       NoReply \<Rightarrow> (Inl TransportError, s\<lparr>trace := ApiCall url body # trace s\<rparr>)
     | r \<Rightarrow> (Inr r, s\<lparr>trace := ApiCall url body # trace s\<rparr>))"
  by (simp add: post_api_def monad_defs received_def split: reply.splits)

lemma post_source_run: "post_source O' src body s =
    (case source_api O' (SourceCall src body # trace s) of
       NoReply \<Rightarrow> (Inl TransportError, s\<lparr>trace := SourceCall src body # trace s\<rparr>)
     | r \<Rightarrow> (Inr r, s\<lparr>trace := SourceCall src body # trace s\<rparr>))"
  by (simp add: post_source_def monad_defs received_def split: reply.splits)

lemma now_utc_run: "now_utc O' s = (Inr (utc_now O' (UtcNow # trace s)), s\<lparr>trace := UtcNow # trace s\<rparr>)"
  by (simp add: now_utc_def monad_defs)

lemma read_deployments_run: "read_deployments O' s =
    (deployment_table O' (DeploymentSql # trace s), s\<lparr>trace := DeploymentSql # trace s\<rparr>)"
  by (simp add: read_deployments_def monad_defs)

end
