(* ===== verification/Resilience.thy ===== *)
theory Resilience
  imports World
begin

text \<open>
  \<^verbatim>\<open>worker/incident_worker/resilience.py\<close>: the circuit breaker around a source. At most three
  attempts with growing pauses; a client error other than 429 is final; after the fifth failure
  in a row the circuit stays open for ten seconds.
\<close>

section \<open>Circuit.call\<close>

definition set_circuit :: "source \<Rightarrow> circuit \<Rightarrow> unit W" where
  "set_circuit src c = modify (\<lambda>s. s\<lparr>circuits := (circuits s)(src := c)\<rparr>)"

text \<open>The failure branch: count, and open the circuit from the fifth failure on.\<close>

definition record_failure :: "outside \<Rightarrow> source \<Rightarrow> unit W" where
  "record_failure O' src =
     bnd (gets (\<lambda>s. circuits s src)) (\<lambda>c.
     let c' = c\<lparr>failures := failures c + 1\<rparr> in
     if failures c' \<ge> 5
     then bnd (monotonic O') (\<lambda>t. set_circuit src (c'\<lparr>until := t + 10\<rparr>))
     else set_circuit src c')"

definition failure_status :: "exn \<Rightarrow> int" where
  "failure_status e = (case e of HTTPStatusError c \<Rightarrow> c | _ \<Rightarrow> 0)"

definition http_failure :: "exn \<Rightarrow> bool" where
  "http_failure e = (case e of HTTPStatusError _ \<Rightarrow> True | TransportError \<Rightarrow> True | _ \<Rightarrow> False)"

definition final_status :: "int \<Rightarrow> bool" where
  "final_status c \<longleftrightarrow> c \<noteq> 0 \<and> c \<noteq> 429 \<and> c < 500"

text \<open>
  The attempts of \<open>for attempt in range(3)\<close>. Past the last attempt the method would return
  \<open>None\<close>, on which the caller's next method call raises; \<open>circuit_call\<close> never gets there.
\<close>

fun circuit_loop :: "outside \<Rightarrow> source \<Rightarrow> reply W \<Rightarrow> nat list \<Rightarrow> reply W" where
  "circuit_loop O' src fn [] = raise AttributeError"
| "circuit_loop O' src fn (n # rest) =
     catch
       (bnd fn (\<lambda>r. sq (raise_for_status r)
          (sq (set_circuit src \<lparr>failures = 0, until = 0\<rparr>) (ret r))))
       (\<lambda>e. if \<not> http_failure e then raise e
            else if final_status (failure_status e) then raise e
            else sq (record_failure O' src)
              (if n = 2 then raise e
               else sq (emit (Sleep (1 / 10 * 2 ^ n))) (circuit_loop O' src fn rest)))"

declare circuit_loop.simps(2) [simp del]

definition circuit_call :: "outside \<Rightarrow> source \<Rightarrow> reply W \<Rightarrow> reply W" where
  "circuit_call O' src fn =
     bnd (monotonic O') (\<lambda>now.
     bnd (gets (\<lambda>s. circuits s src)) (\<lambda>c.
     if now < until c then raise (RuntimeError (u ''source_circuit_open''))
     else circuit_loop O' src fn [0, 1, 2]))"

section \<open>Behaviour\<close>

lemma record_failure_run: "record_failure O' src s =
    (let c = circuits s src; n = failures c + 1 in
     if 5 \<le> n
     then (Inr (), s\<lparr>trace := Monotonic # trace s,
       circuits := (circuits s)(src := c\<lparr>failures := n, until := clock O' (Monotonic # trace s) + 10\<rparr>)\<rparr>)
     else (Inr (), s\<lparr>circuits := (circuits s)(src := c\<lparr>failures := n\<rparr>)\<rparr>))"
  by (simp add: record_failure_def monad_defs monotonic_run set_circuit_def Let_def)

text \<open>An open circuit refuses without asking the source.\<close>

lemma circuit_call_open:
  assumes "clock O' (Monotonic # trace s) < until (circuits s src)"
  shows "circuit_call O' src fn s =
    (Inl (RuntimeError (u ''source_circuit_open'')), s\<lparr>trace := Monotonic # trace s\<rparr>)"
  using assms by (simp add: circuit_call_def monad_defs monotonic_run)

lemma circuit_call_closed:
  assumes "\<not> clock O' (Monotonic # trace s) < until (circuits s src)"
  shows "circuit_call O' src fn s =
    circuit_loop O' src fn [0, 1, 2] (s\<lparr>trace := Monotonic # trace s\<rparr>)"
  using assms by (simp add: circuit_call_def monad_defs monotonic_run)

text \<open>One attempt, by the outcome of the request.\<close>

lemma circuit_loop_ok:
  assumes "fn s = (Inr r, t)" and "\<And>c. r \<noteq> Status c"
  shows "circuit_loop O' src fn (a # rest) s =
    (Inr r, t\<lparr>circuits := (circuits t)(src := new_circuit)\<rparr>)"
  using assms by (cases r)
    (auto simp: circuit_loop.simps monad_defs raise_for_status_def set_circuit_def new_circuit_def)

lemma circuit_loop_final:
  assumes "fn s = (Inr (Status c), t)" and "final_status c"
  shows "circuit_loop O' src fn (a # rest) s = (Inl (HTTPStatusError c), t)"
  using assms
  by (simp add: circuit_loop.simps monad_defs raise_for_status_def http_failure_def
      failure_status_def)

text \<open>The failures that are counted and retried: no response, status 429, status 500 and above.\<close>

definition transient :: "reply W \<Rightarrow> wstate \<Rightarrow> exn \<Rightarrow> wstate \<Rightarrow> bool" where
  "transient fn s e t \<longleftrightarrow>
     (fn s = (Inl e, t) \<and> e = TransportError) \<or>
     (\<exists>c. fn s = (Inr (Status c), t) \<and> e = HTTPStatusError c \<and> \<not> final_status c)"

lemma circuit_loop_transient:
  assumes "transient fn s e t"
  shows "circuit_loop O' src fn (a # rest) s =
    (let t' = snd (record_failure O' src t) in
     if a = 2 then (Inl e, t')
     else circuit_loop O' src fn rest (t'\<lparr>trace := Sleep (1 / 10 * 2 ^ a) # trace t'\<rparr>))"
  using assms
  by (auto simp: transient_def circuit_loop.simps monad_defs raise_for_status_def http_failure_def failure_status_def
      final_status_def record_failure_run Let_def split: if_splits)

text \<open>
  What an outcome says about the circuit, for any request function that leaves the circuits
  alone: success resets it, and a failed run never lowers the failure count.
\<close>

definition leaves_circuits :: "'a W \<Rightarrow> bool" where
  "leaves_circuits fn \<longleftrightarrow> (\<forall>s. circuits (snd (fn s)) = circuits s)"

lemma circuit_loop_success:
  "circuit_loop O' src fn as s = (Inr r, t) \<Longrightarrow> circuits t src = new_circuit"
proof (induction as arbitrary: s)
  case (Cons a rest)
  then show ?case
    by (auto simp: circuit_loop.simps monad_defs set_circuit_def new_circuit_def raise_for_status_def
        split: prod.splits sum.splits if_splits reply.splits)
qed simp

lemma circuit_call_success:
  "circuit_call O' src fn s = (Inr r, t) \<Longrightarrow> circuits t src = new_circuit"
  by (auto simp: circuit_call_def bnd_Inr monotonic_run circuit_loop_success split: if_splits)

text \<open>The circuit's own invariant: it was opened only after five failures in a row.\<close>

definition circuit_ok :: "circuit \<Rightarrow> bool" where
  "circuit_ok c \<longleftrightarrow> until c \<noteq> 0 \<longrightarrow> 5 \<le> failures c"

definition circuits_ok :: "wstate \<Rightarrow> bool" where
  "circuits_ok s \<longleftrightarrow> (\<forall>src. circuit_ok (circuits s src))"

definition ok_kept :: "wstate \<Rightarrow> wstate \<Rightarrow> bool" where
  "ok_kept s t \<longleftrightarrow> circuits_ok s \<longrightarrow> circuits_ok t"

interpretation ok: state_preorder ok_kept
  by unfold_locales (auto simp: ok_kept_def)

lemma ok_set_circuit: "circuit_ok c \<Longrightarrow> grows ok_kept (set_circuit src c)"
  by (auto simp: grows_def ok_kept_def circuits_ok_def set_circuit_def modify_def)

lemma ok_record_failure: "grows ok_kept (record_failure O' src)"
  by (auto simp: grows_def ok_kept_def record_failure_run circuits_ok_def circuit_ok_def Let_def)

lemma ok_emit: "grows ok_kept (emit e)"
  by (simp add: grows_def ok_kept_def circuits_ok_def)

lemma ok_leaves: "leaves_circuits fn \<Longrightarrow> grows ok_kept fn"
  by (simp add: leaves_circuits_def grows_def ok_kept_def circuits_ok_def)

lemma ok_monotonic: "grows ok_kept (monotonic O')"
  by (simp add: grows_def ok_kept_def circuits_ok_def monotonic_run)

lemma ok_raise_for_status: "grows ok_kept (raise_for_status r)"
  by (cases r) (simp_all add: raise_for_status_def ok.grows_pure)

lemma ok_circuit_loop:
  assumes "leaves_circuits fn"
  shows "grows ok_kept (circuit_loop O' src fn as)"
proof (induction as)
  case (Cons a rest)
  have c: "circuit_ok \<lparr>failures = 0, until = 0\<rparr>" by (simp add: circuit_ok_def)
  show ?case unfolding circuit_loop.simps
    by (intro ok.grows_rules ok_leaves[OF assms] ok_raise_for_status ok_set_circuit[OF c]
        ok_record_failure ok_emit Cons)
qed (simp add: ok.grows_pure)

lemma ok_circuit_call:
  assumes "leaves_circuits fn"
  shows "grows ok_kept (circuit_call O' src fn)"
  unfolding circuit_call_def
  by (intro ok.grows_rules ok_monotonic ok_circuit_loop assms)

text \<open>At most one request per attempt: the number of source calls a run adds is bounded.\<close>

definition one_call :: "'a W \<Rightarrow> bool" where
  "one_call fn \<longleftrightarrow> (\<forall>s. source_calls (snd (fn s)) \<le> source_calls s + 1)"

lemma record_failure_calls: "source_calls (snd (record_failure O' src s)) = source_calls s"
  by (simp add: record_failure_run source_calls_def Let_def)

lemma attempt_calls:
  assumes "one_call fn"
  shows "source_calls (snd (bnd fn (\<lambda>r. sq (raise_for_status r)
     (sq (set_circuit src c) (ret r))) s)) \<le> source_calls s + 1"
proof -
  have "source_calls (snd (bnd fn (\<lambda>r. sq (raise_for_status r) (sq (set_circuit src c) (ret r))) s))
      = source_calls (snd (fn s))"
    by (auto simp: monad_defs raise_for_status_def set_circuit_def source_calls_def
        split: prod.splits sum.splits reply.splits)
  with assms show ?thesis by (simp add: one_call_def)
qed

lemma circuit_loop_calls:
  assumes "one_call fn"
  shows "source_calls (snd (circuit_loop O' src fn as s)) \<le> source_calls s + length as"
proof (induction as arbitrary: s)
  case (Cons a rest)
  let ?m = "bnd fn (\<lambda>r. sq (raise_for_status r) (sq (set_circuit src \<lparr>failures = 0, until = 0\<rparr>) (ret r)))"
  obtain x t where m: "?m s = (x, t)" by (cases "?m s") auto
  have t: "source_calls t \<le> source_calls s + 1"
    using attempt_calls[OF assms, of src _ s] m by (metis snd_conv)
  let ?t = "snd (record_failure O' src t)"
  have t': "source_calls (?t\<lparr>trace := Sleep (1 / 10 * 2 ^ a) # trace ?t\<rparr>) \<le> source_calls s + 1"
    using t record_failure_calls[of O' src t] by (simp add: source_calls_def)
  have rec: "fst (record_failure O' src t) = Inr ()"
    by (simp add: record_failure_run Let_def)
  show ?case
    using t t' Cons.IH[of "?t\<lparr>trace := Sleep (1 / 10 * 2 ^ a) # trace ?t\<rparr>"]
      record_failure_calls[of O' src t] rec
    unfolding circuit_loop.simps catch_def m
    by (cases x; cases "record_failure O' src t")
      (auto simp: monad_defs)
qed (simp add: monad_defs)

lemma circuit_call_calls:
  assumes "one_call fn"
  shows "source_calls (snd (circuit_call O' src fn s)) \<le> source_calls s + 3"
proof (cases "clock O' (Monotonic # trace s) < until (circuits s src)")
  case True
  then show ?thesis by (simp add: circuit_call_open source_calls_def)
next
  case False
  have "source_calls (s\<lparr>trace := Monotonic # trace s\<rparr>) = source_calls s"
    by (simp add: source_calls_def)
  with circuit_loop_calls[OF assms, of O' src "[0,1,2]" "s\<lparr>trace := Monotonic # trace s\<rparr>"] False
  show ?thesis by (simp add: circuit_call_closed)
qed

lemma grows_record_failure: "grows trace_grows (record_failure O' src)"
  by (simp add: grows_def record_failure_run trace_grows_def Let_def)

lemma grows_circuit_loop:
  assumes "grows trace_grows fn"
  shows "grows trace_grows (circuit_loop O' src fn as)"
proof (induction as)
  case (Cons a rest)
  have c: "grows trace_grows (set_circuit src c)" for c
    by (simp add: grows_def set_circuit_def modify_def trace_grows_def)
  show ?case unfolding circuit_loop.simps
    by (intro tg.grows_rules grows_world grows_record_failure c Cons assms)
qed (simp add: tg.grows_pure)

lemma grows_circuit_call:
  assumes "grows trace_grows fn"
  shows "grows trace_grows (circuit_call O' src fn)"
  unfolding circuit_call_def
  by (intro tg.grows_rules grows_monotonic grows_circuit_loop assms)

end
