(* ===== verification/Runtime.thy ===== *)
theory Runtime
  imports Resilience
begin

text \<open>
  \<^verbatim>\<open>worker/incident_worker/runtime.py\<close>: the application SDK. Every call goes to the Go API with the
  lease owner and generation; \<open>authorize\<close> spends one step of the budget before it asks; the
  result callback is retried with one and the same callback id.
\<close>

record rt =
  rt_run :: RunContext
  started :: rat

section \<open>Operations\<close>

text \<open>The dict display \<open>{"owner": \<dots>, "generation": \<dots>, **payload}\<close>.\<close>

definition call_body :: "RunContext \<Rightarrow> (str \<times> json) list \<Rightarrow> json" where
  "call_body r payload = JObj (fold (\<lambda>(k, v) d. AList.update k v d) payload
     [(u ''owner'', JStr (owner r)), (u ''generation'', JInt (generation r))])"

definition call_url :: "RunContext \<Rightarrow> str \<Rightarrow> str" where
  "call_url r operation = u ''/internal/v1/tasks/'' @ run_id r @ u ''/'' @ operation"

definition rt_call :: "outside \<Rightarrow> rt \<Rightarrow> str \<Rightarrow> (str \<times> json) list \<Rightarrow> json W" where
  "rt_call O' r operation payload =
     bnd (post_api O' (call_url (rt_run r) operation) (call_body (rt_run r) payload))
       (\<lambda>resp. sq (raise_for_status resp) (json_of resp))"

definition budget_exhausted :: exn where
  "budget_exhausted = RuntimeError (u ''budget_exhausted'')"

definition authorize :: "outside \<Rightarrow> rt \<Rightarrow> str \<Rightarrow> json W" where
  "authorize O' r tn =
     bnd (gets calls) (\<lambda>n.
     if n \<ge> steps (budget (rt_run r)) then raise budget_exhausted
     else bnd (monotonic O') (\<lambda>t.
       if t - started r > of_int (seconds (budget (rt_run r))) then raise budget_exhausted
       else sq (modify (\<lambda>s. s\<lparr>calls := calls s + 1\<rparr>))
              (rt_call O' r (u ''authorize'') [(u ''tool'', JStr tn)])))"

definition event :: "outside \<Rightarrow> rt \<Rightarrow> str \<Rightarrow> json \<Rightarrow> json W" where
  "event O' r kind payload =
     rt_call O' r (u ''event'') [(u ''kind'', JStr kind), (u ''payload'', payload)]"

definition result_body :: "str \<Rightarrow> json \<Rightarrow> json \<Rightarrow> str \<Rightarrow> (str \<times> json) list" where
  "result_body status report manifest callback_id =
     [(u ''status'', JStr status), (u ''report'', report), (u ''manifest'', manifest),
      (u ''callback_id'', JStr callback_id)]"

fun result_loop :: "outside \<Rightarrow> rt \<Rightarrow> (str \<times> json) list \<Rightarrow> nat list \<Rightarrow> json W" where
  "result_loop O' r body [] = ret JNull"
| "result_loop O' r body (n # rest) =
     catch (rt_call O' r (u ''result'') body)
       (\<lambda>e. if e \<noteq> TransportError then raise e
            else if n = 2 then raise e
            else sq (emit (Sleep (1 / 5 * (of_nat n + 1)))) (result_loop O' r body rest))"

declare result_loop.simps(2) [simp del]

text \<open>\<open>callback_id\<close> is the fresh \<open>uuid4\<close> drawn once, before the first attempt.\<close>

definition result :: "outside \<Rightarrow> rt \<Rightarrow> str \<Rightarrow> str \<Rightarrow> json \<Rightarrow> json \<Rightarrow> json W" where
  "result O' r callback_id status report manifest =
     result_loop O' r (result_body status report manifest callback_id) [0, 1, 2]"

definition hook_names :: "str list" where
  "hook_names = map u [''plan_validated'', ''retrieval_returned'', ''context_assembled'',
     ''tool_before'', ''tool_after'', ''run_finished'']"

definition hook :: "outside \<Rightarrow> rt \<Rightarrow> str \<Rightarrow> json \<Rightarrow> bool \<Rightarrow> unit W" where
  "hook O' r name data policy =
     (if name \<notin> set hook_names then raise (ValueError (u ''unknown_hook''))
      else if \<not> policy then raise (PermissionError (u ''policy_hook_denied''))
      else sq (event O' r (u ''hook'')
             (JObj [(u ''name'', JStr name), (u ''status'', JStr (u ''pass'')), (u ''summary'', data)]))
           (ret ()))"

section \<open>Budget\<close>

text \<open>The step budget is an invariant of every operation: no run passes it.\<close>

definition within_budget :: "rt \<Rightarrow> wstate \<Rightarrow> bool" where
  "within_budget r s \<longleftrightarrow> calls s \<le> steps (budget (rt_run r))"

definition budget_kept :: "rt \<Rightarrow> wstate \<Rightarrow> wstate \<Rightarrow> bool" where
  "budget_kept r s t \<longleftrightarrow> trace_grows s t \<and> (within_budget r s \<longrightarrow> within_budget r t)"

interpretation bk: state_preorder "budget_kept r" for r
  by unfold_locales (auto simp: budget_kept_def intro: tg.R_trans tg.R_refl)

text \<open>A computation that does not touch the counter keeps the budget.\<close>

definition same_calls :: "wstate \<Rightarrow> wstate \<Rightarrow> bool" where
  "same_calls s t \<longleftrightarrow> calls t = calls s"

interpretation sc: state_preorder same_calls
  by unfold_locales (auto simp: same_calls_def)

lemma same_calls_world:
  "grows same_calls (emit e)" "grows same_calls (monotonic O')" "grows same_calls (post_api O' url b)"
  "grows same_calls (post_source O' src b)" "grows same_calls (raise_for_status resp)"
  "grows same_calls (json_of resp)" "grows same_calls (elapsed O')"
  by (auto simp: grows_def same_calls_def monotonic_run elapsed_def post_api_run post_source_run
      raise_for_status_def json_of_def monad_defs split: reply.splits)

lemma budget_keptI: "grows trace_grows m \<Longrightarrow> grows same_calls m \<Longrightarrow> grows (budget_kept r) m"
  by (auto simp: grows_def budget_kept_def within_budget_def same_calls_def)

lemma grows_rt_call: "grows trace_grows (rt_call O' r op pl)"
  unfolding rt_call_def by (intro tg.grows_rules grows_world)

lemma same_calls_rt_call: "grows same_calls (rt_call O' r op pl)"
  unfolding rt_call_def by (intro sc.grows_rules same_calls_world)

lemmas budget_rt_call = budget_keptI [OF grows_rt_call same_calls_rt_call]
lemmas budget_world = budget_keptI [OF grows_emit same_calls_world(1)]
  budget_keptI [OF grows_monotonic same_calls_world(2)]
  budget_keptI [OF grows_post_api same_calls_world(3)]
  budget_keptI [OF grows_post_source same_calls_world(4)]
  budget_keptI [OF grows_raise_for_status same_calls_world(5)]
  budget_keptI [OF grows_json_of same_calls_world(6)]

lemma authorize_run: "authorize O' r tn s =
    (if steps (budget (rt_run r)) \<le> calls s then (Inl budget_exhausted, s)
     else if of_int (seconds (budget (rt_run r))) < clock O' (Monotonic # trace s) - started r
     then (Inl budget_exhausted, s\<lparr>trace := Monotonic # trace s\<rparr>)
     else rt_call O' r (u ''authorize'') [(u ''tool'', JStr tn)]
       (s\<lparr>trace := Monotonic # trace s, calls := calls s + 1\<rparr>))"
  by (simp add: authorize_def monad_defs monotonic_run)

lemma budget_authorize: "grows (budget_kept r) (authorize O' r tn)"
proof -
  have call: "budget_kept r s (snd (rt_call O' r op pl s))" for s op pl
    using budget_rt_call[of r O' r op pl] by (simp add: grows_def)
  have read: "budget_kept r s (s\<lparr>trace := Monotonic # trace s\<rparr>)" for s
    by (simp add: budget_kept_def trace_grows_def within_budget_def)
  have step: "budget_kept r s (s\<lparr>trace := Monotonic # trace s, calls := calls s + 1\<rparr>)"
    if "\<not> steps (budget (rt_run r)) \<le> calls s" for s
    using that by (simp add: budget_kept_def trace_grows_def within_budget_def)
  show ?thesis
    unfolding grows_def authorize_run
    by (auto intro: bk.R_refl read bk.R_trans [OF step call])
qed

lemma budget_event: "grows (budget_kept r) (event O' r kind pl)"
  unfolding event_def by (rule budget_rt_call)

lemma budget_hook: "grows (budget_kept r) (hook O' r name data policy)"
  unfolding hook_def by (intro bk.grows_rules budget_event)

lemma budget_result_loop: "grows (budget_kept r) (result_loop O' r body ns)"
  by (induction ns) (auto simp: result_loop.simps intro!: bk.grows_rules budget_rt_call budget_world)

section \<open>Behaviour\<close>

lemma authorize_exhausted:
  "steps (budget (rt_run r)) \<le> calls s \<Longrightarrow> authorize O' r tn s = (Inl budget_exhausted, s)"
  by (simp add: authorize_run)

lemma authorize_late:
  assumes "calls s < steps (budget (rt_run r))"
    and "of_int (seconds (budget (rt_run r))) < clock O' (Monotonic # trace s) - started r"
  shows "authorize O' r tn s = (Inl budget_exhausted, s\<lparr>trace := Monotonic # trace s\<rparr>)"
  using assms by (simp add: authorize_run)

definition authorize_request :: "rt \<Rightarrow> str \<Rightarrow> effect" where
  "authorize_request r tn = ApiCall (call_url (rt_run r) (u ''authorize''))
     (call_body (rt_run r) [(u ''tool'', JStr tn)])"

text \<open>A granted authorisation spent exactly one step and asked the Go API for this tool.\<close>

lemma authorize_granted:
  assumes "authorize O' r tn s = (Inr sc, t)"
  shows "calls t = calls s + 1" "calls t \<le> steps (budget (rt_run r))"
    "trace t = authorize_request r tn # Monotonic # trace s" "circuits t = circuits s"
    "api O' (trace t) = Ok sc"
  using assms
  by (auto simp: authorize_def bnd_Inr sq_Inr monotonic_run rt_call_def post_api_run
      raise_for_status_def json_of_def authorize_request_def
      split: if_splits reply.splits)

text \<open>The result callback: every request it sends is the same one, and it sends at most three.\<close>

definition result_request :: "rt \<Rightarrow> (str \<times> json) list \<Rightarrow> effect" where
  "result_request r body = ApiCall (call_url (rt_run r) (u ''result'')) (call_body (rt_run r) body)"

lemma rt_call_trace: "trace (snd (rt_call O' r op pl s)) =
    ApiCall (call_url (rt_run r) op) (call_body (rt_run r) pl) # trace s"
  by (auto simp: rt_call_def monad_defs post_api_run raise_for_status_def json_of_def
      split: reply.splits)

lemma result_loop_trace:
  "\<exists>new. trace (snd (result_loop O' r body ns s)) = new @ trace s
     \<and> set (filter is_api_call new) \<subseteq> {result_request r body}
     \<and> length (filter is_api_call new) \<le> length ns"
proof (induction ns arbitrary: s)
  case Nil
  then show ?case by (auto simp: ret_def intro: exI[of _ "[]"])
next
  case (Cons n ns)
  let ?req = "result_request r body"
  obtain x t where c: "rt_call O' r (u ''result'') body s = (x, t)" by fastforce
  have tr: "trace t = ?req # trace s"
    using rt_call_trace[of O' r "u ''result''" body s] c by (simp add: result_request_def)
  show ?case
  proof (cases "x = Inl TransportError \<and> n \<noteq> 2")
    case False
    then have "snd (result_loop O' r body (n # ns) s) = t"
      using c by (auto simp: result_loop.simps catch_def raise_def split: sum.splits)
    with tr show ?thesis by (auto simp: result_request_def intro: exI[of _ "[?req]"])
  next
    case True
    let ?t = "t\<lparr>trace := Sleep (1 / 5 * (of_nat n + 1)) # trace t\<rparr>"
    have eq: "result_loop O' r body (n # ns) s = result_loop O' r body ns ?t"
      using c True by (simp add: result_loop.simps catch_def sq_def bnd_def)
    obtain new where "trace (snd (result_loop O' r body ns ?t)) = new @ trace ?t"
      "set (filter is_api_call new) \<subseteq> {?req}" "length (filter is_api_call new) \<le> length ns"
      using Cons.IH by blast
    then show ?thesis unfolding eq
      by (intro exI[of _ "new @ [Sleep (1 / 5 * (of_nat n + 1)), ?req]"])
        (auto simp: tr result_request_def)
  qed
qed

section \<open>The interface the evidence assembly uses\<close>

text \<open>
  \<open>assemble\<close> is called with the live SDK or with the offline one of the evaluation; what it
  relies on is that the operations move the state only along a preorder the runtime promises.
\<close>

record 'x rt_ops =
  op_run :: RunContext
  op_authorize :: "str \<Rightarrow> ('x, json) M"
  op_hook :: "str \<Rightarrow> json \<Rightarrow> ('x, unit) M"
  op_query :: "source \<Rightarrow> PlanStep \<Rightarrow> json \<Rightarrow> ('x, json) M"
  op_elapsed :: "('x, json) M"

locale runtime = state_preorder R for R :: "'x \<Rightarrow> 'x \<Rightarrow> bool" +
  fixes ops :: "'x rt_ops"
  assumes authorize_grows: "grows R (op_authorize ops tn)"
    and hook_grows: "grows R (op_hook ops name data)"
    and query_grows: "grows R (op_query ops src st cursor)"
    and elapsed_grows: "grows R (op_elapsed ops)"

end
