(* ===== verification/Connectors.thy ===== *)
theory Connectors
  imports Runtime
begin

text \<open>
  \<^verbatim>\<open>worker/incident_worker/connectors.py\<close>: the five sources. Four are HTTP endpoints behind a
  circuit breaker; the deployment history is read with one SQL query, whose meaning over the rows
  of \<open>sources.deployments\<close> is written out. Every query authorises its own source first.
\<close>

section \<open>HTTP sources\<close>

definition http_capabilities :: "source \<Rightarrow> json" where
  "http_capabilities src = JObj
     [(u ''query'', JBool True), (u ''pagination'', JBool True), (u ''deletions'', JBool True),
      (u ''incremental'', JBool (src = Logs)),
      (u ''scope'', JStr (u ''connection plus current task authorization'')),
      (u ''sync'', JStr (if src = Logs then u ''incremental'' else u ''rescan''))]"

definition http_discover :: json where
  "http_discover = JObj
     [(u ''record_fields'', strs (map u [''id'', ''event_time'', ''content'', ''locator'', ''version'',
         ''deleted''])),
      (u ''version'', JStr (u ''1''))]"

text \<open>\<open>health\<close>: whether \<open>/healthz\<close> answers with a success status; no answer is unhealthy.\<close>

definition http_health :: "outside \<Rightarrow> str \<Rightarrow> bool W" where
  "http_health O' source_url =
     catch (bnd (get_url O' (source_url @ u ''/healthz''))
              (\<lambda>resp. ret (case resp of Ok _ \<Rightarrow> True | NotJson \<Rightarrow> True | _ \<Rightarrow> False)))
       (\<lambda>e. if e = TransportError then ret False else raise e)"

definition source_request :: "rt \<Rightarrow> PlanStep \<Rightarrow> json \<Rightarrow> json" where
  "source_request r st cursor = JObj
     [(u ''task'', JObj [(u ''id'', JStr (run_id (rt_run r))), (u ''owner'', JStr (owner (rt_run r))),
         (u ''generation'', JInt (generation (rt_run r)))]),
      (u ''cursor'', cursor), (u ''limit'', JInt (limit st))]"

definition http_query :: "outside \<Rightarrow> rt \<Rightarrow> source \<Rightarrow> PlanStep \<Rightarrow> json \<Rightarrow> json W" where
  "http_query O' r src st cursor =
     sq (authorize O' r (source_name src))
       (bnd (circuit_call O' src (post_source O' src (source_request r st cursor)))
         (\<lambda>resp. sq (raise_for_status resp) (json_of resp)))"

section \<open>The deployment history\<close>

definition deployment_capabilities :: json where
  "deployment_capabilities = JObj
     [(u ''query'', JBool True), (u ''pagination'', JBool True), (u ''incremental'', JBool True),
      (u ''deletions'', JBool True), (u ''scope'', JStr (u ''current task service'')),
      (u ''sync'', JStr (u ''watermark''))]"

definition deployment_discover :: json where
  "deployment_discover = JObj
     [(u ''record_fields'', strs (map u [''id'', ''service'', ''app_id'', ''version'', ''commit_sha'',
         ''event_time'', ''watermark'', ''deleted''])),
      (u ''version'', JStr (u ''1''))]"

definition deployment_health :: "outside \<Rightarrow> bool W" where
  "deployment_health O' = sq (emit DbPing) (gets (\<lambda>s. db_ping O' (trace s)))"

text \<open>
  The subquery: the release that was current at the start of the interval, the last one in time
  (and watermark) among the rows of the service that are not deleted.
\<close>

definition current_at :: "deployment_row list \<Rightarrow> str \<Rightarrow> int \<Rightarrow> str option" where
  "current_at rows svc t0 =
     (case rev (sort_key (\<lambda>w. (row_time w, row_watermark w))
         (filter (\<lambda>w. row_service w = svc \<and> \<not> row_deleted w \<and> row_time w \<le> t0) rows)) of
        [] \<Rightarrow> None | w # _ \<Rightarrow> Some (row_id w))"

definition in_scope :: "deployment_row list \<Rightarrow> str \<Rightarrow> int \<Rightarrow> int \<Rightarrow> deployment_row \<Rightarrow> bool" where
  "in_scope rows svc t0 t1 w \<longleftrightarrow> row_service w = svc \<and> row_time w \<le> t1
     \<and> (t0 \<le> row_time w \<or> current_at rows svc t0 = Some (row_id w))"

definition select_deployments ::
    "(str \<Rightarrow> str) \<Rightarrow> deployment_row list \<Rightarrow> str \<Rightarrow> int \<Rightarrow> int \<Rightarrow> int \<Rightarrow> nat \<Rightarrow> deployment_row list" where
  "select_deployments coll rows svc t0 t1 after n =
     take n (sort_key (\<lambda>w. (row_watermark w, coll (row_id w)))
       (filter (\<lambda>w. in_scope rows svc t0 t1 w \<and> after < row_watermark w) rows))"

text \<open>A row as the record the assembly reads; \<open>event_time\<close> is left out of the content.\<close>

definition deployment_record :: "outside \<Rightarrow> deployment_row \<Rightarrow> json" where
  "deployment_record O' w = JObj
     [(u ''id'', JStr (row_id w)),
      (u ''content'', JObj
         [(u ''id'', JStr (row_id w)), (u ''service'', JStr (row_service w)),
          (u ''app_id'', JStr (row_app_id w)), (u ''version'', JStr (row_version w)),
          (u ''commit_sha'', JStr (row_commit_sha w)), (u ''watermark'', JInt (row_watermark w)),
          (u ''deleted'', JBool (row_deleted w))]),
      (u ''event_time'', JStr (isoformat O' (row_time w))),
      (u ''version'', JStr (dec (row_watermark w))),
      (u ''locator'', JStr (u ''postgres://sources/deployments/'' @ row_id w)),
      (u ''deleted'', JBool (row_deleted w))]"

text \<open>\<open>int(cursor or 0)\<close>.\<close>

definition cursor_value :: "json \<Rightarrow> int res" where
  "cursor_value cursor = (if \<not> truthy cursor then Inr 0
     else case cursor of JStr t \<Rightarrow> py_int t | JInt i \<Rightarrow> Inr i | JBool b \<Rightarrow> Inr 1 | _ \<Rightarrow> Inl TypeError)"

definition scope_str :: "json \<Rightarrow> str \<Rightarrow> str res" where
  "scope_str sc k = rbind (jget sc k) (\<lambda>v. case v of JStr t \<Rightarrow> Inr t
     | _ \<Rightarrow> Inl (OtherError (u ''ProgrammingError'') []))"

definition deployment_query :: "outside \<Rightarrow> rt \<Rightarrow> PlanStep \<Rightarrow> json \<Rightarrow> json W" where
  "deployment_query O' r st cursor =
     bnd (authorize O' r (source_name Deployments)) (\<lambda>sc.
     bnd (read_deployments O') (\<lambda>table.
     bnd (lift (scope_str sc (u ''service''))) (\<lambda>svc.
     bnd (lift (rbind (scope_str sc (u ''end'')) (pg_timestamp O'))) (\<lambda>t1.
     bnd (lift (rbind (scope_str sc (u ''start'')) (pg_timestamp O'))) (\<lambda>t0.
     bnd (lift (cursor_value cursor)) (\<lambda>after.
     let n = nat (limit st);
         rows = select_deployments (collate O') table svc t0 t1 after (n + 1)
     in bnd (lift (jget sc (u ''watermark''))) (\<lambda>mark.
        bnd (now_utc O') (\<lambda>now.
        ret (JObj
          [(u ''records'', JList (map (deployment_record O') (take n rows))),
           (u ''next_cursor'', if length rows > n then JStr (dec (row_watermark (rows ! (n - 1))))
                             else JNull),
           (u ''watermark'', mark),
           (u ''observed_at'', JStr now),
           (u ''scope'', sc)])))))))))"

section \<open>The registry\<close>

definition registry_query :: "outside \<Rightarrow> rt \<Rightarrow> source \<Rightarrow> PlanStep \<Rightarrow> json \<Rightarrow> json W" where
  "registry_query O' r src st cursor =
     (if src = Deployments then deployment_query O' r st cursor
      else http_query O' r src st cursor)"

definition REGISTRY :: "(str \<times> source) list" where
  "REGISTRY = map (\<lambda>src. (source_name src, src)) [Logs, Deployments, Git, Runbook, Cluster]"

text \<open>\<open>register\<close>: a name is never taken twice.\<close>

definition register :: "(str \<times> 'c) list \<Rightarrow> str \<Rightarrow> 'c \<Rightarrow> (str \<times> 'c) list res" where
  "register reg name connector =
     (if name \<in> set (map fst reg) then Inl (ValueError (u ''duplicate_connector''))
      else Inr (AList.update name connector reg))"

lemma register_keeps:
  "register reg name c = Inr reg' \<Longrightarrow> k \<noteq> name \<Longrightarrow> map_of reg' k = map_of reg k"
  by (auto simp: register_def update_conv' split: if_splits)

lemma register_adds: "register reg name c = Inr reg' \<Longrightarrow> map_of reg' name = Some c"
  by (auto simp: register_def update_conv' split: if_splits)

lemma registered_connector_not_replaced: "register REGISTRY (source_name src) c = Inl (ValueError (u ''duplicate_connector''))"
  by (cases src) (simp_all add: register_def REGISTRY_def)

section \<open>Laws of the queries\<close>

lemma leaves_circuits_post: "leaves_circuits (post_source O' src body)"
  by (auto simp: leaves_circuits_def post_source_run split: reply.splits)

lemma one_call_post: "one_call (post_source O' src body)"
  by (auto simp: one_call_def post_source_run source_calls_def split: reply.splits)

lemma same_calls_circuit:
  assumes "grows same_calls fn"
  shows "grows same_calls (circuit_call O' src fn)"
proof -
  have set: "grows same_calls (set_circuit src c)" for c
    by (simp add: grows_def same_calls_def set_circuit_def modify_def)
  have rec: "grows same_calls (record_failure O' src)"
    by (simp add: grows_def same_calls_def record_failure_run Let_def)
  have loop: "grows same_calls (circuit_loop O' src fn as)" for as
  proof (induction as)
    case (Cons a rest)
    show ?case unfolding circuit_loop.simps
      by (intro sc.grows_rules same_calls_world set rec Cons assms)
  qed (simp add: sc.grows_pure)
  show ?thesis unfolding circuit_call_def by (intro sc.grows_rules same_calls_world loop)
qed

lemma budget_circuit_post: "grows (budget_kept r) (circuit_call O' src (post_source O' src body))"
  by (intro budget_keptI grows_circuit_call same_calls_circuit grows_post_source same_calls_world)

lemma budget_http_query: "grows (budget_kept r) (http_query O' r src st cursor)"
  unfolding http_query_def
  by (intro bk.grows_rules budget_authorize budget_circuit_post budget_world)

lemma same_calls_now: "grows same_calls (now_utc O')" "grows same_calls (read_deployments O')"
  by (auto simp: grows_def same_calls_def now_utc_run read_deployments_run)

lemma budget_deployment_query: "grows (budget_kept r) (deployment_query O' r st cursor)"
  unfolding deployment_query_def Let_def
  by (intro bk.grows_rules budget_authorize budget_keptI grows_now_utc grows_read_deployments
      same_calls_now)

lemma budget_registry_query: "grows (budget_kept r) (registry_query O' r src st cursor)"
  by (simp add: registry_query_def budget_deployment_query budget_http_query)

text \<open>The live SDK provides the interface of the evidence assembly.\<close>

definition live_ops :: "outside \<Rightarrow> rt \<Rightarrow> wstate rt_ops" where
  "live_ops O' r = \<lparr>op_run = rt_run r, op_authorize = authorize O' r,
     op_hook = (\<lambda>name data. hook O' r name data True), op_query = registry_query O' r,
     op_elapsed = elapsed O'\<rparr>"

interpretation live: runtime "budget_kept r" "live_ops O' r" for O' r
  by unfold_locales (simp_all add: live_ops_def budget_authorize budget_hook budget_registry_query
      budget_keptI [OF grows_elapsed same_calls_world(7)])

text \<open>A source is asked only after the Go API granted that tool: with no grant, no request.\<close>

lemma http_query_denied:
  assumes "authorize O' r (source_name src) s = (Inl e, t)"
  shows "http_query O' r src st cursor s = (Inl e, t)"
  using assms by (simp add: http_query_def monad_defs)

lemma authorize_no_source_calls: "source_calls (snd (authorize O' r tn s)) = source_calls s"
proof -
  have "source_calls (snd (rt_call O' r op pl v)) = source_calls v" for op pl v
    by (simp add: source_calls_def rt_call_trace)
  then show ?thesis by (simp add: authorize_run source_calls_def)
qed

lemma http_query_calls: "source_calls (snd (http_query O' r src st cursor s)) \<le> source_calls s + 3"
proof (cases "authorize O' r (source_name src) s")
  case (Pair x t)
  have t: "source_calls t = source_calls s"
    using authorize_no_source_calls[of O' r "source_name src" s] Pair by simp
  show ?thesis
  proof (cases x)
    case (Inl e)
    with Pair t show ?thesis by (simp add: http_query_denied)
  next
    case (Inr sc)
    let ?c = "circuit_call O' src (post_source O' src (source_request r st cursor))"
    have "source_calls (snd (http_query O' r src st cursor s)) = source_calls (snd (?c t))"
      using Pair Inr
      by (auto simp: http_query_def monad_defs raise_for_status_def json_of_def
          split: prod.splits sum.splits reply.splits)
    also have "\<dots> \<le> source_calls t + 3" by (intro circuit_call_calls one_call_post)
    finally show ?thesis using t by simp
  qed
qed

text \<open>The rows the deployment query returns are rows of the service, inside the interval.\<close>

lemma select_deployments_sound:
  assumes "w \<in> set (select_deployments coll rows svc t0 t1 after n)"
  shows "w \<in> set rows" "row_service w = svc" "row_time w \<le> t1" "after < row_watermark w"
  using assms by (auto simp: select_deployments_def in_scope_def dest!: in_set_takeD)

lemma select_deployments_length: "length (select_deployments coll rows svc t0 t1 after n) \<le> n"
  by (simp add: select_deployments_def)

text \<open>With no deleted rows, a row outside the interval can only be the current release.\<close>

lemma select_deployments_old:
  assumes "w \<in> set (select_deployments coll rows svc t0 t1 after n)" and "row_time w < t0"
  shows "current_at rows svc t0 = Some (row_id w)"
  using assms by (auto simp: select_deployments_def in_scope_def dest!: in_set_takeD)

lemma current_at_latest:
  assumes "current_at rows svc t0 = Some i"
  shows "\<exists>w \<in> set rows. row_id w = i \<and> row_service w = svc \<and> \<not> row_deleted w \<and> row_time w \<le> t0
    \<and> (\<forall>v \<in> set rows. row_service v = svc \<and> \<not> row_deleted v \<and> row_time v \<le> t0
         \<longrightarrow> (row_time v, row_watermark v) \<le> (row_time w, row_watermark w))"
proof -
  let ?k = "\<lambda>w. (row_time w, row_watermark w)"
  let ?c = "filter (\<lambda>w. row_service w = svc \<and> \<not> row_deleted w \<and> row_time w \<le> t0) rows"
  obtain w ws where rev: "rev (sort_key ?k ?c) = w # ws" and i: "row_id w = i"
    using assms by (auto simp: current_at_def split: list.splits)
  then have s: "sort_key ?k ?c = rev ws @ [w]" by (simp add: rev_swap)
  have sorted: "sorted (map ?k (rev ws @ [w]))" using sorted_sort_key[of ?k ?c] unfolding s .
  have set: "set ?c = set (rev ws @ [w])" using set_sort[of ?k ?c] unfolding s by simp
  have "w \<in> set ?c" using set by auto
  moreover have "?k v \<le> ?k w" if "v \<in> set ?c" for v
    using that set sorted by (auto simp: sorted_append)
  ultimately show ?thesis using i by auto
qed

text \<open>Keyset pages: continuing after the last watermark of a full page yields only later rows.\<close>

lemma select_deployments_progress:
  assumes "w \<in> set (select_deployments coll rows svc t0 t1 after n)"
    and "w' \<in> set (select_deployments coll rows svc t0 t1 (row_watermark w) m)"
  shows "row_watermark w < row_watermark w'"
  using assms(2) by (rule select_deployments_sound(4))

end
