(* ===== verification/Regex.thy ===== *)
theory Regex
  imports Prelude
begin

text \<open>
  The part of Python's \<open>re\<close> that the code uses: backtracking matching of patterns built from
  character classes, greedy repetition of a class, sequence, alternation, option, capture groups
  and one-character look-around. \<open>run r st\<close> lists the ways \<open>r\<close> can match at \<open>st\<close>, in the order
  in which the backtracking engine tries them, so that the first one is the engine's match.
  Search, \<open>findall\<close>, \<open>sub\<close> and \<open>fullmatch\<close> are defined over it. Every pattern of the program
  consumes at least one character (\<open>nonempty\<close>), so the engine's rules for empty matches play no
  role.
\<close>

datatype re =
    Cls "int \<Rightarrow> bool"
  | Rep "int \<Rightarrow> bool" nat "nat option"
  | Eps
  | Cat re re
  | Alt re re
  | Opt re
  | Grp nat re
  | NotBehind "int \<Rightarrow> bool"
  | NotAhead "int \<Rightarrow> bool"
  | WordB "int \<Rightarrow> bool"
  | AtStart

text \<open>The character before the position, the rest of the subject, and the groups captured.\<close>

type_synonym mst = "int option \<times> str \<times> (nat \<times> str) list"

definition adv :: "nat \<Rightarrow> mst \<Rightarrow> mst" where
  "adv k st = (case st of (p, s, g) \<Rightarrow> (if k = 0 then p else Some (s ! (k - 1)), drop k s, g))"

definition holds_opt :: "(int \<Rightarrow> bool) \<Rightarrow> int option \<Rightarrow> bool" where
  "holds_opt P o' = (case o' of None \<Rightarrow> False | Some c \<Rightarrow> P c)"

definition head_opt :: "str \<Rightarrow> int option" where
  "head_opt s = (case s of [] \<Rightarrow> None | c # _ \<Rightarrow> Some c)"

fun run :: "re \<Rightarrow> mst \<Rightarrow> mst list" where
  "run (Cls P) (p, s, g) = (case s of [] \<Rightarrow> [] | c # s' \<Rightarrow> if P c then [(Some c, s', g)] else [])"
| "run (Rep P lo hi) (p, s, g) =
     (let n = length (takeWhile P s);
          m = (case hi of None \<Rightarrow> n | Some h \<Rightarrow> min n h)
      in map (\<lambda>k. adv k (p, s, g)) (rev [lo..<Suc m]))"
| "run Eps st = [st]"
| "run (Cat a b) st = concat (map (run b) (run a st))"
| "run (Alt a b) st = run a st @ run b st"
| "run (Opt a) st = run a st @ [st]"
| "run (Grp i a) (p, s, g) =
     map (\<lambda>(p', s', g'). (p', s', AList.update i (take (length s - length s') s) g'))
       (run a (p, s, g))"
| "run (NotBehind P) (p, s, g) = (if holds_opt P p then [] else [(p, s, g)])"
| "run (NotAhead P) (p, s, g) = (if holds_opt P (head_opt s) then [] else [(p, s, g)])"
| "run (WordB W) (p, s, g) = (if holds_opt W p \<noteq> holds_opt W (head_opt s) then [(p, s, g)] else [])"
| "run AtStart (p, s, g) = (if p = None then [(p, s, g)] else [])"

text \<open>Literal text, and literal text under \<open>re.I\<close>.\<close>

fun lit :: "str \<Rightarrow> re" where
  "lit [] = Eps"
| "lit [c] = Cls (\<lambda>x. x = c)"
| "lit (c # cs) = Cat (Cls (\<lambda>x. x = c)) (lit cs)"

text \<open>
  Under \<open>re.I\<close> a lower-case ASCII letter matches itself, its capital and, for \<open>i\<close>, \<open>k\<close> and
  \<open>s\<close>, the dotted and dotless I, the Kelvin sign and the long s.
\<close>

definition ci :: "int \<Rightarrow> int \<Rightarrow> bool" where
  "ci c x \<longleftrightarrow> x = c \<or> x = ascii_upper c \<or> (c = 107 \<and> x = 8490) \<or> (c = 115 \<and> x = 383)
     \<or> (c = 105 \<and> (x = 304 \<or> x = 305))"

fun lit_ci :: "str \<Rightarrow> re" where
  "lit_ci [] = Eps"
| "lit_ci [c] = Cls (ci c)"
| "lit_ci (c # cs) = Cat (Cls (ci c)) (lit_ci cs)"

fun alts :: "re list \<Rightarrow> re" where
  "alts [] = Cls (\<lambda>_. False)"
| "alts [r] = r"
| "alts (r # rs) = Alt r (alts rs)"

fun cats :: "re list \<Rightarrow> re" where
  "cats [] = Eps"
| "cats [r] = r"
| "cats (r # rs) = Cat r (cats rs)"

section \<open>Matching functions\<close>

definition match_at :: "re \<Rightarrow> int option \<Rightarrow> str \<Rightarrow> (nat \<times> (nat \<times> str) list) option" where
  "match_at r p s = (case run r (p, s, []) of
     [] \<Rightarrow> None
   | (p', s', g) # _ \<Rightarrow> Some (length s - length s', g))"

definition fullmatch :: "re \<Rightarrow> str \<Rightarrow> bool" where
  "fullmatch r s = list_ex (\<lambda>(p, s', g). s' = []) (run r (None, s, []))"

text \<open>
  The subject cut into the characters no match covers (\<open>Inl\<close>) and the successive
  non-overlapping matches with their groups (\<open>Inr\<close>).
\<close>

function scan :: "re \<Rightarrow> int option \<Rightarrow> str \<Rightarrow> (int + str \<times> (nat \<times> str) list) list" where
  "scan r p [] = []"
| "scan r p (c # s) =
     (case match_at r p (c # s) of
        Some (Suc n, g) \<Rightarrow>
          Inr (c # take n s, g) # scan r (Some ((c # s) ! n)) (drop n s)
      | _ \<Rightarrow> Inl c # scan r (Some c) s)"
  by pat_completeness auto
termination
  by (relation "measure (\<lambda>(r, p, s). length s)") auto

declare scan.simps(2) [simp del]

definition sub :: "re \<Rightarrow> (str \<Rightarrow> (nat \<times> str) list \<Rightarrow> str) \<Rightarrow> str \<Rightarrow> str" where
  "sub r f s = concat (map (case_sum (\<lambda>c. [c]) (\<lambda>(m, g). f m g)) (scan r None s))"

definition matches :: "re \<Rightarrow> str \<Rightarrow> (str \<times> (nat \<times> str) list) list" where
  "matches r s = concat (map (case_sum (\<lambda>_. []) (\<lambda>mg. [mg])) (scan r None s))"

definition findall :: "re \<Rightarrow> str \<Rightarrow> str list" where
  "findall r s = map fst (matches r s)"

definition search :: "re \<Rightarrow> str \<Rightarrow> bool" where
  "search r s \<longleftrightarrow> matches r s \<noteq> []"

text \<open>Group \<open>i\<close> of a match; a group that took no part is the empty string in \<open>findall\<close>.\<close>

definition group :: "nat \<Rightarrow> (nat \<times> str) list \<Rightarrow> str" where
  "group i g = dict_get g i []"

section \<open>Laws\<close>

text \<open>A match consumes a prefix of the subject.\<close>

lemma adv_suffix: "adv k (p, s, g) = (p', s', g') \<Longrightarrow> s = take k s @ s'"
  by (auto simp: adv_def)

lemma run_suffix: "(p', s', g') \<in> set (run r (p, s, g)) \<Longrightarrow> \<exists>w. s = w @ s'"
proof (induction r "(p, s, g)" arbitrary: p s g p' s' g' rule: run.induct)
  case (1 P p s g)
  then show ?case by (auto split: list.splits if_splits)
next
  case (2 P lo hi p s g)
  then show ?case by (auto simp: Let_def dest: adv_suffix[OF sym])
next
  case (4 a b)
  then obtain p1 s1 g1 where m: "(p1, s1, g1) \<in> set (run a (p, s, g))"
    and n: "(p', s', g') \<in> set (run b (p1, s1, g1))" by auto
  from 4(1)[OF m] obtain w where "s = w @ s1" by blast
  moreover from 4(2)[OF m n] obtain w' where "s1 = w' @ s'" by blast
  ultimately show ?case by auto
next
  case (7 i a p s g)
  then show ?case by (auto split: prod.splits)
qed (auto split: if_splits)

text \<open>Patterns that consume at least one character.\<close>

fun nonempty :: "re \<Rightarrow> bool" where
  "nonempty (Cls P) = True"
| "nonempty (Rep P lo hi) = (0 < lo)"
| "nonempty (Cat a b) = (nonempty a \<or> nonempty b)"
| "nonempty (Alt a b) = (nonempty a \<and> nonempty b)"
| "nonempty (Grp i a) = nonempty a"
| "nonempty _ = False"

lemma run_nonempty:
  "nonempty r \<Longrightarrow> (p', s', g') \<in> set (run r (p, s, g)) \<Longrightarrow> length s' < length s"
proof (induction r "(p, s, g)" arbitrary: p s g p' s' g' rule: run.induct)
  case (2 P lo hi p s g)
  let ?m = "case hi of None \<Rightarrow> length (takeWhile P s) | Some h \<Rightarrow> min (length (takeWhile P s)) h"
  from 2 obtain k where k: "lo \<le> k" "k < Suc ?m" "adv k (p, s, g) = (p', s', g')"
    by (auto simp: Let_def)
  have "?m \<le> length s" by (auto split: option.split intro: le_trans[OF min.cobounded1] length_takeWhile_le)
  with k 2(1) show ?case by (auto simp: adv_def)
next
  case (4 a b)
  then obtain p1 s1 g1 where m: "(p1, s1, g1) \<in> set (run a (p, s, g))"
    and n: "(p', s', g') \<in> set (run b (p1, s1, g1))" by auto
  have l1: "length s1 \<le> length s" using run_suffix[OF m] by auto
  have l2: "length s' \<le> length s1" using run_suffix[OF n] by auto
  from 4(3) consider "nonempty a" | "nonempty b" by auto
  then show ?case
  proof cases
    case 1
    from 4(1)[OF 1 m] l2 show ?thesis by simp
  next
    case 2
    from 4(2)[OF m 2 n] l1 show ?thesis by simp
  qed
qed (auto split: list.splits if_splits prod.splits)

text \<open>Cutting and putting together again gives the subject back.\<close>

lemma scan_text: "concat (map (case_sum (\<lambda>c. [c]) fst) (scan r p s)) = s"
proof (induction r p s rule: scan.induct)
  case (2 r p c s)
  then show ?case
    by (subst scan.simps) (auto split: option.splits nat.splits prod.splits)
qed simp

text \<open>A substitution that puts every match back is the identity.\<close>

lemma sub_id: "sub r (\<lambda>m g. m) s = s"
proof -
  have "(case_sum (\<lambda>c. [c]) (\<lambda>(m, g). m)) = (case_sum (\<lambda>c. [c]) fst)"
    by (rule ext) (auto split: sum.split)
  then show ?thesis unfolding sub_def by (metis scan_text)
qed

lemma scan_match:
  assumes "match_at r p (c # s) = Some (Suc n, g)"
  shows "scan r p (c # s) = Inr (c # take n s, g) # scan r (Some ((c # s) ! n)) (drop n s)"
  using assms by (subst scan.simps) simp

lemma scan_skip:
  assumes "match_at r p (c # s) = None"
  shows "scan r p (c # s) = Inl c # scan r (Some c) s"
  using assms by (subst scan.simps) simp

text \<open>Patterns that do not look behind do not see the character before the position.\<close>

fun blind :: "re \<Rightarrow> bool" where
  "blind (Cat a b) = (blind a \<and> blind b)"
| "blind (Alt a b) = (blind a \<and> blind b)"
| "blind (Opt a) = blind a"
| "blind (Grp i a) = blind a"
| "blind (NotBehind P) = False"
| "blind (WordB W) = False"
| "blind AtStart = False"
| "blind _ = True"

lemma run_blind:
  "blind r \<Longrightarrow> map snd (run r (p, s, g)) = map snd (run r (q, s, g))"
proof (induction r "(p, s, g)" arbitrary: p q s g rule: run.induct)
  case (4 a b)
  have IHa: "map snd (run a (p, s, g)) = map snd (run a (q, s, g))" using 4 by simp
  have step: "map snd (concat (map (run b) xs)) = map snd (concat (map (run b) ys))"
    if "map snd xs = map snd ys" "set xs \<subseteq> set (run a (p, s, g))" for xs ys
    using that
  proof (induction xs arbitrary: ys)
    case (Cons x xs)
    then obtain y ys' where ys: "ys = y # ys'" "snd x = snd y" "map snd xs = map snd ys'"
      by (cases ys) auto
    obtain px sx gx where x: "x = (px, sx, gx)" by (cases x) auto
    obtain py where y: "y = (py, sx, gx)" using ys x by (cases y) auto
    have "map snd (run b x) = map snd (run b y)"
      using 4(2) 4(3) Cons.prems(2) x y by auto
    with Cons ys show ?case by auto
  qed simp
  show ?case using step[OF IHa] by simp
next
  case (5 a b)
  have "map snd (run a (p, s, g)) = map snd (run a (q, s, g))"
    "map snd (run b (p, s, g)) = map snd (run b (q, s, g))" using 5 by auto
  then show ?case by simp
next
  case (7 i a p s g)
  let ?h = "\<lambda>(s', g'). (s', AList.update i (take (length s - length s') s) g')"
  have h: "map snd (run (Grp i a) (r, s, g)) = map ?h (map snd (run a (r, s, g)))" for r
    by (auto split: prod.splits)
  have "map snd (run a (p, s, g)) = map snd (run a (q, s, g))" using 7 by simp
  then show ?case by (simp only: h)
qed (auto simp: Let_def adv_def split: list.splits)

lemma match_at_blind: "blind r \<Longrightarrow> match_at r p s = match_at r q s"
proof -
  assume "blind r"
  then have eq: "map snd (run r (p, s, [])) = map snd (run r (q, s, []))" by (rule run_blind)
  then show ?thesis
    by (cases "run r (p, s, [])"; cases "run r (q, s, [])") (auto simp: match_at_def)
qed

lemma scan_blind: "blind r \<Longrightarrow> scan r p s = scan r q s"
proof (cases s)
  case (Cons c t)
  assume "blind r"
  then show ?thesis unfolding Cons
    by (subst (1 2) scan.simps) (simp add: match_at_blind[of r p _ q] cong: option.case_cong)
qed simp

end
