(* ===== verification/Redaction.thy ===== *)
theory Redaction
  imports Json Regex
begin

text \<open>
  \<^verbatim>\<open>worker/incident_worker/redaction.py\<close>: credentials are removed from every record before it is
  used as evidence. The two patterns and the recursive function are translated as written; the
  lemmas show that the result does not depend on the removed secret.
\<close>

section \<open>Patterns\<close>

text \<open>The class \<open>[^\s,"]\<close>.\<close>

definition secret_char :: "int \<Rightarrow> bool" where
  "secret_char c \<longleftrightarrow> \<not> is_space c \<and> c \<noteq> 44 \<and> c \<noteq> 34"

definition sep_char :: "int \<Rightarrow> bool" where
  "sep_char c \<longleftrightarrow> c = 58 \<or> c = 61"

definition spaces :: re where
  "spaces = Rep is_space 0 None"

definition authorization_pattern :: re where
  "authorization_pattern = cats
     [Grp 1 (cats [lit_ci (u ''authorization''), spaces, Cls sep_char, spaces]),
      Opt (cats [lit_ci (u ''bearer''), Rep is_space 1 None]),
      Rep secret_char 1 None]"

text \<open>\<open>api[_-]?key|password|secret|token\<close>, under \<open>(?i)\<close>.\<close>

definition key_words :: re where
  "key_words = alts
     [cats [lit_ci (u ''api''), Opt (Cls (\<lambda>c. c = 95 \<or> c = 45)), lit_ci (u ''key'')],
      lit_ci (u ''password''), lit_ci (u ''secret''), lit_ci (u ''token'')]"

definition key_pattern :: re where
  "key_pattern = cats
     [Grp 1 (cats [key_words, spaces, Cls sep_char, spaces]), Rep secret_char 1 None]"

definition PATTERNS :: "re list" where
  "PATTERNS = [authorization_pattern, key_pattern]"

definition REDACTED :: str where
  "REDACTED = u ''[REDACTED]''"

section \<open>redact\<close>

text \<open>The replacement \<open>\1[REDACTED]\<close>.\<close>

definition keep_group :: "str \<Rightarrow> (nat \<times> str) list \<Rightarrow> str" where
  "keep_group m g = group 1 g @ REDACTED"

definition redact_str :: "str \<Rightarrow> str" where
  "redact_str v = fold (\<lambda>pattern s. sub pattern keep_group s) PATTERNS v"

definition sensitive_key :: "str \<Rightarrow> bool" where
  "sensitive_key k = fullmatch (Alt (lit_ci (u ''authorization'')) key_words) k"

primrec redact :: "json \<Rightarrow> json" where
  "redact JNull = JNull"
| "redact (JBool b) = JBool b"
| "redact (JInt i) = JInt i"
| "redact (JFloat t) = JFloat t"
| "redact (JStr t) = JStr (redact_str t)"
| "redact (JList xs) = JList (map redact xs)"
| "redact (JObj d) = JObj
     (map (\<lambda>kv. (fst kv, if sensitive_key (fst kv) then JStr REDACTED else snd kv))
       (map (map_prod id redact) d))"

section \<open>Dicts\<close>

text \<open>
  Two values are alike in public if they differ only in what stands under a sensitive key.
\<close>

inductive alike :: "json \<Rightarrow> json \<Rightarrow> bool" where
  alike_refl: "alike j j"
| alike_list: "list_all2 alike xs ys \<Longrightarrow> alike (JList xs) (JList ys)"
| alike_obj: "list_all2 (\<lambda>a b. fst a = fst b \<and> (sensitive_key (fst a) \<or> alike (snd a) (snd b))) d e
    \<Longrightarrow> alike (JObj d) (JObj e)"

lemma redact_alike: "alike j k \<Longrightarrow> redact j = redact k"
proof (induction rule: alike.induct)
  case (alike_list xs ys)
  then show ?case by (induction rule: list_all2_induct) auto
next
  case (alike_obj d e)
  then show ?case by (induction rule: list_all2_induct) auto
qed simp

lemma redact_get:
  "jget (redact (JObj d)) k = (case map_of d k of
     None \<Rightarrow> Inl (KeyError k)
   | Some v \<Rightarrow> Inr (if sensitive_key k then JStr REDACTED else redact v))"
  by (induction d) auto

lemma redact_keys: "map fst d' = map fst d" if "redact (JObj d) = JObj d'"
  using that by (induction d arbitrary: d') auto

text \<open>Which keys are sensitive: the spellings of the five words, whatever the case.\<close>

lemma sensitive_examples [simp]:
  "sensitive_key (u ''Authorization'')" "sensitive_key (u ''api_key'')"
  "sensitive_key (u ''API-KEY'')" "sensitive_key (u ''apikey'')" "sensitive_key (u ''password'')"
  "sensitive_key (u ''secret'')" "sensitive_key (u ''token'')"
  "\<not> sensitive_key (u ''records'')" "\<not> sensitive_key (u ''content'')"
  "\<not> sensitive_key (u ''id'')" "\<not> sensitive_key (u ''message'')"
  by code_simp+

section \<open>Text\<close>

text \<open>The first way a pattern matches at a position, and how it composes.\<close>

definition first_run :: "re \<Rightarrow> mst \<Rightarrow> mst \<Rightarrow> bool" where
  "first_run r st st' \<longleftrightarrow> (\<exists>more. run r st = st' # more)"

lemma first_Cat: "first_run a st st1 \<Longrightarrow> first_run b st1 st2 \<Longrightarrow> first_run (Cat a b) st st2"
  by (auto simp: first_run_def)

lemma first_Alt1: "first_run a st st1 \<Longrightarrow> first_run (Alt a b) st st1"
  by (auto simp: first_run_def)

lemma first_Alt2: "run a st = [] \<Longrightarrow> first_run b st st1 \<Longrightarrow> first_run (Alt a b) st st1"
  by (auto simp: first_run_def)

lemma first_Opt: "first_run a st st1 \<Longrightarrow> first_run (Opt a) st st1"
  by (auto simp: first_run_def)

lemma first_Grp:
  "first_run a (p, w @ s, g) (p', s, g') \<Longrightarrow>
   first_run (Grp i a) (p, w @ s, g) (p', s, AList.update i w g')"
  by (auto simp: first_run_def)

lemma first_Cls: "P c \<Longrightarrow> first_run (Cls P) (p, c # s, g) (Some c, s, g)"
  by (simp add: first_run_def)

lemma takeWhile_stop:
  "\<forall>c \<in> set w. P c \<Longrightarrow> s = [] \<or> \<not> P (hd s) \<Longrightarrow> takeWhile P (w @ s) = w"
  by (cases s) (auto simp: takeWhile_append2)

text \<open>A greedy repetition takes the whole run of its class.\<close>

lemma first_Rep:
  assumes "\<forall>c \<in> set w. P c" and "s = [] \<or> \<not> P (hd s)" and "lo \<le> length w"
  shows "\<exists>q. first_run (Rep P lo None) (p, w @ s, g) (q, s, g)"
proof -
  have "takeWhile P (w @ s) = w" using assms(1,2) by (rule takeWhile_stop)
  with assms(3) show ?thesis
    by (auto simp: first_run_def adv_def Let_def)
qed

lemma first_match_at:
  "first_run r (p, w @ s, []) (q, s, g) \<Longrightarrow> match_at r p (w @ s) = Some (length w, g)"
  by (auto simp: first_run_def match_at_def)

text \<open>
  The shape of a credential in text: a key, a separator with optional space, and a secret that
  runs up to white space, a comma, a quote or the end.
\<close>

definition white :: "str \<Rightarrow> bool" where
  "white w \<longleftrightarrow> (\<forall>c \<in> set w. is_space c)"

definition stops :: "str \<Rightarrow> bool" where
  "stops s \<longleftrightarrow> s = [] \<or> \<not> secret_char (hd s)"

definition secret :: "str \<Rightarrow> bool" where
  "secret s \<longleftrightarrow> s \<noteq> [] \<and> (\<forall>c \<in> set s. secret_char c)"

definition written_as :: "str \<Rightarrow> str \<Rightarrow> bool" where
  "written_as word k \<longleftrightarrow> list_all2 ci word k"

lemma secret_hd: "secret s \<Longrightarrow> s @ r = [] \<or> \<not> is_space (hd (s @ r))"
  by (cases s) (auto simp: secret_def secret_char_def)

lemma sep_not_space: "sep_char c \<Longrightarrow> \<not> is_space c"
  by (auto simp: sep_char_def is_space_def)

lemma first_spaces:
  "white w \<Longrightarrow> s = [] \<or> \<not> is_space (hd s) \<Longrightarrow>
   \<exists>q. first_run spaces (p, w @ s, g) (q, s, g)"
  unfolding spaces_def white_def by (rule first_Rep) auto

lemma first_white:
  "white w \<Longrightarrow> w \<noteq> [] \<Longrightarrow> s = [] \<or> \<not> is_space (hd s) \<Longrightarrow>
   \<exists>q. first_run (Rep is_space 1 None) (p, w @ s, g) (q, s, g)"
  unfolding white_def by (rule first_Rep) (auto simp: Suc_le_eq)

lemma first_lit_ci:
  "written_as word k \<Longrightarrow> \<exists>q. first_run (lit_ci word) (p, k @ s, g) (q, s, g)"
proof (induction word arbitrary: k p rule: lit_ci.induct)
  case 1
  then show ?case by (auto simp: first_run_def written_as_def)
next
  case (2 c)
  then show ?case by (auto simp: first_run_def written_as_def list_all2_Cons1)
next
  case (3 c d cs)
  then obtain x xs where k: "k = x # xs" "ci c x" and xs: "written_as (d # cs) xs"
    by (auto simp: written_as_def list_all2_Cons1)
  from 3(1)[OF xs] obtain q where "first_run (lit_ci (d # cs)) (Some x, xs @ s, g) (q, s, g)"
    by blast
  with k show ?case by (auto intro: first_Cat first_Cls)
qed

text \<open>The words \<open>password\<close>, \<open>secret\<close> and \<open>token\<close>, written in any case.\<close>

definition plain_words :: "str list" where
  "plain_words = [u ''password'', u ''secret'', u ''token'']"

lemma lit_ci_no:
  "\<not> ci c x \<Longrightarrow> run (lit_ci (c # cs)) (p, x # s, g) = []"
  by (cases cs) auto

lemma api_no: "\<not> ci 97 x \<Longrightarrow> run (cats [lit_ci (u ''api''), a, b]) (p, x # s, g) = []"
  by (simp add: u_def)

lemma word_no:
  "\<not> ci 112 x \<Longrightarrow> run (lit_ci (u ''password'')) (p, x # s, g) = []"
  "\<not> ci 115 x \<Longrightarrow> run (lit_ci (u ''secret'')) (p, x # s, g) = []"
  by (simp_all add: u_def)

lemma first_key_words:
  assumes "w \<in> set plain_words" and "written_as w k"
  shows "\<exists>q. first_run key_words (p, k @ s, g) (q, s, g)"
proof -
  obtain x xs where k: "k = x # xs"
    using assms by (cases k) (auto simp: plain_words_def written_as_def u_def)
  obtain q where f: "first_run (lit_ci w) (p, x # xs @ s, g) (q, s, g)"
    using first_lit_ci[OF assms(2), of p s g] k by auto
  have hd: "ci (hd w) x" using assms(2) k by (cases w) (auto simp: written_as_def)
  from assms(1) consider "w = u ''password''" | "w = u ''secret''" | "w = u ''token''"
    by (auto simp: plain_words_def)
  then have "first_run key_words (p, x # xs @ s, g) (q, s, g)"
  proof cases
    case 1
    then have n: "\<not> ci 97 x" using hd by (auto simp: u_def ci_def ascii_upper_def)
    show ?thesis unfolding key_words_def alts.simps
      by (rule first_Alt2[OF api_no[OF n] first_Alt1[OF f[unfolded 1]]])
  next
    case 2
    then have n: "\<not> ci 97 x" "\<not> ci 112 x" using hd by (auto simp: u_def ci_def ascii_upper_def)
    show ?thesis unfolding key_words_def alts.simps
      by (rule first_Alt2[OF api_no[OF n(1)] first_Alt2[OF word_no(1)[OF n(2)]
            first_Alt1[OF f[unfolded 2]]]])
  next
    case 3
    then have n: "\<not> ci 97 x" "\<not> ci 112 x" "\<not> ci 115 x"
      using hd by (auto simp: u_def ci_def ascii_upper_def)
    show ?thesis unfolding key_words_def alts.simps
      by (rule first_Alt2[OF api_no[OF n(1)] first_Alt2[OF word_no(1)[OF n(2)]
            first_Alt2[OF word_no(2)[OF n(3)] f[unfolded 3]]]])
  qed
  with k show ?thesis by auto
qed

text \<open>The group \<open>key \s* [:=] \s*\<close>, for any pattern that matches the key.\<close>

lemma first_key_group:
  assumes "\<And>p s g. \<exists>q. first_run r (p, k @ s, g) (q, s, g)"
    and "white w1" and "sep_char c" and "white w2" and "s = [] \<or> \<not> is_space (hd s)"
  shows "\<exists>q. first_run (Grp 1 (cats [r, spaces, Cls sep_char, spaces]))
    (p, (k @ w1 @ [c] @ w2) @ s, []) (q, s, [(1, k @ w1 @ [c] @ w2)])"
proof -
  obtain q1 where 1: "first_run r (p, k @ w1 @ [c] @ w2 @ s, []) (q1, w1 @ [c] @ w2 @ s, [])"
    using assms(1) by blast
  obtain q2 where 2: "first_run spaces (q1, w1 @ [c] @ w2 @ s, []) (q2, [c] @ w2 @ s, [])"
    using first_spaces[OF assms(2), of "[c] @ w2 @ s"] sep_not_space[OF assms(3)] by auto
  have 3: "first_run (Cls sep_char) (q2, [c] @ w2 @ s, []) (Some c, w2 @ s, [])"
    using assms(3) by (simp add: first_Cls)
  obtain q4 where 4: "first_run spaces (Some c, w2 @ s, []) (q4, s, [])"
    using first_spaces[OF assms(4,5)] by blast
  have "first_run (cats [r, spaces, Cls sep_char, spaces]) (p, (k @ w1 @ [c] @ w2) @ s, []) (q4, s, [])"
    using first_Cat[OF 1 first_Cat[OF 2 first_Cat[OF 3 4]]] by simp
  from first_Grp[OF this, of 1] show ?thesis by (auto simp: append_assoc)
qed

lemma first_secret:
  "secret v \<Longrightarrow> stops rest \<Longrightarrow>
   \<exists>q. first_run (Rep secret_char 1 None) (p, v @ rest, g) (q, rest, g)"
  unfolding secret_def stops_def by (rule first_Rep) (auto simp: Suc_le_eq)

lemma sub_first:
  assumes "first_run r (None, w @ s, []) (q, s, g)" and "w \<noteq> []" and "blind r"
  shows "sub r f (w @ s) = f w g @ sub r f s"
proof -
  obtain c w' where w: "w = c # w'" using assms(2) by (cases w) auto
  have m: "match_at r None (c # w' @ s) = Some (Suc (length w'), g)"
    using first_match_at[OF assms(1)] w by simp
  have "scan r None (w @ s) = Inr (w, g) # scan r (Some ((c # w' @ s) ! length w')) s"
    using scan_match[OF m] w by simp
  also have "scan r (Some ((c # w' @ s) ! length w')) s = scan r None s"
    using assms(3) by (rule scan_blind)
  finally show ?thesis by (simp add: sub_def)
qed

lemma key_pattern_blind [simp]: "blind key_pattern" "blind authorization_pattern"
  by (simp_all add: key_pattern_def authorization_pattern_def key_words_def spaces_def u_def)

lemma sub_no_match: "\<not> search r s \<Longrightarrow> sub r f s = s"
proof -
  assume "\<not> search r s"
  then have nil: "\<forall>x \<in> set (scan r None s). case_sum (\<lambda>_. []) (\<lambda>mg. [mg]) x = []"
    by (simp add: search_def matches_def)
  have "\<exists>c. x = Inl c" if "x \<in> set (scan r None s)" for x
    using bspec[OF nil that] by (cases x) auto
  then have eq: "map (case_sum (\<lambda>c. [c]) (\<lambda>(m, g). f m g)) (scan r None s) =
      map (case_sum (\<lambda>c. [c]) fst) (scan r None s)"
    by (intro map_cong refl) fastforce
  show ?thesis unfolding sub_def eq by (rule scan_text)
qed

lemma redact_key_text:
  assumes "w \<in> set plain_words" and "written_as w k"
    and "white w1" and "sep_char c" and "white w2" and "secret v" and "stops rest"
  shows "sub key_pattern keep_group (k @ w1 @ [c] @ w2 @ v @ rest) =
     k @ w1 @ [c] @ w2 @ REDACTED @ sub key_pattern keep_group rest"
proof -
  let ?key = "k @ w1 @ [c] @ w2"
  obtain q1 where 1: "first_run (Grp 1 (cats [key_words, spaces, Cls sep_char, spaces]))
      (None, ?key @ (v @ rest), []) (q1, v @ rest, [(1, ?key)])"
    using first_key_group[OF first_key_words[OF assms(1,2)] assms(3-5) secret_hd[OF assms(6)]]
    by blast
  obtain q2 where 2: "first_run (Rep secret_char 1 None) (q1, v @ rest, [(1, ?key)]) (q2, rest, [(1, ?key)])"
    using first_secret[OF assms(6,7)] by blast
  have "first_run key_pattern (None, (?key @ v) @ rest, []) (q2, rest, [(1, ?key)])"
    using first_Cat[OF 1 2] by (simp add: key_pattern_def)
  from sub_first[OF this, of keep_group] show ?thesis
    by (simp add: keep_group_def group_def dict_get_def)
qed

lemma bearer_hd: "written_as (u ''bearer'') b \<Longrightarrow> b \<noteq> [] \<and> \<not> is_space (hd b)"
proof -
  assume "written_as (u ''bearer'') b"
  then obtain x xs where "b = x # xs" "ci 98 x"
    by (auto simp: written_as_def u_Cons list_all2_Cons1)
  then show ?thesis by (auto simp: ci_def ascii_upper_def is_space_def)
qed

text \<open>The same for an \<open>Authorization\<close> header with a bearer token.\<close>

lemma redact_bearer_text:
  assumes "written_as (u ''authorization'') k" and "white w1" and "sep_char c" and "white w2"
    and "written_as (u ''bearer'') b" and "white w3" and "w3 \<noteq> []" and "secret v" and "stops rest"
  shows "sub authorization_pattern keep_group (k @ w1 @ [c] @ w2 @ b @ w3 @ v @ rest) =
     k @ w1 @ [c] @ w2 @ REDACTED @ sub authorization_pattern keep_group rest"
proof -
  let ?key = "k @ w1 @ [c] @ w2"
  let ?g = "[(1::nat, ?key)]"
  have b: "b \<noteq> []" "\<not> is_space (hd b)" using bearer_hd[OF assms(5)] by auto
  obtain q1 where 1: "first_run (Grp 1 (cats [lit_ci (u ''authorization''), spaces, Cls sep_char, spaces]))
      (None, ?key @ (b @ w3 @ v @ rest), []) (q1, b @ w3 @ v @ rest, ?g)"
    using first_key_group[OF first_lit_ci[OF assms(1)] assms(2-4), of "b @ w3 @ v @ rest"] b
    by auto
  obtain q2 where 2: "first_run (lit_ci (u ''bearer'')) (q1, b @ w3 @ v @ rest, ?g) (q2, w3 @ v @ rest, ?g)"
    using first_lit_ci[OF assms(5)] by blast
  obtain q3 where 3: "first_run (Rep is_space 1 None) (q2, w3 @ v @ rest, ?g) (q3, v @ rest, ?g)"
    using first_white[OF assms(6,7) secret_hd[OF assms(8)]] by blast
  obtain q4 where 4: "first_run (Rep secret_char 1 None) (q3, v @ rest, ?g) (q4, rest, ?g)"
    using first_secret[OF assms(8,9)] by blast
  have o: "first_run (Opt (cats [lit_ci (u ''bearer''), Rep is_space 1 None]))
      (q1, b @ w3 @ v @ rest, ?g) (q3, v @ rest, ?g)"
    using first_Opt[OF first_Cat[OF 2 3]] by simp
  have "first_run authorization_pattern (None, (?key @ b @ w3 @ v) @ rest, []) (q4, rest, ?g)"
    using first_Cat[OF 1 first_Cat[OF o 4]] by (simp add: authorization_pattern_def)
  from sub_first[OF this, of keep_group] show ?thesis
    by (simp add: keep_group_def group_def dict_get_def)
qed

end
