(* ===== verification/Context.thy ===== *)
theory Context
  imports Connectors Redaction
begin

text \<open>
  \<^verbatim>\<open>worker/incident_worker/context.py\<close>: the ontology, the plan validator, the assembly of an
  evidence bundle and the deterministic report. The lists that \<open>assemble\<close> fills while it runs are
  a record next to the runtime's state, since an exception in the middle of a step leaves what
  was appended before it in place.
\<close>

section \<open>Ontology and alias mapping\<close>

fun ONTOLOGY :: "object_type \<Rightarrow> (str \<times> object_type) list" where
  "ONTOLOGY Service = [(u ''team'', Team), (u ''deployments'', Deployment),
     (u ''runbook'', RunbookT), (u ''incidents'', Incident)]"
| "ONTOLOGY Deployment = [(u ''commit'', Commit)]"
| "ONTOLOGY Commit = []"
| "ONTOLOGY RunbookT = []"
| "ONTOLOGY Incident = [(u ''service'', Service)]"
| "ONTOLOGY Team = []"

fun MAPPINGS :: "source \<Rightarrow> (str \<times> str list) list option" where
  "MAPPINGS Logs = Some [(u ''checkout-api'', [u ''svc-17'']), (u ''payment-api'', [u ''svc-23'']),
     (u ''ambiguous'', [u ''svc-17'', u ''svc-23''])]"
| "MAPPINGS Deployments = Some [(u ''svc-17'', [u ''svc-17'']), (u ''svc-23'', [u ''svc-23''])]"
| "MAPPINGS _ = None"

text \<open>\<open>MAPPINGS.get(source, {}).get(alias, [])\<close>; only a string can be a key of the mapping.\<close>

definition alias_ids :: "source \<Rightarrow> json \<Rightarrow> str list" where
  "alias_ids src alias = (case alias of
     JStr a \<Rightarrow> dict_get (case MAPPINGS src of None \<Rightarrow> [] | Some m \<Rightarrow> m) a []
   | _ \<Rightarrow> [])"

definition resolve :: "source \<Rightarrow> json \<Rightarrow> str res" where
  "resolve src alias =
     (if \<not> hashable alias then Inl TypeError
      else case alias_ids src alias of
          [i] \<Rightarrow> Inr i
        | _ \<Rightarrow> Inl (ValueError (u ''ambiguous_or_unmapped_service'')))"

section \<open>Plans\<close>

definition default_plan :: "bool \<Rightarrow> RunContext \<Rightarrow> QueryPlan" where
  "default_plan observe_namespace r =
     \<lparr>plan_service = service r, plan_start = start r, plan_end = end_time r,
      plan_steps =
        [\<lparr>step_source = Deployments, step_object = Deployment,
           path = [u ''Service'', u ''deployments''], limit = 50\<rparr>,
         \<lparr>step_source = Logs, step_object = Service, path = [u ''Service''], limit = 20\<rparr>,
         \<lparr>step_source = Git, step_object = Commit,
           path = [u ''Service'', u ''deployments'', u ''commit''], limit = 50\<rparr>,
         \<lparr>step_source = Runbook, step_object = RunbookT,
           path = [u ''Service'', u ''runbook''], limit = 50\<rparr>]
        @ (if observe_namespace
           then [\<lparr>step_source = Cluster, step_object = Incident,
                   path = [u ''Service'', u ''incidents''], limit = 50\<rparr>]
           else [])\<rparr>"

fun expected :: "source \<Rightarrow> object_type" where
  "expected Logs = Service"
| "expected Deployments = Deployment"
| "expected Git = Commit"
| "expected Runbook = RunbookT"
| "expected Cluster = Incident"

fun walk :: "object_type \<Rightarrow> str list \<Rightarrow> object_type res" where
  "walk ob [] = Inr ob"
| "walk ob (relation # rest) =
     (case map_of (ONTOLOGY ob) relation of
        None \<Rightarrow> Inl (ValueError (u ''invalid_relation''))
      | Some ob' \<Rightarrow> walk ob' rest)"

definition validate_step :: "PlanStep \<Rightarrow> unit res" where
  "validate_step s =
     (case path s of
        [] \<Rightarrow> Inl (ValueError (u ''invalid_root''))
      | anchor # relations \<Rightarrow>
          if anchor \<noteq> u ''Service'' then Inl (ValueError (u ''invalid_root''))
          else rbind (walk Service relations) (\<lambda>ob.
            if ob \<noteq> step_object s then Inl (ValueError (u ''object_type_mismatch''))
            else if step_object s \<noteq> expected (step_source s)
              then Inl (ValueError (u ''source_object_mismatch''))
            else Inr ()))"

text \<open>The scope test stops at its first true comparison, as \<open>or\<close> does.\<close>

definition out_of_scope :: "QueryPlan \<Rightarrow> RunContext \<Rightarrow> bool res" where
  "out_of_scope p r =
     (if plan_service p \<noteq> service r then Inr True
      else rbind (dt_less (plan_start p) (start r)) (\<lambda>early. if early then Inr True
      else rbind (dt_less (end_time r) (plan_end p)) (\<lambda>late. if late then Inr True
      else dt_less (plan_end p) (plan_start p))))"

definition validate_plan :: "QueryPlan \<Rightarrow> RunContext \<Rightarrow> QueryPlan res" where
  "validate_plan p r =
     rbind (out_of_scope p r) (\<lambda>bad.
     if bad then Inl (PermissionError (u ''plan_scope''))
     else if int (length (plan_steps p)) > steps (budget r) then Inl (ValueError (u ''plan_budget''))
     else rbind (rmap validate_step (plan_steps p)) (\<lambda>_. Inr p))"

section \<open>Text of an observation\<close>

text \<open>A value in an f-string; \<open>repr\<close> is only needed for a list or a dict.\<close>

fun py_str :: "outside \<Rightarrow> json \<Rightarrow> str" where
  "py_str O' JNull = u ''None''"
| "py_str O' (JBool b) = (if b then u ''True'' else u ''False'')"
| "py_str O' (JInt i) = dec i"
| "py_str O' (JFloat t) = t"
| "py_str O' (JStr t) = t"
| "py_str O' v = py_repr O' v"

text \<open>\<open>c.get("markdown", "")[:300]\<close>, appended to a string.\<close>

fun slice300 :: "json \<Rightarrow> str res" where
  "slice300 (JStr t) = Inr (take 300 t)"
| "slice300 (JObj _) = Inl (KeyError (u ''slice(None, 300, None)''))"
| "slice300 _ = Inl TypeError"

definition describe :: "outside \<Rightarrow> source \<Rightarrow> json \<Rightarrow> str res" where
  "describe O' src c = (case src of
     Logs \<Rightarrow> rbind (jget_def c (u ''level'') (JStr (u ''UNKNOWN''))) (\<lambda>level.
       rbind (jget_def c (u ''message'') (JStr ([26080, 28040, 24687]))) (\<lambda>message.
       Inr (([26085, 24535, 35760, 24405] @ u '' '') @ py_str O' level @ u '': '' @ py_str O' message)))
   | Deployments \<Rightarrow> rbind (jget_opt c (u ''version'')) (\<lambda>v.
       rbind (jget_opt c (u ''commit_sha'')) (\<lambda>sha.
       Inr (([21457, 24067, 29256, 26412] @ u '' '') @ py_str O' v @ (u '' '' @ [25351, 21521, 25552, 20132] @ u '' '') @ py_str O' sha)))
   | Git \<Rightarrow> rbind (jget_opt c (u ''commit'')) (\<lambda>commit.
       rbind (jget_def c (u ''config'') (JStr ([26410, 25552, 20379]))) (\<lambda>config.
       Inr (([20195, 30721, 25552, 20132] @ u '' '') @ py_str O' commit @ ([65292, 37197, 32622, 24046, 24322, 65306]) @ py_str O' config)))
   | Runbook \<Rightarrow> rbind (jget_def c (u ''markdown'') (JStr [])) (\<lambda>m.
       rbind (slice300 m) (\<lambda>t. Inr (([36816, 34892, 25163, 20876, 25688, 24405, 65306]) @ t)))
   | Cluster \<Rightarrow> Inr (([38598, 32676, 35266, 27979, 65306]) @ take 1500 (dumps False c)))"

section \<open>assemble\<close>

subsection \<open>State of the assembly\<close>

record acc =
  a_facts :: "fact list"
  a_evidence :: "Evidence list"
  a_missing :: "str list"
  a_fresh :: "freshness list"
  a_records :: "(str \<times> json) list"
  a_log_versions :: "json list"
  a_deployment_versions :: "json list"
  a_retrieval :: json

definition empty_acc :: acc where
  "empty_acc = \<lparr>a_facts = [], a_evidence = [], a_missing = [], a_fresh = [], a_records = [],
     a_log_versions = [], a_deployment_versions = [], a_retrieval = JObj []\<rparr>"

type_synonym ('x, 'a) A = "('x \<times> acc, 'a) M"

definition inner :: "('x, 'a) M \<Rightarrow> ('x \<times> 'd, 'a) M" where
  "inner m = (\<lambda>(x, a). case m x of (r, x') \<Rightarrow> (r, (x', a)))"

definition upd :: "(acc \<Rightarrow> acc) \<Rightarrow> ('x, unit) A" where
  "upd f = modify (\<lambda>(x, a). (x, f a))"

definition add_missing :: "str \<Rightarrow> ('x, unit) A" where
  "add_missing t = upd (\<lambda>a. a\<lparr>a_missing := a_missing a @ [t]\<rparr>)"

subsection \<open>Fetching one source\<close>

definition jset :: "json \<Rightarrow> str \<Rightarrow> json \<Rightarrow> json res" where
  "jset j k v = (case j of JObj d \<Rightarrow> Inr (JObj (AList.update k v d)) | _ \<Rightarrow> Inl TypeError)"

text \<open>\<open>{r["id"] for r in out["records"]}\<close>: the ids must be hashable.\<close>

definition known_ids :: "json \<Rightarrow> json list res" where
  "known_ids out = rbind (jget out (u ''records'')) (\<lambda>rs. rbind (as_list rs) (\<lambda>rows.
     rbind (rmap (\<lambda>r. jget r (u ''id'')) rows) (\<lambda>ids.
     if list_all hashable ids then Inr ids else Inl TypeError)))"

text \<open>\<open>out["records"].extend(r for r in more["records"] if r["id"] not in known)\<close>.\<close>

definition extend_records :: "json \<Rightarrow> json \<Rightarrow> json list \<Rightarrow> json res" where
  "extend_records out nxt known = rbind (jget out (u ''records'')) (\<lambda>rs.
     case rs of
       JList old \<Rightarrow> rbind (jget nxt (u ''records'')) (\<lambda>ms. rbind (as_list ms) (\<lambda>rows.
         rbind (rmap (\<lambda>r. jget r (u ''id'')) rows) (\<lambda>ids.
         if list_all hashable ids
         then jset out (u ''records'') (JList (old @
           map fst (filter (\<lambda>(r, i). i \<notin> set known) (zip rows ids))))
         else Inl TypeError)))
     | _ \<Rightarrow> Inl AttributeError)"

text \<open>
  The page loop \<open>while out.get("next_cursor") and pages < 3\<close>; the first argument is the number of
  further pages the guard allows, \<open>3 - pages\<close>.
\<close>

fun more_pages :: "'x rt_ops \<Rightarrow> PlanStep \<Rightarrow> nat \<Rightarrow> nat \<Rightarrow> json \<Rightarrow> ('x, json \<times> nat) M" where
  "more_pages ops st 0 pages out = sq (lift (jget_opt out (u ''next_cursor''))) (ret (out, pages))"
| "more_pages ops st (Suc n) pages out =
     bnd (lift (jget_opt out (u ''next_cursor''))) (\<lambda>cursor.
     if \<not> truthy cursor then ret (out, pages)
     else bnd (op_query ops (step_source st) st cursor) (\<lambda>nxt.
       bnd (lift (known_ids out)) (\<lambda>known.
       bnd (lift (extend_records out nxt known)) (\<lambda>out1.
       bnd (lift (jget_opt nxt (u ''next_cursor''))) (\<lambda>nc.
       bnd (lift (jset out1 (u ''next_cursor'') nc)) (\<lambda>out2.
       more_pages ops st n (pages + 1) out2))))))"

text \<open>The retrieval summary of a log query.\<close>

definition retrieval_of :: "json \<Rightarrow> nat \<Rightarrow> json res" where
  "retrieval_of out pages = rbind (jget_def out (u ''summary'') (JObj [])) (\<lambda>summary.
     case summary of
       JObj d \<Rightarrow> rbind (jget out (u ''records'')) (\<lambda>rs. rbind (json_len rs) (\<lambda>n.
         rbind (jget_opt out (u ''next_cursor'')) (\<lambda>nc.
         rbind (jget_def out (u ''provenance'') (JStr (u ''unknown''))) (\<lambda>prov.
         Inr (JObj (fold (\<lambda>(k, v) e. AList.update k v e)
           [(u ''pages'', JInt (int pages)), (u ''evidence_count'', JInt (int n)),
            (u ''sampled'', JBool (truthy nc)), (u ''provenance'', prov)] d))))))
     | _ \<Rightarrow> Inl TypeError)"

definition fetch :: "'x rt_ops \<Rightarrow> (str \<times> json) list option \<Rightarrow> PlanStep \<Rightarrow> ('x, json) A" where
  "fetch ops recorded st =
     (case recorded of
        Some rec \<Rightarrow>
          (case map_of rec (source_name (step_source st)) of
             None \<Rightarrow> raise (RuntimeError (u ''unreplayable_missing_recording:''
                       @ source_name (step_source st)))
           | Some out \<Rightarrow> sq (inner (op_authorize ops (source_name (step_source st)))) (ret out))
      | None \<Rightarrow>
          bnd (inner (op_query ops (step_source st) st JNull)) (\<lambda>out.
          if step_source st \<noteq> Logs then ret out
          else bnd (inner (more_pages ops st 2 1 out)) (\<lambda>(out', pages).
            bnd (lift (retrieval_of out' pages)) (\<lambda>retr.
            sq (upd (\<lambda>a. a\<lparr>a_retrieval := retr\<rparr>))
               (lift (jset out' (u ''retrieval'') retr))))))"

subsection \<open>One record\<close>

definition step_json :: "PlanStep \<Rightarrow> json" where
  "step_json st = JObj [(u ''source'', JStr (source_name (step_source st))),
     (u ''object'', JStr (object_name (step_object st))), (u ''path'', strs (path st)),
     (u ''limit'', JInt (limit st))]"

definition alias_of :: "source \<Rightarrow> json \<Rightarrow> json res" where
  "alias_of src content =
     (if src = Logs then jget_opt content (u ''service_name'') else jget_opt content (u ''app_id''))"

text \<open>Records of a mapped source must belong to the service of the run.\<close>

definition check_scope :: "source \<Rightarrow> str \<Rightarrow> json \<Rightarrow> unit res" where
  "check_scope src svc content =
     (if MAPPINGS src = None then Inr ()
      else rbind (alias_of src content) (\<lambda>alias. rbind (resolve src alias) (\<lambda>i.
        if i \<noteq> svc then Inl (PermissionError (u ''source_scope_mismatch'')) else Inr ())))"

definition add_version :: "PlanStep \<Rightarrow> json \<Rightarrow> ('x, unit) A" where
  "add_version st content =
     (if step_source st = Logs then
        bnd (lift (jget_opt content (u ''release''))) (\<lambda>v.
        if \<not> truthy v then ret ()
        else if \<not> hashable v then raise TypeError
        else upd (\<lambda>a. a\<lparr>a_log_versions := a_log_versions a @ [v]\<rparr>))
      else if step_source st = Deployments then
        bnd (lift (jget content (u ''version''))) (\<lambda>v.
        if \<not> hashable v then raise TypeError
        else upd (\<lambda>a. a\<lparr>a_deployment_versions := a_deployment_versions a @ [v]\<rparr>))
      else ret ())"

text \<open>The constructor call \<open>Evidence(\<dots>)\<close>: the lookups in order, then the types.\<close>

definition make_evidence ::
    "RunContext \<Rightarrow> PlanStep \<Rightarrow> json \<Rightarrow> json \<Rightarrow> json \<Rightarrow> str \<Rightarrow> str \<Rightarrow> str \<Rightarrow> Evidence res" where
  "make_evidence r st out row content eid digest raw =
     rbind (jget row (u ''locator'')) (\<lambda>loc.
     rbind (jget out (u ''observed_at'')) (\<lambda>coll.
     rbind (jget row (u ''event_time'')) (\<lambda>time.
     rbind (jget row (u ''version'')) (\<lambda>ver.
     rbind (jget row (u ''id'')) (\<lambda>rid.
     rbind (as_str loc) (\<lambda>loc'. rbind (as_str coll) (\<lambda>coll'. rbind (as_str time) (\<lambda>time'.
     rbind (as_str ver) (\<lambda>ver'. rbind (as_str rid) (\<lambda>rid'.
     Inr \<lparr>ev_id = eid, ev_source = step_source st, locator = loc', collected_at = coll',
       event_time = time', version = ver', sha256 = digest,
       snippet = (if length (dumps True content) \<le> 12000 then content else JStr raw),
       ev_team = team r, source_record = rid', available = True\<rparr>))))))))))"

definition row_body ::
    "outside \<Rightarrow> 'x rt_ops \<Rightarrow> PlanStep \<Rightarrow> json \<Rightarrow> json \<Rightarrow> ('x, unit) A" where
  "row_body O' ops st out row =
     bnd (lift (jget row (u ''content''))) (\<lambda>content.
     sq (lift (check_scope (step_source st) (service (op_run ops)) content))
     (let raw = dumps_sorted False content in
      bnd (lift (encode raw)) (\<lambda>bytes.
      let digest = sha256_hex O' bytes in
      bnd (lift (jget row (u ''id''))) (\<lambda>rid.
      let eid = source_name (step_source st) @ u '':'' @ py_str O' rid @ u '':'' @ take 12 digest;
          raw' = (if length raw > 12000 then take 12000 raw else raw)
      in sq (when_M (length raw > 12000)
              (add_missing (source_name (step_source st) @ u '': evidence snippet truncated'')))
        (bnd (lift (make_evidence (op_run ops) st out row content eid digest raw')) (\<lambda>ev.
         sq (upd (\<lambda>a. a\<lparr>a_evidence := a_evidence a @ [ev]\<rparr>))
         (bnd (lift (describe O' (step_source st) content)) (\<lambda>txt.
          sq (upd (\<lambda>a. a\<lparr>a_facts := a_facts a @
                [\<lparr>fact_id = u ''fact:'' @ eid, fact_kind = u ''observation'', fact_text = txt,
                  fact_evidence = [eid], transform = u ''normalize-v1'', query_step = step_json st\<rparr>]\<rparr>))
             (add_version st content))))))))) "

subsection \<open>One step\<close>

definition not_deleted :: "json list \<Rightarrow> json list res" where
  "not_deleted rows = rbind (rmap (\<lambda>r. rbind (jget_opt r (u ''deleted'')) (\<lambda>d. Inr (r, truthy d))) rows)
     (\<lambda>rs. Inr (map fst (filter (\<lambda>(r, d). \<not> d) rs)))"

text \<open>The records of a source, deleted ones aside; that there are none is itself reported.\<close>

definition take_rows :: "outside \<Rightarrow> 'x rt_ops \<Rightarrow> PlanStep \<Rightarrow> json \<Rightarrow> json \<Rightarrow> ('x, unit) A" where
  "take_rows O' ops st out rs =
     bnd (lift (rbind (as_list rs) not_deleted)) (\<lambda>avail.
     sq (when_M (avail = [])
          (add_missing (source_name (step_source st) @ u '': no accessible records in scope'')))
        (fold_M (\<lambda>row _. row_body O' ops st out row) avail ()))"

definition truncated_note :: str where
  "truncated_note = (u '': truncated; '' @ [24050, 25353, 26597, 35810, 26465, 20214, 26816, 32034, 24182,
      20998, 23618, 21462, 26679, 65307, 35777, 25454, 39044, 31639, 20869, 20998,
      39029, 32467, 26463, 65292, 20173, 26377, 26356, 22810, 35760, 24405, 65288] @ u
      ''truncated'' @ [65289])"

text \<open>What a step does with the redacted answer of its source.\<close>

definition after_fetch :: "outside \<Rightarrow> 'x rt_ops \<Rightarrow> PlanStep \<Rightarrow> json \<Rightarrow> ('x, unit) A" where
  "after_fetch O' ops st out =
     (let name = source_name (step_source st) in
      sq (if step_source st = Logs
          then bnd (gets (\<lambda>s. a_retrieval (snd s))) (\<lambda>old.
               bnd (lift (jget_def out (u ''retrieval'') old)) (\<lambda>retr.
               upd (\<lambda>a. a\<lparr>a_retrieval := retr\<rparr>)))
          else ret ())
      (sq (upd (\<lambda>a. a\<lparr>a_records := AList.update name out (a_records a)\<rparr>))
      (bnd (lift (jget out (u ''records''))) (\<lambda>rs.
       bnd (lift (json_len rs)) (\<lambda>n.
       sq (inner (op_hook ops (u ''retrieval_returned'')
             (JObj [(u ''source'', JStr name), (u ''count'', JInt (int n))])))
       (bnd (lift (jget out (u ''observed_at''))) (\<lambda>obs.
        bnd (lift (jget out (u ''watermark''))) (\<lambda>mark.
        sq (upd (\<lambda>a. a\<lparr>a_fresh := a_fresh a @ [\<lparr>fresh_source = step_source st,
              fresh_observed_at = obs, fresh_watermark = py_str O' mark\<rparr>]\<rparr>))
        (bnd (lift (jget_opt out (u ''next_cursor''))) (\<lambda>nc.
         sq (when_M (truthy nc) (add_missing (name @
              truncated_note)))
         (sq (take_rows O' ops st out rs)
          (bnd (inner (op_elapsed ops)) (\<lambda>ms.
           inner (op_hook ops (u ''tool_after'') (JObj [(u ''source'', JStr name),
             (u ''status'', JStr (u ''ok'')), (u ''milliseconds'', ms)])))))))))))))))"

definition step_ok ::
    "outside \<Rightarrow> 'x rt_ops \<Rightarrow> (str \<times> json) list option \<Rightarrow> PlanStep \<Rightarrow> ('x, unit) A" where
  "step_ok O' ops recorded st =
     bnd (fetch ops recorded st) (\<lambda>out. after_fetch O' ops st (redact out))"

text \<open>
  The handlers: a permission error, an error while replaying a recording and a lost scope or
  lease (401, 403, 409) end the assembly; any other exception makes the source missing.
\<close>

definition fatal :: "bool \<Rightarrow> exn \<Rightarrow> bool" where
  "fatal replaying e \<longleftrightarrow> is_permission_error e \<or> replaying
     \<or> e = HTTPStatusError 401 \<or> e = HTTPStatusError 403 \<or> e = HTTPStatusError 409"

definition step_error :: "'x rt_ops \<Rightarrow> PlanStep \<Rightarrow> exn \<Rightarrow> ('x, unit) A" where
  "step_error ops st e =
     sq (add_missing (source_name (step_source st) @ u '': '' @ class_name e))
        (inner (op_hook ops (u ''tool_after'') (JObj [(u ''source'', JStr (source_name (step_source st))),
           (u ''status'', JStr (u ''error'')), (u ''error_class'', JStr (class_name e))])))"

definition do_step ::
    "outside \<Rightarrow> 'x rt_ops \<Rightarrow> (str \<times> json) list option \<Rightarrow> PlanStep \<Rightarrow> ('x, unit) A" where
  "do_step O' ops recorded st =
     sq (inner (op_hook ops (u ''tool_before'') (JObj [(u ''source'', JStr (source_name (step_source st)))])))
        (catch (step_ok O' ops recorded st)
          (\<lambda>e. if fatal (recorded \<noteq> None) e then raise e else step_error ops st e))"

subsection \<open>Relating the evidence\<close>

definition version_conflict :: "acc \<Rightarrow> conflict list" where
  "version_conflict a =
     (if a_log_versions a \<noteq> [] \<and> a_deployment_versions a \<noteq> []
         \<and> set (a_log_versions a) \<noteq> set (a_deployment_versions a)
      then [\<lparr>conflict_text = ([26085, 24535, 19982, 21457, 24067, 34920, 30340, 29256, 26412, 35760, 24405, 19981,
      19968, 33268, 65307, 38656, 35201, 26680, 23545, 23454, 20363, 19982, 21457,
      24067, 26102, 38388, 12290]),
             conflict_evidence = map ev_id
               (filter (\<lambda>e. ev_source e = Logs \<or> ev_source e = Deployments) (a_evidence a))\<rparr>]
      else [])"

record related =
  rel_objects :: "obj list"
  rel_facts :: "fact list"
  rel_conflicts :: "conflict list"

text \<open>The commits whose \<open>commit\<close> equals the release's \<open>commit_sha\<close>.\<close>

definition matched :: "Evidence \<Rightarrow> Evidence list \<Rightarrow> Evidence list res" where
  "matched release commits = rbind (rmap (\<lambda>c.
       rbind (jget_opt (snippet c) (u ''commit'')) (\<lambda>x.
       rbind (jget_opt (snippet release) (u ''commit_sha'')) (\<lambda>y. Inr (c, x = y)))) commits)
     (\<lambda>cs. Inr (map fst (filter snd cs)))"

definition lost_commit :: str where
  "lost_commit = ([21457, 24067, 25351, 21521, 30340, 25552, 20132, 26410, 21305, 37197, 24050, 35835,
      21462, 30340] @ u '' Git '' @ [35760, 24405, 12290])"

definition relate_release ::
    "str \<Rightarrow> Evidence list \<Rightarrow> Evidence \<Rightarrow> related \<Rightarrow> related res" where
  "relate_release svc commits release rel =
     (let rel1 = rel\<lparr>rel_objects := rel_objects rel @
            [DeploymentObj (source_record release) svc [ev_id release] (event_time release)]\<rparr> in
      rbind (matched release commits) (\<lambda>ms.
      case ms of
        commit # _ \<Rightarrow>
          rbind (jget (snippet commit) (u ''commit'')) (\<lambda>cid.
          Inr (rel1\<lparr>
            rel_objects := rel_objects rel1 @
              [CommitObj cid (source_record release) [ev_id release, ev_id commit]],
            rel_facts := rel_facts rel1 @
              [\<lparr>fact_id = u ''fact:relation:'' @ ev_id release, fact_kind = u ''computed'',
                fact_text = ([21457, 24067, 35760, 24405, 19982] @ u '' Git '' @ [25552, 20132, 26631, 35782,
      19968, 33268, 65307, 36825, 21482, 30830, 35748, 21464, 26356, 24402, 23646,
      65292, 19981, 35777, 26126, 25925, 38556, 22240, 26524, 12290]),
                fact_evidence = [ev_id release, ev_id commit], transform = u ''commit-equality-v1'',
                query_step = JObj [(u ''relation'', JStr (u ''Deployment.commit''))]\<rparr>]\<rparr>))
      | [] \<Rightarrow>
          Inr (if commits = [] then rel1
               else rel1\<lparr>rel_conflicts := rel_conflicts rel1 @
                 [\<lparr>conflict_text = lost_commit,
                   conflict_evidence = ev_id release # map ev_id commits\<rparr>]\<rparr>)))"

definition relate_cluster :: "Evidence list \<Rightarrow> Evidence \<Rightarrow> fact list res" where
  "relate_cluster releases observation =
     rbind (jget_opt (snippet observation) (u ''release'')) (\<lambda>ver.
     rbind (rmap (\<lambda>e. rbind (jget_opt (snippet e) (u ''version'')) (\<lambda>v.
         Inr (e, v = ver \<and> truthy ver))) releases) (\<lambda>es.
     Inr (map (\<lambda>(release, _).
       \<lparr>fact_id = u ''fact:cluster-release:'' @ ev_id observation @ u '':'' @ ev_id release,
        fact_kind = u ''computed'',
        fact_text = ([38598, 32676, 24037, 20316, 36127, 36733, 30340, 21457, 24067, 26631, 31614, 19982,
      32467, 26500, 21270, 21457, 24067, 29256, 26412, 19968, 33268, 65307, 22240,
      26524, 20851, 31995, 20173, 38656, 39564, 35777, 12290]),
        fact_evidence = [ev_id observation, ev_id release],
        transform = u ''release-label-equality-v1'',
        query_step = JObj [(u ''relation'', JStr (u ''Incident.service.deployments''))]\<rparr>)
       (filter snd es))))"

definition from_source :: "source \<Rightarrow> Evidence list \<Rightarrow> Evidence list" where
  "from_source src es = filter (\<lambda>e. ev_source e = src) es"

definition relate :: "RunContext \<Rightarrow> acc \<Rightarrow> related res" where
  "relate r a =
     (let releases = from_source Deployments (a_evidence a);
          commits = from_source Git (a_evidence a);
          rel0 = \<lparr>rel_objects = [ServiceObj (service r) (team r)], rel_facts = a_facts a,
                  rel_conflicts = version_conflict a\<rparr>
      in rbind (rfold (relate_release (service r) commits) releases rel0) (\<lambda>rel.
         rbind (rmap (relate_cluster releases) (from_source Cluster (a_evidence a))) (\<lambda>fss.
         Inr (rel\<lparr>rel_facts := rel_facts rel @ concat fss\<rparr>))))"

subsection \<open>The bundle as JSON\<close>

definition evidence_json :: "Evidence \<Rightarrow> json" where
  "evidence_json e = JObj [(u ''id'', JStr (ev_id e)), (u ''source'', JStr (source_name (ev_source e))),
     (u ''locator'', JStr (locator e)), (u ''collected_at'', JStr (collected_at e)),
     (u ''event_time'', JStr (event_time e)), (u ''version'', JStr (version e)),
     (u ''sha256'', JStr (sha256 e)), (u ''snippet'', snippet e), (u ''team'', JStr (ev_team e)),
     (u ''source_record'', JStr (source_record e)), (u ''available'', JBool (available e))]"

definition fact_json :: "fact \<Rightarrow> json" where
  "fact_json f = JObj [(u ''id'', JStr (fact_id f)), (u ''kind'', JStr (fact_kind f)),
     (u ''text'', JStr (fact_text f)), (u ''evidence'', strs (fact_evidence f)),
     (u ''transform'', JStr (transform f)), (u ''query_step'', query_step f)]"

definition conflict_json :: "conflict \<Rightarrow> json" where
  "conflict_json c = JObj [(u ''text'', JStr (conflict_text c)), (u ''evidence'', strs (conflict_evidence c))]"

definition freshness_json :: "freshness \<Rightarrow> json" where
  "freshness_json f = JObj [(u ''source'', JStr (source_name (fresh_source f))),
     (u ''observed_at'', fresh_observed_at f), (u ''watermark'', JStr (fresh_watermark f)),
     (u ''snapshot_consistency'', JStr (u ''independent_source''))]"

fun obj_json :: "obj \<Rightarrow> json" where
  "obj_json (ServiceObj svc tm) = JObj [(u ''type'', JStr (u ''Service'')), (u ''id'', JStr svc), (u ''team'', JStr tm)]"
| "obj_json (DeploymentObj i svc ev time) = JObj [(u ''type'', JStr (u ''Deployment'')), (u ''id'', JStr i),
     (u ''service'', JStr svc), (u ''evidence'', strs ev), (u ''valid_time'', JStr time)]"
| "obj_json (CommitObj i dep ev) = JObj [(u ''type'', JStr (u ''Commit'')), (u ''id'', i),
     (u ''deployment'', JStr dep), (u ''evidence'', strs ev)]"

text \<open>\<open>plan_times p\<close> is the pair of ISO texts pydantic writes for the interval.\<close>

definition bundle_json :: "(QueryPlan \<Rightarrow> str \<times> str) \<Rightarrow> ContextBundle \<Rightarrow> json" where
  "bundle_json plan_times b = JObj
     [(u ''version'', JStr (u ''1'')),
      (u ''scope'', JObj (map (\<lambda>(k, v). (k, JStr v)) (scope b))),
      (u ''objects'', JList (map obj_json (objects b))),
      (u ''facts'', JList (map fact_json (facts b))),
      (u ''evidence'', JList (map evidence_json (evidence b))),
      (u ''missing'', strs (missing b)),
      (u ''conflicts'', JList (map conflict_json (conflicts b))),
      (u ''freshness'', JList (map freshness_json (fresh b))),
      (u ''plan'', JObj [(u ''version'', JStr (u ''1'')), (u ''service'', JStr (plan_service (plan b))),
         (u ''start'', JStr (fst (plan_times (plan b)))), (u ''end'', JStr (snd (plan_times (plan b)))),
         (u ''steps'', JList (map step_json (plan_steps (plan b))))]),
      (u ''token_budget'', JInt (token_budget b)), (u ''memories'', memories b),
      (u ''retrieval'', retrieval b), (u ''mapping_version'', JStr (u ''2'')),
      (u ''ontology_version'', JStr (u ''1''))]"

subsection \<open>The whole assembly\<close>

record assembly_env =
  observe_namespace :: bool
  plan_times :: "QueryPlan \<Rightarrow> str \<times> str"

definition make_bundle :: "RunContext \<Rightarrow> QueryPlan \<Rightarrow> acc \<Rightarrow> related \<Rightarrow> ContextBundle" where
  "make_bundle r p a rel =
     \<lparr>scope = [(u ''team'', team r), (u ''subject'', subject r), (u ''service'', service r)],
      objects = rel_objects rel, facts = rel_facts rel, evidence = a_evidence a,
      missing = a_missing a, conflicts = rel_conflicts rel, fresh = a_fresh a, plan = p,
      token_budget = tokens (budget r), memories = JList [], retrieval = a_retrieval a\<rparr>"

definition assemble_body ::
    "outside \<Rightarrow> assembly_env \<Rightarrow> 'x rt_ops \<Rightarrow> QueryPlan option \<Rightarrow> (str \<times> json) list option \<Rightarrow>
     ('x, ContextBundle \<times> (str \<times> json) list) A" where
  "assemble_body O' env ops p0 recorded =
     (let r = op_run ops in
      bnd (lift (validate_plan (case p0 of Some p \<Rightarrow> p
             | None \<Rightarrow> default_plan (observe_namespace env) r) r)) (\<lambda>p.
      sq (inner (op_hook ops (u ''plan_validated'') (JObj [(u ''steps'', JInt (int (length (plan_steps p))))])))
      (sq (fold_M (\<lambda>st _. do_step O' ops recorded st) (plan_steps p) ())
      (bnd (gets snd) (\<lambda>a.
       bnd (lift (relate r a)) (\<lambda>rel.
       let b = make_bundle r p a rel in
       sq (guard_M (is_dict (a_retrieval a)) ValidationError)
       (bnd (lift (encode (model_json O' (bundle_json (plan_times env) b)))) (\<lambda>bytes.
       if int (length bytes) > output_bytes (budget r)
       then raise (RuntimeError (u ''output_budget_exhausted''))
       else bnd (if recorded = None
                 then bnd (inner (op_authorize ops (u ''memory''))) (\<lambda>historical.
                      lift (jget_def historical (u ''memories'') (JList [])))
                 else ret (JList [])) (\<lambda>mem.
         sq (inner (op_hook ops (u ''context_assembled'') (JObj
              [(u ''facts'', JInt (int (length (facts b)))), (u ''evidence'', JInt (int (length (evidence b)))),
               (u ''conflicts'', JInt (int (length (conflicts b))))])))
         (ret (b\<lparr>memories := mem\<rparr>, a_records a)))))))))))"

definition assemble ::
    "outside \<Rightarrow> assembly_env \<Rightarrow> 'x rt_ops \<Rightarrow> QueryPlan option \<Rightarrow> (str \<times> json) list option \<Rightarrow>
     ('x, ContextBundle \<times> (str \<times> json) list) M" where
  "assemble O' env ops p0 recorded =
     (\<lambda>x. case assemble_body O' env ops p0 recorded (x, empty_acc) of (r, (x', a)) \<Rightarrow> (r, x'))"

section \<open>The deterministic report\<close>

record candidate =
  cand_text :: str
  cand_label :: str
  cand_rule :: str
  cand_evidence :: "str list"

definition snippet_matches :: "str \<Rightarrow> Evidence list \<Rightarrow> str list" where
  "snippet_matches trm es = map ev_id (filter (\<lambda>e. contains trm (dumps True (snippet e))) es)"

definition log_terms :: "(str \<times> str) list" where
  "log_terms =
     [(u ''pool'', ([36830, 25509, 27744, 32791, 23613, 21487, 33021, 23548, 33268, 35831, 27714, 31561,
      24453, 65307, 26680, 23545, 27963, 36291, 36830, 25509, 12289, 27744, 19978,
      38480, 21644, 31561, 24453, 26102, 38388, 12290])),
      (u ''timed out'', ([19978, 28216, 20381, 36182, 24310, 36831, 21487, 33021, 36229, 36807, 36229, 26102,
      38408, 20540, 65307, 26680, 23545, 20381, 36182, 32791, 26102, 19982, 38408,
      20540, 21464, 26356, 12290])),
      (u ''invalid'', ([37197, 32622, 20540, 21487, 33021, 19981, 21512, 27861, 65307, 23545, 29031, 36816,
      34892, 26102, 37197, 32622, 19982, 21457, 24067, 25552, 20132, 12290])),
      (u ''after release'', ([21457, 24067, 19982, 24322, 24120, 26102, 38388, 30456, 20851, 65307, 38656, 35201,
      23545, 29031, 21464, 26356, 21644, 23454, 20363, 25351, 26631, 39564, 35777,
      22240, 26524, 12290]))]"

text \<open>A candidate is proposed only when some evidence matches.\<close>

definition propose :: "str \<Rightarrow> str \<Rightarrow> str list \<Rightarrow> candidate list" where
  "propose txt rule ms = (if ms = [] then []
     else [\<lparr>cand_text = txt, cand_label = ([26377, 24453, 39564, 35777]), cand_rule = rule, cand_evidence = ms\<rparr>])"

definition candidates :: "ContextBundle \<Rightarrow> candidate list" where
  "candidates b =
     (let logs = from_source Logs (evidence b); cluster = from_source Cluster (evidence b) in
      concat (map (\<lambda>(trm, txt). propose txt
        ([26085, 24535, 30452, 25509, 35266, 27979, 25903, 25345, 20505, 36873, 65307, 26102,
      38388, 30456, 20851, 19981, 35777, 26126, 22240, 26524, 12290]) (snippet_matches trm logs)) log_terms)
      @ propose ([35266, 27979, 21040] @ u '' OOMKilled '' @ [36864, 20986, 65307, 20869, 23384,
      20026, 20309, 36229, 38480, 20173, 38656, 24037, 20316, 38598, 12289, 38480,
      21046, 20540, 21450, 35831, 27714, 20998, 24067, 39564, 35777, 12290])
          ([36864, 20986, 21407, 22240, 26159, 35266, 27979, 20107, 23454, 65292, 24212, 29992,
      23618, 21407, 22240, 20173, 26159, 24453, 39564, 35777, 35299, 37322, 12290]) (snippet_matches (u ''OOMKilled'') cluster)
      @ propose ([35266, 27979, 21040, 25506, 38024, 22833, 36133, 20107, 20214, 65307, 23545, 29031,
      23545, 24212, 21457, 24067, 30340, 25506, 38024, 36335, 24452, 19982, 24212,
      29992, 21551, 21160, 29366, 24577, 12290])
          ([38598, 32676, 20107, 20214, 25903, 25345, 25506, 38024, 22833, 36133, 65292, 23578,
      19981, 33021, 21333, 29420, 30830, 23450, 24212, 29992, 25925, 38556, 26681,
      22240, 12290]) (snippet_matches (u ''Unhealthy'') cluster))"

definition candidate_json :: "candidate \<Rightarrow> json" where
  "candidate_json c = JObj [(u ''text'', JStr (cand_text c)), (u ''label'', JStr (cand_label c)),
     (u ''rule'', JStr (cand_rule c)), (u ''evidence'', strs (cand_evidence c))]"

definition answer :: "outside \<Rightarrow> ContextBundle \<Rightarrow> str res" where
  "answer O' b =
     (if truthy (retrieval b)
      then rbind (jget_def (retrieval b) (u ''total_in_query'') (JInt 0)) (\<lambda>total.
           rbind (jget_def (retrieval b) (u ''matched'') (JInt 0)) (\<lambda>hits.
           Inr (([26816, 32034, 33539, 22260, 20869, 20849] @ u '' '') @ py_str O' total @ (u '' '' @ [26465, 26085, 24535, 65292, 21305, 37197] @ u '' '') @ py_str O' hits
             @ (u '' '' @ [26465, 65307, 20197, 19979, 23637, 31034] @ u '' '') @ dec (int (length (from_source Logs (evidence b))))
             @ (u '' '' @ [26465, 21487, 36861, 28335, 35777, 25454, 12290]))))
      else Inr ([20197, 19979, 20026, 26816, 32034, 21040, 30340, 35777, 25454, 65307, 20505, 36873,
      21407, 22240, 38656, 35201, 36827, 19968, 27493, 39564, 35777, 12290]))"

definition report :: "outside \<Rightarrow> (QueryPlan \<Rightarrow> str \<times> str) \<Rightarrow> ContextBundle \<Rightarrow> json res" where
  "report O' iso_of b =
     (case map_of (scope b) (u ''service'') of
        None \<Rightarrow> Inl (KeyError (u ''service''))
      | Some svc \<Rightarrow> rbind (answer O' b) (\<lambda>ans. Inr (JObj
     [(u ''impact'', JStr svc), (u ''retrieval'', retrieval b), (u ''answer'', JStr ans),
      (u ''facts'', JList (map fact_json (facts b))),
      (u ''candidates'', JList (map candidate_json (candidates b))),
      (u ''conflicts'', JList (map conflict_json (conflicts b))),
      (u ''missing'', strs (missing b)),
      (u ''next_steps'', strs [([26680, 23545, 23454, 38469, 37096, 32626, 29256, 26412, 19982, 26085, 24535, 26102,
      38388, 31383, 21475, 12290]),
         ([26816, 26597, 36830, 25509, 27744, 21644, 20381, 36182, 24310, 36831, 25351, 26631,
      65292, 34917, 40784, 32570, 22833, 26469, 28304, 21518, 30830, 35748, 21407,
      22240, 12290])]),
      (u ''evidence'', JList (map evidence_json (evidence b))),
      (u ''freshness'', JList (map freshness_json (fresh b))),
      (u ''context'', bundle_json iso_of b),
      (u ''confidence_rule'', JStr ([20107, 23454, 26377, 30452, 25509, 26469, 28304, 65307, 20505, 36873, 26377, 24453,
      39564, 35777, 65307, 26080, 26085, 24535, 26102, 19981, 25512, 26029, 26681,
      22240, 12290])),
      (u ''historical_memory'', memories b),
      (u ''mode'', JStr (u ''deterministic-baseline''))])))"

section \<open>Plan validation\<close>

lemma validate_step_ok:
  "validate_step s = Inr () \<longleftrightarrow>
     (\<exists>rels. path s = u ''Service'' # rels \<and> walk Service rels = Inr (step_object s))
     \<and> step_object s = expected (step_source s)"
  by (auto simp: validate_step_def rbind_eq_Inr split: list.splits if_splits)

definition in_window :: "QueryPlan \<Rightarrow> RunContext \<Rightarrow> bool" where
  "in_window p r \<longleftrightarrow> dt_less (plan_start p) (start r) = Inr False
     \<and> dt_less (end_time r) (plan_end p) = Inr False \<and> dt_less (plan_end p) (plan_start p) = Inr False"

lemma out_of_scope_False:
  "out_of_scope p r = Inr False \<longleftrightarrow> plan_service p = service r \<and> in_window p r"
  by (auto simp: out_of_scope_def in_window_def rbind_eq_Inr)

lemma validate_plan_Inr:
  "validate_plan p r = Inr q \<longleftrightarrow>
     q = p \<and> plan_service p = service r \<and> in_window p r
     \<and> int (length (plan_steps p)) \<le> steps (budget r)
     \<and> (\<forall>s \<in> set (plan_steps p). validate_step s = Inr ())"
proof -
  have "validate_plan p r = Inr q \<longleftrightarrow> q = p \<and> out_of_scope p r = Inr False
     \<and> int (length (plan_steps p)) \<le> steps (budget r) \<and> (\<exists>ys. rmap validate_step (plan_steps p) = Inr ys)"
    by (cases "out_of_scope p r"; cases "rmap validate_step (plan_steps p)")
      (simp_all add: validate_plan_def not_less eq_commute[of p] conj_commute)
  then show ?thesis by (simp add: out_of_scope_False rmap_unit conj_assoc)
qed

lemma default_plan_steps: "s \<in> set (plan_steps (default_plan ob r)) \<Longrightarrow> validate_step s = Inr ()"
  by (auto simp: default_plan_def validate_step_ok split: if_splits)

section \<open>The assembly keeps its evidence grounded\<close>

definition ev_ok :: "outside \<Rightarrow> RunContext \<Rightarrow> Evidence \<Rightarrow> bool" where
  "ev_ok O' r e \<longleftrightarrow> ev_team e = team r \<and> available e
     \<and> (\<exists>content bytes. check_scope (ev_source e) (service r) content = Inr ()
          \<and> encode (dumps_sorted False content) = Inr bytes \<and> sha256 e = sha256_hex O' bytes
          \<and> (snippet e = content \<or> snippet e = JStr (take 12000 (dumps_sorted False content))))
     \<and> ev_id e = source_name (ev_source e) @ u '':'' @ source_record e @ u '':'' @ take 12 (sha256 e)"

definition grounded :: "str set \<Rightarrow> str list \<Rightarrow> bool" where
  "grounded ids es \<longleftrightarrow> es \<noteq> [] \<and> set es \<subseteq> ids"

lemma grounded_mono: "grounded ids es \<Longrightarrow> ids \<subseteq> ids' \<Longrightarrow> grounded ids' es"
  by (auto simp: grounded_def)

definition acc_ok :: "outside \<Rightarrow> RunContext \<Rightarrow> acc \<Rightarrow> bool" where
  "acc_ok O' r a \<longleftrightarrow> (\<forall>e \<in> set (a_evidence a). ev_ok O' r e)
     \<and> (\<forall>f \<in> set (a_facts a). grounded (ev_id ` set (a_evidence a)) (fact_evidence f))"

lemma acc_ok_empty: "acc_ok O' r empty_acc"
  by (simp add: acc_ok_def empty_acc_def)

definition on_acc :: "(acc \<Rightarrow> bool) \<Rightarrow> 'x \<times> acc \<Rightarrow> bool" where
  "on_acc P s = P (snd s)"

lemma leads_inner: "(\<And>a. J a \<Longrightarrow> I a) \<Longrightarrow> leads (on_acc J) (on_acc I) (inner m)"
  by (auto simp: leads_def on_acc_def inner_def split: prod.splits)

lemma leads_upd: "(\<And>a. J a \<Longrightarrow> I (f a)) \<Longrightarrow> leads (on_acc J) (on_acc I) (upd f)"
  by (auto simp: leads_def on_acc_def upd_def monad_defs)

lemma leads_upd_sq:
  "(\<And>a. J a \<Longrightarrow> J' (f a)) \<Longrightarrow> leads (on_acc J') I k \<Longrightarrow> leads (on_acc J) I (sq (upd f) k)"
  unfolding upd_def by (rule leads_modify_sq) (auto simp: on_acc_def)

lemmas acc_rules = leads_rules leads_inner leads_upd

lemma acc_ok_other:
  "a_evidence a' = a_evidence a \<Longrightarrow> a_facts a' = a_facts a \<Longrightarrow> acc_ok O' r a' = acc_ok O' r a"
  by (simp add: acc_ok_def)

lemma make_evidence_ok:
  assumes "make_evidence r st out row content eid (sha256_hex O' bytes) raw' = Inr ev"
    and "jget row (u ''id'') = Inr rid" and "check_scope (step_source st) (service r) content = Inr ()"
    and "encode (dumps_sorted False content) = Inr bytes"
    and "eid = source_name (step_source st) @ u '':'' @ py_str O' rid @ u '':'' @ take 12 (sha256_hex O' bytes)"
    and "raw' = (if length (dumps_sorted False content) > 12000
       then take 12000 (dumps_sorted False content) else dumps_sorted False content)"
  shows "ev_ok O' r ev" "ev_id ev = eid" "ev_source ev = step_source st"
  using assms by (auto simp: make_evidence_def rbind_eq_Inr ev_ok_def elim!: as_str.elims)

lemma leads_add_version:
  "leads (on_acc (acc_ok O' r)) (on_acc (acc_ok O' r)) (add_version st content)"
  unfolding add_version_def
  by (intro acc_rules) (auto simp: acc_ok_def)

lemma leads_missing:
  "leads (on_acc (acc_ok O' r)) (on_acc (acc_ok O' r)) (add_missing t)"
  unfolding add_missing_def by (intro acc_rules) (auto simp: acc_ok_def)

lemma leads_row_body:
  "leads (on_acc (acc_ok O' (op_run ops))) (on_acc (acc_ok O' (op_run ops))) (row_body O' ops st out row)"
proof -
  let ?I = "acc_ok O' (op_run ops)"
  have tail: "leads (on_acc ?I) (on_acc ?I)
      (sq (upd (\<lambda>a. a\<lparr>a_evidence := a_evidence a @ [ev]\<rparr>))
         (bnd (lift d) (\<lambda>txt.
          sq (upd (\<lambda>a. a\<lparr>a_facts := a_facts a @ [F txt]\<rparr>)) (add_version st content))))"
    if ev: "ev_ok O' (op_run ops) ev" and F: "\<And>txt. fact_evidence (F txt) = [ev_id ev]"
    for ev F content and d :: "str res"
  proof (rule leads_upd_sq[where J' = "\<lambda>a. ?I a \<and> ev_id ev \<in> ev_id ` set (a_evidence a)"])
    show "?I a \<Longrightarrow> ?I (a\<lparr>a_evidence := a_evidence a @ [ev]\<rparr>) \<and>
      ev_id ev \<in> ev_id ` set (a_evidence (a\<lparr>a_evidence := a_evidence a @ [ev]\<rparr>))" for a
      using ev by (auto simp: acc_ok_def intro: grounded_mono)
    show "leads (on_acc (\<lambda>a. ?I a \<and> ev_id ev \<in> ev_id ` set (a_evidence a))) (on_acc ?I)
       (bnd (lift d) (\<lambda>txt. sq (upd (\<lambda>a. a\<lparr>a_facts := a_facts a @ [F txt]\<rparr>)) (add_version st content)))"
      by (intro leads_lift_bnd leads_upd_sq[OF _ leads_add_version])
        (auto simp: on_acc_def acc_ok_def F grounded_def)
  qed
  show ?thesis
    unfolding row_body_def Let_def
    by (intro leads_lift_bnd leads_lift_sq leads_sq leads_when leads_missing tail)
      (auto dest: make_evidence_ok)
qed

lemma leads_fetch:
  "leads (on_acc (acc_ok O' r)) (on_acc (acc_ok O' r)) (fetch ops recorded st)"
  unfolding fetch_def
  by (auto split: option.splits intro!: acc_rules simp: acc_ok_def)

lemma leads_take_rows:
  "leads (on_acc (acc_ok O' (op_run ops))) (on_acc (acc_ok O' (op_run ops))) (take_rows O' ops st out rs)"
  unfolding take_rows_def
  by (intro leads_bnd leads_sq leads_row_body leads_missing leads_pure leads_when leads_fold)

lemma leads_step_ok:
  "leads (on_acc (acc_ok O' (op_run ops))) (on_acc (acc_ok O' (op_run ops))) (step_ok O' ops recorded st)"
  unfolding step_ok_def after_fetch_def Let_def
  by (intro leads_bnd leads_sq leads_fetch leads_take_rows leads_missing leads_inner leads_upd leads_pure
      leads_when leads_if leads_fold) (auto simp: acc_ok_def)

lemma leads_do_step:
  "leads (on_acc (acc_ok O' (op_run ops))) (on_acc (acc_ok O' (op_run ops))) (do_step O' ops recorded st)"
  unfolding do_step_def step_error_def
  by (intro leads_sq leads_catch leads_if leads_pure leads_inner leads_missing leads_step_ok)

definition related_ok :: "str set \<Rightarrow> related \<Rightarrow> bool" where
  "related_ok ids rel \<longleftrightarrow> (\<forall>f \<in> set (rel_facts rel). grounded ids (fact_evidence f))
     \<and> (\<forall>c \<in> set (rel_conflicts rel). set (conflict_evidence c) \<subseteq> ids)"

lemma matched_subset:
  assumes "matched release commits = Inr ms" shows "set ms \<subseteq> set commits"
proof -
  obtain ps where ps: "ms = map fst (filter snd ps)" "map fst ps = commits"
    using assms by (auto simp: matched_def rbind_eq_Inr dest!: rmap_fst)
  then show ?thesis by force
qed

lemma relate_release_ok:
  assumes "relate_release svc commits release rel = Inr rel'" and "related_ok ids rel"
    and rel: "ev_id release \<in> ids" and com: "ev_id ` set commits \<subseteq> ids"
  shows "related_ok ids rel'"
proof -
  obtain ms where ms: "matched release commits = Inr ms"
    using assms(1) by (cases "matched release commits") (auto simp: relate_release_def Let_def)
  then have sub: "ev_id ` set ms \<subseteq> ids" using matched_subset com by blast
  show ?thesis
  proof (cases ms)
    case Nil
    then have "rel_facts rel' = rel_facts rel"
      "set (rel_conflicts rel') \<subseteq> insert \<lparr>conflict_text = lost_commit,
         conflict_evidence = ev_id release # map ev_id commits\<rparr> (set (rel_conflicts rel))"
      using assms(1) ms by (auto simp: relate_release_def Let_def split: if_splits)
    then show ?thesis using assms(2) rel com by (force simp: related_ok_def)
  next
    case (Cons commit rest)
    then obtain f where "rel_facts rel' = rel_facts rel @ [f]" "rel_conflicts rel' = rel_conflicts rel"
      "fact_evidence f = [ev_id release, ev_id commit]"
      using assms(1) ms by (auto simp: relate_release_def Let_def rbind_eq_Inr)
    then show ?thesis using assms(2) rel sub Cons by (auto simp: related_ok_def grounded_def)
  qed
qed

lemma relate_cluster_ok:
  assumes "relate_cluster releases observation = Inr fs" and f: "f \<in> set fs"
    and "ev_id observation \<in> ids" and "ev_id ` set releases \<subseteq> ids"
  shows "grounded ids (fact_evidence f)"
proof -
  obtain ps F where fs: "fs = map F (filter snd ps)" "map fst ps = releases"
      "\<And>e b. fact_evidence (F (e, b)) = [ev_id observation, ev_id e]"
    using assms(1) by (auto simp: relate_cluster_def rbind_eq_Inr dest!: rmap_fst)
  then obtain e b where "(e, b) \<in> set ps" "f = F (e, b)" using f by auto
  moreover from this have "e \<in> set releases" using fs(2) by force
  ultimately show ?thesis using assms(3,4) fs(3) by (auto simp: grounded_def)
qed

lemma version_conflict_ok:
  assumes "c \<in> set (version_conflict a)"
  shows "set (conflict_evidence c) \<subseteq> ev_id ` set (a_evidence a)"
  using assms by (auto simp: version_conflict_def split: if_splits)

lemma relate_ok:
  assumes "relate r a = Inr rel" and "acc_ok O' r a"
  shows "related_ok (ev_id ` set (a_evidence a)) rel"
proof -
  let ?ids = "ev_id ` set (a_evidence a)"
  let ?rel0 = "\<lparr>rel_objects = [ServiceObj (service r) (team r)], rel_facts = a_facts a,
                  rel_conflicts = version_conflict a\<rparr>"
  let ?releases = "from_source Deployments (a_evidence a)"
  let ?commits = "from_source Git (a_evidence a)"
  have sub: "ev_id ` set (from_source src (a_evidence a)) \<subseteq> ?ids" for src
    by (auto simp: from_source_def)
  obtain rel1 fss where fold: "rfold (relate_release (service r) ?commits) ?releases ?rel0 = Inr rel1"
    and map: "rmap (relate_cluster ?releases) (from_source Cluster (a_evidence a)) = Inr fss"
    and rel: "rel = rel1\<lparr>rel_facts := rel_facts rel1 @ concat fss\<rparr>"
    using assms(1) by (auto simp: relate_def Let_def rbind_eq_Inr)
  have ok1: "related_ok ?ids rel1"
  proof (rule rfold_inv[OF fold])
    show "related_ok ?ids ?rel0"
      using assms(2) by (auto simp: related_ok_def acc_ok_def dest: version_conflict_ok)
  next
    fix e b b'
    assume "e \<in> set ?releases" "related_ok ?ids b" "relate_release (service r) ?commits e b = Inr b'"
    moreover from this(1) have "ev_id e \<in> ?ids" by (auto simp: from_source_def)
    ultimately show "related_ok ?ids b'" by - (rule relate_release_ok[OF _ _ _ sub])
  qed
  have "grounded ?ids (fact_evidence f)" if "fs \<in> set fss" "f \<in> set fs" for fs f
  proof -
    obtain ob where "ob \<in> set (from_source Cluster (a_evidence a))" "relate_cluster ?releases ob = Inr fs"
      using rmap_mem[OF map] \<open>fs \<in> set fss\<close> by blast
    moreover from this(1) have "ev_id ob \<in> ?ids" by (auto simp: from_source_def)
    ultimately show ?thesis by - (rule relate_cluster_ok[OF _ \<open>f \<in> set fs\<close> _ sub])
  qed
  with ok1 rel show ?thesis by (auto simp: related_ok_def)
qed

lemma leads_steps:
  "leads (on_acc (acc_ok O' (op_run ops))) (on_acc (acc_ok O' (op_run ops)))
     (fold_M (\<lambda>st _. do_step O' ops recorded st) sts ())"
  by (intro leads_fold leads_do_step)

text \<open>What a successful assembly went through.\<close>

lemma assemble_Inr:
  assumes "assemble O' env ops p0 recorded x = (Inr (b, recs), y)"
  obtains p x1 x2 a rel mem where
    "validate_plan (case p0 of Some p \<Rightarrow> p | None \<Rightarrow> default_plan (observe_namespace env) (op_run ops))
       (op_run ops) = Inr p"
    "fold_M (\<lambda>st _. do_step O' ops recorded st) (plan_steps p) () (x1, empty_acc) = (Inr (), (x2, a))"
    "relate (op_run ops) a = Inr rel" "is_dict (a_retrieval a)"
    "b = make_bundle (op_run ops) p a rel\<lparr>memories := mem\<rparr>" "recs = a_records a"
    "\<exists>bytes. encode (model_json O' (bundle_json (plan_times env) (make_bundle (op_run ops) p a rel))) = Inr bytes
       \<and> int (length bytes) \<le> output_bytes (budget (op_run ops))"
    "\<exists>d. op_hook ops (u ''plan_validated'') d x = (Inr (), x1)"
    "recorded \<noteq> None \<longrightarrow> (\<exists>d. op_hook ops (u ''context_assembled'') d x2 = (Inr (), y))"
proof -
  obtain a' where run: "assemble_body O' env ops p0 recorded (x, empty_acc) = (Inr (b, recs), (y, a'))"
    using assms by (auto simp: assemble_def split: prod.splits)
  have inner: "inner m (x, a) = (Inr v, t) \<longleftrightarrow> (\<exists>x'. m x = (Inr v, x') \<and> t = (x', a))"
    for m :: "('a, 'c) M" and x a v t by (auto simp: inner_def split: prod.splits)
  show ?thesis
    using run unfolding assemble_body_def Let_def
    by (auto simp: bnd_Inr sq_Inr inner split: if_splits
        intro!: that simp: not_less)
qed

lemma assemble_acc_ok:
  assumes "fold_M (\<lambda>st _. do_step O' ops recorded st) sts () (x1, empty_acc) = (Inr (), (x2, a))"
  shows "acc_ok O' (op_run ops) a"
  using leads_steps[of O' ops recorded sts] assms acc_ok_empty[of O' "op_run ops"]
  unfolding leads_def on_acc_def by (metis snd_conv)

lemma assemble_related_ok:
  assumes "assemble O' env ops p0 recorded x = (Inr (b, recs), y)"
  shows "(\<forall>f \<in> set (facts b). grounded (ev_id ` set (evidence b)) (fact_evidence f))
    \<and> (\<forall>c \<in> set (conflicts b). set (conflict_evidence c) \<subseteq> ev_id ` set (evidence b))"
  using assms
proof (rule assemble_Inr)
  fix p x1 x2 a rel mem
  assume run: "fold_M (\<lambda>st _. do_step O' ops recorded st) (plan_steps p) () (x1, empty_acc) = (Inr (), (x2, a))"
    and rel: "relate (op_run ops) a = Inr rel"
    and b: "b = make_bundle (op_run ops) p a rel\<lparr>memories := mem\<rparr>"
  have "related_ok (ev_id ` set (a_evidence a)) rel" by (rule relate_ok[OF rel assemble_acc_ok[OF run]])
  then show ?thesis by (simp add: b make_bundle_def related_ok_def)
qed

section \<open>No source is dropped silently\<close>

definition reported :: "source \<Rightarrow> acc \<Rightarrow> bool" where
  "reported src a \<longleftrightarrow> (\<exists>e \<in> set (a_evidence a). ev_source e = src)
     \<or> (\<exists>t \<in> set (a_missing a). startswith t (source_name src @ u '': ''))"

definition acc_grows :: "'x \<times> acc \<Rightarrow> 'x \<times> acc \<Rightarrow> bool" where
  "acc_grows s t \<longleftrightarrow> set (a_evidence (snd s)) \<subseteq> set (a_evidence (snd t))
     \<and> set (a_missing (snd s)) \<subseteq> set (a_missing (snd t))"

interpretation ag: state_preorder acc_grows
  by unfold_locales (auto simp: acc_grows_def)

lemma grows_inner: "grows acc_grows (inner m)"
  by (auto simp: grows_def acc_grows_def inner_def split: prod.splits)

lemma grows_upd:
  "(\<And>a. set (a_evidence a) \<subseteq> set (a_evidence (f a)) \<and> set (a_missing a) \<subseteq> set (a_missing (f a)))
    \<Longrightarrow> grows acc_grows (upd f)"
  by (auto simp: grows_def acc_grows_def upd_def monad_defs)

lemma grows_add_missing: "grows acc_grows (add_missing t)"
  unfolding add_missing_def by (rule grows_upd) auto

lemma grows_add_version: "grows acc_grows (add_version st content)"
  unfolding add_version_def by (intro ag.grows_rules grows_upd) auto

lemma grows_row_body: "grows acc_grows (row_body O' ops st out row)"
  unfolding row_body_def Let_def
  by (intro ag.grows_rules grows_add_missing grows_add_version grows_upd) auto

lemma grows_fetch: "grows acc_grows (fetch ops recorded st)"
  unfolding fetch_def
  by (auto split: option.splits intro!: ag.grows_rules grows_inner grows_upd)

lemma grows_take_rows: "grows acc_grows (take_rows O' ops st out rs)"
  unfolding take_rows_def by (intro ag.grows_rules grows_add_missing grows_row_body)

lemma grows_step_ok: "grows acc_grows (step_ok O' ops recorded st)"
  unfolding step_ok_def after_fetch_def Let_def
  by (intro ag.grows_rules grows_add_missing grows_take_rows grows_fetch grows_inner grows_upd) auto

lemma grows_do_step: "grows acc_grows (do_step O' ops recorded st)"
  unfolding do_step_def step_error_def
  by (intro ag.grows_rules grows_add_missing grows_step_ok grows_inner)

lemma reported_grows: "grows acc_grows m \<Longrightarrow> reported src (snd s) \<Longrightarrow> m s = (r, t) \<Longrightarrow> reported src (snd t)"
  unfolding grows_def acc_grows_def reported_def by (metis snd_conv subsetD)

text \<open>A record that went through left its evidence behind.\<close>

lemma row_body_reports:
  assumes "row_body O' ops st out row s = (Inr (), t)"
  shows "reported (step_source st) (snd t)"
proof -
  have ev: "ev_source ev = step_source st"
    if "make_evidence r st out row content eid digest raw = Inr ev" for r content eid digest raw ev
    using that by (auto simp: make_evidence_def rbind_eq_Inr)
  show ?thesis
    using assms unfolding row_body_def Let_def
    apply (clarsimp simp: bnd_Inr sq_Inr upd_def)
    apply (erule reported_grows[OF grows_add_version, rotated])
    apply (auto simp: reported_def dest: ev)
    done
qed

lemma rows_report:
  assumes "fold_M (\<lambda>row _. row_body O' ops st out row) rows () s = (Inr (), t)" and "rows \<noteq> []"
  shows "reported (step_source st) (snd t)"
proof -
  obtain row rest where rows: "rows = row # rest" using assms(2) by (cases rows) auto
  then obtain s1 where "row_body O' ops st out row s = (Inr (), s1)"
    and rest: "fold_M (\<lambda>row _. row_body O' ops st out row) rest () s1 = (Inr (), t)"
    using assms(1) by (auto simp: bnd_Inr)
  then have "reported (step_source st) (snd s1)" by (intro row_body_reports)
  then show ?thesis
    by (rule reported_grows[OF ag.grows_fold[OF grows_row_body] _ rest])
qed

lemma add_missing_reports:
  assumes "add_missing t0 s = (Inr (), t)" and "startswith t0 (source_name src @ u '': '')"
  shows "reported src (snd t)"
  using assms by (auto simp: add_missing_def upd_def reported_def split: prod.splits)

lemma take_rows_reports:
  assumes "take_rows O' ops st out rs s = (Inr (), t)"
  shows "reported (step_source st) (snd t)"
proof -
  obtain avail s1 where w: "when_M (avail = [])
      (add_missing (source_name (step_source st) @ u '': no accessible records in scope'')) s = (Inr (), s1)"
    and f: "fold_M (\<lambda>row _. row_body O' ops st out row) avail () s1 = (Inr (), t)"
    using assms by (auto simp: take_rows_def bnd_Inr sq_Inr)
  show ?thesis
  proof (cases "avail = []")
    case True
    then show ?thesis
      using w f by (auto simp: when_M_def intro!: add_missing_reports) (simp add: startswith_def u_def)
  qed (rule rows_report[OF f])
qed

lemma inner_acc: "inner m s = (r, t) \<Longrightarrow> snd t = snd s"
  by (auto simp: inner_def split: prod.splits)

lemma step_ok_reports:
  assumes "step_ok O' ops recorded st s = (Inr (), t)"
  shows "reported (step_source st) (snd t)"
proof -
  obtain out rs s1 s2 where "take_rows O' ops st out rs s1 = (Inr (), s2)" "snd t = snd s2"
    using assms unfolding step_ok_def after_fetch_def Let_def bnd_Inr sq_Inr by (auto dest!: inner_acc)
  then show ?thesis using take_rows_reports by metis
qed

lemma do_step_reports:
  assumes "do_step O' ops recorded st s = (Inr (), t)"
  shows "reported (step_source st) (snd t)"
proof -
  have err: "reported (step_source st) (snd t)" if run: "step_error ops st e s' = (Inr (), t)" for e s'
  proof -
    obtain y s1 z where a: "add_missing (source_name (step_source st) @ u '': '' @ class_name e) s' = (Inr y, s1)"
      and b: "inner z s1 = (Inr (), t)"
      using run unfolding step_error_def sq_Inr by blast
    have "reported (step_source st) (snd s1)" using a by (intro add_missing_reports[of _ s']) auto
    then show ?thesis using inner_acc[OF b] by simp
  qed
  show ?thesis
    using assms by (auto simp: do_step_def sq_Inr catch_Inr split: if_splits intro: step_ok_reports err)
qed

lemma steps_report:
  assumes "fold_M (\<lambda>st _. do_step O' ops recorded st) sts () s = (Inr (), t)" and "st \<in> set sts"
  shows "reported (step_source st) (snd t)"
  using assms
proof (induction sts arbitrary: s)
  case (Cons st' sts)
  then obtain s1 where one: "do_step O' ops recorded st' s = (Inr (), s1)"
    and rest: "fold_M (\<lambda>st _. do_step O' ops recorded st) sts () s1 = (Inr (), t)"
    by (auto simp: bnd_Inr)
  show ?case
  proof (cases "st \<in> set sts")
    case False
    then have "reported (step_source st) (snd s1)" using Cons.prems do_step_reports[OF one] by auto
    then show ?thesis by (rule reported_grows[OF ag.grows_fold[OF grows_do_step] _ rest])
  qed (rule Cons.IH[OF rest])
qed simp

section \<open>The assembly moves the runtime along its preorder\<close>

sublocale runtime \<subseteq> both: state_preorder "\<lambda>s t. R (fst s) (fst t)"
  by unfold_locales (auto intro: R_refl R_trans)

context runtime
begin

lemma inner_moves: "grows R m \<Longrightarrow> grows (\<lambda>s t. R (fst s) (fst t)) (inner m)"
  by (auto simp: grows_def inner_def split: prod.splits) (metis snd_conv)

lemma upd_moves: "grows (\<lambda>s t. R (fst s) (fst t)) (upd f)"
  by (auto simp: grows_def upd_def monad_defs R_refl)

lemma more_pages_moves: "grows R (more_pages ops st n pages out)"
  by (induction n arbitrary: pages out) (auto intro!: grows_rules query_grows)

lemma fetch_moves: "grows (\<lambda>s t. R (fst s) (fst t)) (fetch ops recorded st)"
  unfolding fetch_def
  by (auto split: option.splits intro!: both.grows_rules inner_moves upd_moves more_pages_moves
      query_grows authorize_grows)

lemma take_rows_moves: "grows (\<lambda>s t. R (fst s) (fst t)) (take_rows O' ops st out rs)"
  unfolding take_rows_def row_body_def add_version_def add_missing_def Let_def
  by (intro both.grows_rules upd_moves)

lemma do_step_moves: "grows (\<lambda>s t. R (fst s) (fst t)) (do_step O' ops recorded st)"
  unfolding do_step_def step_error_def step_ok_def after_fetch_def add_missing_def Let_def
  by (intro both.grows_rules inner_moves upd_moves fetch_moves take_rows_moves
      hook_grows elapsed_grows)

lemma assemble_body_moves:
  "grows (\<lambda>s t. R (fst s) (fst t)) (assemble_body O' env ops p0 recorded)"
  unfolding assemble_body_def Let_def
  by (intro both.grows_rules inner_moves do_step_moves hook_grows authorize_grows)

lemma assemble_moves: "grows R (assemble O' env ops p0 recorded)"
  using assemble_body_moves[of O' env p0 recorded]
  by (auto simp: grows_def assemble_def split: prod.splits) (metis fst_conv snd_conv)

end

section \<open>A sample run\<close>

definition sample_outside :: outside where
  "sample_outside = \<lparr>clock = (\<lambda>_. 0), api = (\<lambda>_. Ok (JObj [])), source_api = (\<lambda>_. Status 503),
     deployment_table = (\<lambda>_. Inr []), utc_now = (\<lambda>_. u ''2025-01-01T00:00:00+00:00''),
     http_get = (\<lambda>_. Status 503), elapsed_ms = (\<lambda>_. JInt 1), db_ping = (\<lambda>_. True),
     pg_timestamp = (\<lambda>_. Inr 0), isoformat = (\<lambda>_. u ''2025''), collate = (\<lambda>t. t),
     sha256_hex = (\<lambda>_. u ''0123456789abcdef''), py_repr = (\<lambda>_. []), model_json = dumps False\<rparr>"

definition sample_time :: datetime where
  "sample_time = \<lparr>wall = 0, tz = Some (Fixed 0), utcoffset = 0\<rparr>"

definition sample_run :: RunContext where
  "sample_run = \<lparr>protocol_version = 1, run_id = u ''r1'', subject = u ''alice'', team = u ''core'',
     service = u ''svc-17'', symptom = u ''slow'', start = sample_time, end_time = sample_time,
     source_version = 1, generation = 1, attempt = 1, owner = u ''w1'', lease_seconds = 30,
     query = default_LogQuery,
     budget = \<lparr>steps = 8, seconds = 60, output_bytes = 65536, model_calls = 0, tokens = 1000\<rparr>\<rparr>"

definition sample_plan :: QueryPlan where
  "sample_plan = \<lparr>plan_service = u ''svc-17'', plan_start = sample_time, plan_end = sample_time,
     plan_steps = [\<lparr>step_source = Runbook, step_object = RunbookT,
       path = [u ''Service'', u ''runbook''], limit = 50\<rparr>]\<rparr>"

definition sample_record :: json where
  "sample_record = JObj [(u ''records'', JList [JObj [(u ''id'', JStr (u ''b1'')),
     (u ''content'', JObj [(u ''markdown'', JStr (u ''restart''))]), (u ''locator'', JStr (u ''x'')),
     (u ''event_time'', JStr (u ''t'')), (u ''version'', JStr (u ''1''))]]),
     (u ''observed_at'', JStr (u ''t'')), (u ''watermark'', JInt 1)]"

definition sample_env :: assembly_env where
  "sample_env = \<lparr>observe_namespace = False, plan_times = (\<lambda>_. (u ''t'', u ''t''))\<rparr>"

definition sample_ops :: "wstate rt_ops" where
  "sample_ops = live_ops sample_outside \<lparr>rt_run = sample_run, started = 0\<rparr>"

definition sample_state :: wstate where
  "sample_state = \<lparr>calls = 0, trace = [], circuits = (\<lambda>_. new_circuit)\<rparr>"

definition sample_assembly :: "(ContextBundle \<times> (str \<times> json) list) res \<times> wstate" where
  "sample_assembly = assemble sample_outside sample_env sample_ops (Some sample_plan)
     (Some [(u ''runbook'', sample_record)]) sample_state"

lemma sample_evidence:
  "(case fst sample_assembly of Inr (b, recs) \<Rightarrow> map ev_id (evidence b) | Inl _ \<Rightarrow> [])
    = [u ''runbook:b1:0123456789ab'']"
  by code_simp

lemma sample_assembled:
  obtains b recs y where "assemble sample_outside sample_env sample_ops (Some sample_plan)
      (Some [(u ''runbook'', sample_record)]) sample_state = (Inr (b, recs), y)"
    "map ev_id (evidence b) = [u ''runbook:b1:0123456789ab'']"
proof (cases "fst sample_assembly")
  case (Inr p)
  then obtain b recs where "fst sample_assembly = Inr (b, recs)" by (cases p) auto
  moreover from this have "map ev_id (evidence b) = [u ''runbook:b1:0123456789ab'']"
    using sample_evidence by simp
  ultimately show ?thesis using that by (metis sample_assembly_def prod.collapse)
qed (use sample_evidence in simp)

lemma propose_mem: "c \<in> set (propose txt rule ms) \<Longrightarrow> cand_evidence c = ms \<and> ms \<noteq> []"
  by (auto simp: propose_def split: if_splits)

lemma snippet_matches_mem:
  "i \<in> set (snippet_matches t es) \<Longrightarrow> \<exists>e \<in> set es. ev_id e = i \<and> contains t (dumps True (snippet e))"
  by (auto simp: snippet_matches_def)

lemma log_terms_fst:
  "fst ` set log_terms = {u ''pool'', u ''timed out'', u ''invalid'', u ''after release''}"
  by (simp add: log_terms_def)

lemma proposals_cases:
  assumes "c \<in> set (concat (map (\<lambda>(trm, txt). propose txt R (f trm)) L) @ propose A B m1 @ propose C D m2)"
  shows "cand_evidence c \<noteq> [] \<and>
    ((\<exists>trm \<in> fst ` set L. cand_evidence c = f trm) \<or> cand_evidence c = m1 \<or> cand_evidence c = m2)"
  using assms by (auto simp: image_iff dest!: propose_mem) force+

lemma candidates_from:
  assumes "c \<in> set (candidates b)"
  shows "cand_evidence c \<noteq> [] \<and>
    ((\<exists>trm \<in> fst ` set log_terms. cand_evidence c = snippet_matches trm (from_source Logs (evidence b)))
     \<or> cand_evidence c = snippet_matches (u ''OOMKilled'') (from_source Cluster (evidence b))
     \<or> cand_evidence c = snippet_matches (u ''Unhealthy'') (from_source Cluster (evidence b)))"
  by (rule proposals_cases, rule assms[unfolded candidates_def Let_def])

section \<open>Properties\<close>

text \<open>
  C2: Every fact of an assembled bundle cites at least one evidence record, and only records that
  are in the bundle; a conflict cites only records of the bundle.
\<close>

theorem assemble_grounded:
  assumes "assemble O' env ops p0 recorded x = (Inr (b, recs), y)"
  shows "(\<forall>f \<in> set (facts b). fact_evidence f \<noteq> [] \<and> set (fact_evidence f) \<subseteq> ev_id ` set (evidence b))
    \<and> (\<forall>c \<in> set (conflicts b). set (conflict_evidence c) \<subseteq> ev_id ` set (evidence b))"
  using assemble_related_ok[OF assms] by (simp add: grounded_def)

theorem assemble_grounded_witness:
  "\<exists>b recs y. assemble sample_outside sample_env sample_ops (Some sample_plan)
      (Some [(u ''runbook'', sample_record)]) sample_state = (Inr (b, recs), y)
    \<and> map ev_id (evidence b) = [u ''runbook:b1:0123456789ab'']
    \<and> (\<forall>f \<in> set (facts b). set (fact_evidence f) = {u ''runbook:b1:0123456789ab''})"
proof (rule sample_assembled)
  fix b recs y
  assume run: "assemble sample_outside sample_env sample_ops (Some sample_plan)
      (Some [(u ''runbook'', sample_record)]) sample_state = (Inr (b, recs), y)"
    and ids: "map ev_id (evidence b) = [u ''runbook:b1:0123456789ab'']"
  have "ev_id ` set (evidence b) = {u ''runbook:b1:0123456789ab''}"
    using arg_cong[OF ids, of set] by simp
  with assemble_grounded[OF run]
  have "\<forall>f \<in> set (facts b). set (fact_evidence f) = {u ''runbook:b1:0123456789ab''}"
    by (metis set_empty subset_singletonD)
  then show ?thesis using run ids by (intro exI[of _ b] exI[of _ recs] exI[of _ y] conjI)
qed

text \<open>
  C3: Every evidence record of an assembled bundle was checked against the run: a log or a release
  belongs to the service of the run, its hash is that of the canonical text of its redacted
  content, its id is made of source, record and hash, and the bundle carries the scope of the run.
\<close>

theorem assemble_scoped:
  assumes "assemble O' env ops p0 recorded x = (Inr (b, recs), y)"
  shows "(\<forall>e \<in> set (evidence b). ev_ok O' (op_run ops) e)
    \<and> scope b = [(u ''team'', team (op_run ops)), (u ''subject'', subject (op_run ops)),
        (u ''service'', service (op_run ops))]
    \<and> validate_plan (plan b) (op_run ops) = Inr (plan b)"
  using assms
proof (rule assemble_Inr)
  fix p x1 x2 a rel mem
  assume p: "validate_plan (case p0 of Some p \<Rightarrow> p | None \<Rightarrow> default_plan (observe_namespace env) (op_run ops))
       (op_run ops) = Inr p"
    and run: "fold_M (\<lambda>st _. do_step O' ops recorded st) (plan_steps p) () (x1, empty_acc) = (Inr (), (x2, a))"
    and b: "b = make_bundle (op_run ops) p a rel\<lparr>memories := mem\<rparr>"
  have "acc_ok O' (op_run ops) a" by (rule assemble_acc_ok[OF run])
  moreover have "validate_plan p (op_run ops) = Inr p" using p by (auto simp: validate_plan_Inr)
  ultimately show ?thesis by (simp add: b make_bundle_def acc_ok_def)
qed

theorem assemble_scoped_witness:
  "\<exists>b recs y. assemble sample_outside sample_env sample_ops (Some sample_plan)
      (Some [(u ''runbook'', sample_record)]) sample_state = (Inr (b, recs), y)
    \<and> evidence b \<noteq> [] \<and> (\<forall>e \<in> set (evidence b). ev_team e = u ''core'')"
proof (rule sample_assembled)
  fix b recs y
  assume run: "assemble sample_outside sample_env sample_ops (Some sample_plan)
      (Some [(u ''runbook'', sample_record)]) sample_state = (Inr (b, recs), y)"
    and ids: "map ev_id (evidence b) = [u ''runbook:b1:0123456789ab'']"
  have "op_run sample_ops = sample_run" by (simp add: sample_ops_def live_ops_def)
  with assemble_scoped[OF run] have "\<forall>e \<in> set (evidence b). ev_team e = u ''core''"
    by (simp add: ev_ok_def sample_run_def)
  moreover have "evidence b \<noteq> []" using ids by auto
  ultimately show ?thesis using run by (intro exI[of _ b] exI[of _ recs] exI[of _ y] conjI)
qed

text \<open>
  C4: No planned source disappears silently: for every step of the plan the bundle holds evidence
  from its source or an entry of \<open>missing\<close> that names it.
\<close>

theorem assemble_complete:
  assumes "assemble O' env ops p0 recorded x = (Inr (b, recs), y)" and "st \<in> set (plan_steps (plan b))"
  shows "(\<exists>e \<in> set (evidence b). ev_source e = step_source st)
    \<or> (\<exists>t \<in> set (missing b). startswith t (source_name (step_source st) @ u '': ''))"
  using assms(1)
proof (rule assemble_Inr)
  fix p x1 x2 a rel mem
  assume run: "fold_M (\<lambda>st _. do_step O' ops recorded st) (plan_steps p) () (x1, empty_acc) = (Inr (), (x2, a))"
    and b: "b = make_bundle (op_run ops) p a rel\<lparr>memories := mem\<rparr>"
  have "st \<in> set (plan_steps p)" using assms(2) by (simp add: b make_bundle_def)
  then have "reported (step_source st) a" using steps_report[OF run] by simp
  then show ?thesis by (simp add: b make_bundle_def reported_def)
qed

theorem assemble_complete_witness:
  "\<exists>b recs y. assemble sample_outside sample_env sample_ops (Some sample_plan)
      (Some [(u ''runbook'', sample_record)]) sample_state = (Inr (b, recs), y)
    \<and> (\<forall>st \<in> set (plan_steps (plan b)). (\<exists>e \<in> set (evidence b). ev_source e = step_source st)
    \<or> (\<exists>t \<in> set (missing b). startswith t (source_name (step_source st) @ u '': '')))"
  by (rule sample_assembled) (intro exI conjI ballI, assumption, rule assemble_complete)






definition sample_bundle :: ContextBundle where
  "sample_bundle = \<lparr>scope = [], objects = [], facts = [],
     evidence = [\<lparr>ev_id = u ''logs:1:ab'', ev_source = Logs, locator = [], collected_at = [],
       event_time = [], version = [], sha256 = [], snippet = JStr (u ''pool is full''), ev_team = [],
       source_record = u ''1'', available = True\<rparr>], missing = [], conflicts = [], fresh = [],
     plan = sample_plan, token_budget = 1, memories = JList [], retrieval = JObj []\<rparr>"

lemma sample_candidate: "map cand_evidence (candidates sample_bundle) = [[u ''logs:1:ab'']]"
  by code_simp


text \<open>
  When a step of an assembly raises, a permission error, a lost scope or lease (401, 403, 409) and
  any error of a replay end the assembly with that error; any other exception becomes one entry of
  \<open>missing\<close> and the assembly goes on.
\<close>

lemma do_step_raises:
  assumes "op_hook ops (u ''tool_before'') (JObj [(u ''source'', JStr (source_name (step_source st)))]) x
      = (Inr (), x1)"
    and "step_ok O' ops recorded st (x1, a) = (Inl e, (x2, a2))"
  shows "(fatal (recorded \<noteq> None) e \<longrightarrow> do_step O' ops recorded st (x, a) = (Inl e, (x2, a2)))
    \<and> (\<not> fatal (recorded \<noteq> None) e \<longrightarrow>
        snd (snd (do_step O' ops recorded st (x, a)))
          = a2\<lparr>a_missing := a_missing a2 @ [source_name (step_source st) @ u '': '' @ class_name e]\<rparr>)"
proof -
  have "inner (op_hook ops (u ''tool_before'') (JObj [(u ''source'', JStr (source_name (step_source st)))]))
      (x, a) = (Inr (), (x1, a))" using assms(1) by (simp add: inner_def)
  then have "do_step O' ops recorded st (x, a) =
      (if fatal (recorded \<noteq> None) e then raise e else step_error ops st e) (x2, a2)"
    using assms(2) by (simp add: do_step_def sq_def bnd_def catch_def)
  then show ?thesis
    by (auto simp: raise_def step_error_def add_missing_def upd_def sq_def bnd_def modify_def inner_def
        split: prod.splits sum.splits)
qed

lemma sample_step_raises:
  "snd (snd (do_step sample_outside (sample_ops\<lparr>op_hook := \<lambda>_ _. ret ()\<rparr>) (Some [])
     (hd (plan_steps sample_plan)) (sample_state, empty_acc))) = empty_acc"
proof -
  let ?ops = "sample_ops\<lparr>op_hook := \<lambda>_ _. ret ()\<rparr>" and ?st = "hd (plan_steps sample_plan)"
  let ?e = "RuntimeError (u ''unreplayable_missing_recording:'' @ source_name (step_source ?st))"
  have h: "op_hook ?ops (u ''tool_before'') d sample_state = (Inr (), sample_state)" for d
    by (simp add: ret_def)
  have st: "step_ok sample_outside ?ops (Some []) ?st (sample_state, empty_acc)
      = (Inl ?e, (sample_state, empty_acc))"
    by (simp add: step_ok_def fetch_def monad_defs)
  have "fatal True ?e" by (simp add: fatal_def)
  with do_step_raises[OF h st] show ?thesis by simp
qed

end
