(* ===== verification/Evaluation.thy ===== *)
theory Evaluation
  imports Context
begin

text \<open>
  \<^verbatim>\<open>worker/incident_worker/evaluation.py\<close>: the offline runtime and the replay of a recorded case.
  The offline runtime is a second provider of the interface of the assembly.
\<close>

section \<open>OfflineRuntime\<close>

record offline =
  off_calls :: int
  off_events :: "json list"

definition offline_tools :: "str list" where
  "offline_tools = map u [''logs'', ''deployments'', ''git'', ''runbook'', ''cluster'', ''context'']"

text \<open>The call is counted before the budget is tested.\<close>

definition off_authorize :: "RunContext \<Rightarrow> str \<Rightarrow> (offline, json) M" where
  "off_authorize r tn =
     (if tn \<notin> set offline_tools then raise (PermissionError (u ''offline_write_denied''))
      else sq (modify (\<lambda>s. s\<lparr>off_calls := off_calls s + 1\<rparr>))
        (bnd (gets off_calls) (\<lambda>n.
         if n > steps (budget r) then raise (RuntimeError (u ''budget_exhausted''))
         else ret (JObj [(u ''team'', JStr (team r)), (u ''service'', JStr (service r))]))))"

definition off_hook :: "str \<Rightarrow> json \<Rightarrow> bool \<Rightarrow> (offline, unit) M" where
  "off_hook name data policy =
     (if \<not> policy then raise (PermissionError (u ''policy_denied''))
      else modify (\<lambda>s. s\<lparr>off_events := off_events s @
        [JObj [(u ''hook'', JStr name), (u ''data'', data), (u ''status'', JStr (u ''pass''))]]\<rparr>))"

definition off_event :: "str \<Rightarrow> json \<Rightarrow> (offline, unit) M" where
  "off_event kind payload = modify (\<lambda>s. s\<lparr>off_events := off_events s @
     [JObj [(u ''kind'', JStr kind), (u ''payload'', payload)]]\<rparr>)"

text \<open>
  A live query with this runtime fails at its first use of the HTTP headers, which an offline
  runtime does not have; a replay never makes one. The argument \<open>ms\<close> is the elapsed time.
\<close>

definition off_ops :: "json \<Rightarrow> RunContext \<Rightarrow> offline rt_ops" where
  "off_ops ms r = \<lparr>op_run = r, op_authorize = off_authorize r,
     op_hook = (\<lambda>name data. off_hook name data True),
     op_query = (\<lambda>src st cursor. sq (off_authorize r (source_name src)) (raise AttributeError)),
     op_elapsed = ret ms\<rparr>"

text \<open>The offline runtime only counts up and only appends events, one call at most past the budget.\<close>

definition off_moves :: "RunContext \<Rightarrow> offline \<Rightarrow> offline \<Rightarrow> bool" where
  "off_moves r s t \<longleftrightarrow> off_calls s \<le> off_calls t \<and> (\<exists>new. off_events t = off_events s @ new)"

interpretation om: state_preorder "off_moves r" for r
  by unfold_locales (auto simp: off_moves_def)

lemma off_moves_ops: "grows (off_moves r) (off_authorize r tn)" "grows (off_moves r) (off_hook name d p)"
  by (auto simp: grows_def off_authorize_def off_hook_def off_moves_def monad_defs)

interpretation offline: runtime "off_moves r" "off_ops ms r" for ms r
  by unfold_locales (auto simp: off_ops_def intro!: om.grows_rules off_moves_ops)

section \<open>replay\<close>

datatype variant = Current | Regressed

record case_record =
  case_id :: json
  case_split :: json
  case_run :: RunContext
  recording :: "(str \<times> json) list"
  expect_facts :: int
  expect_candidates :: int
  expect_conflicts :: int
  expect_missing :: int

record verdict =
  v_checks :: "(str \<times> bool) list"
  v_pass :: bool
  v_tool_calls :: int
  v_hooks :: "json list"

definition regressed_candidate :: candidate where
  "regressed_candidate = \<lparr>cand_text = u ''unsupported definite root cause'',
     cand_label = u ''confirmed'', cand_rule = [], cand_evidence = []\<rparr>"

definition cited :: "str list \<Rightarrow> str list \<Rightarrow> bool" where
  "cited ids es \<longleftrightarrow> es \<noteq> [] \<and> set es \<subseteq> set ids"

definition replay_checks ::
    "case_record \<Rightarrow> ContextBundle \<Rightarrow> candidate list \<Rightarrow> int \<Rightarrow> (str \<times> bool) list" where
  "replay_checks c b cands n =
     (let ids = map ev_id (evidence b) in
      [(u ''fact_count'', int (length (facts b)) = expect_facts c),
       (u ''candidate_count'', int (length cands) = expect_candidates c),
       (u ''conflicts'', int (length (conflicts b)) = expect_conflicts c),
       (u ''missing'', int (length (missing b)) = expect_missing c),
       (u ''grounding'', list_all (cited ids) (map fact_evidence (facts b) @ map cand_evidence cands)),
       (u ''no_writes'', n \<le> int (length (recording c)))])"

definition new_offline :: offline where
  "new_offline = \<lparr>off_calls = 0, off_events = []\<rparr>"

definition replay ::
    "outside \<Rightarrow> assembly_env \<Rightarrow> json \<Rightarrow> case_record \<Rightarrow> variant \<Rightarrow> verdict res" where
  "replay O' env ms c var =
     (case assemble O' env (off_ops ms (case_run c)) None (Some (recording c)) new_offline of
        (Inl e, _) \<Rightarrow> Inl e
      | (Inr (b, _), s) \<Rightarrow> rbind (report O' (plan_times env) b) (\<lambda>_.
          let cands = (if var = Regressed then [regressed_candidate] else candidates b);
              checks = replay_checks c b cands (off_calls s)
          in Inr \<lparr>v_checks = checks, v_pass = list_all snd checks, v_tool_calls = off_calls s,
                v_hooks = off_events s\<rparr>))"

section \<open>What a verdict means\<close>

lemma candidates_cited: "c \<in> set (candidates b) \<Longrightarrow> cited (map ev_id (evidence b)) (cand_evidence c)"
proof -
  assume c: "c \<in> set (candidates b)"
  have "set (snippet_matches t (from_source src (evidence b))) \<subseteq> set (map ev_id (evidence b))" for t src
    by (auto simp: snippet_matches_def from_source_def)
  with candidates_from[OF c] show ?thesis unfolding cited_def by metis
qed

lemma replay_Inr:
  assumes "replay O' env ms c var = Inr v"
  obtains b recs s where
    "assemble O' env (off_ops ms (case_run c)) None (Some (recording c)) new_offline = (Inr (b, recs), s)"
    "v_checks v = replay_checks c b
       (if var = Regressed then [regressed_candidate] else candidates b) (off_calls s)"
    "v_pass v = list_all snd (v_checks v)" "v_tool_calls v = off_calls s"
  using assms by (auto simp: replay_def Let_def rbind_eq_Inr split: prod.splits sum.splits)

text \<open>In a replay every step that succeeds was recorded and cost exactly one call.\<close>

definition same_count :: "offline \<times> acc \<Rightarrow> offline \<times> acc \<Rightarrow> bool" where
  "same_count s t \<longleftrightarrow> off_calls (fst t) = off_calls (fst s)"

interpretation cn: state_preorder same_count
  by unfold_locales (auto simp: same_count_def)

lemma same_count_parts:
  "grows same_count (inner (op_hook (off_ops ms r) name d))" "grows same_count (upd f)"
  "grows same_count (inner (op_elapsed (off_ops ms r)))"
  by (auto simp: grows_def same_count_def inner_def off_ops_def off_hook_def upd_def monad_defs)

lemma same_count_rows: "grows same_count (take_rows O' (off_ops ms r) st out rs)"
  unfolding take_rows_def row_body_def add_version_def add_missing_def Let_def
  by (intro cn.grows_rules same_count_parts)

lemma replay_fetch:
  assumes "fetch (off_ops ms r) (Some rec) st s = (Inr out, t)"
  shows "off_calls (fst t) = off_calls (fst s) + 1" "source_name (step_source st) \<in> fst ` set rec"
  using assms
  by (auto simp: fetch_def sq_Inr inner_def off_ops_def off_authorize_def sq_def bnd_def modify_def gets_def
      split: option.splits prod.splits if_splits dest: map_of_SomeD intro: rev_image_eqI)

lemma replay_step_ok:
  assumes "step_ok O' (off_ops ms r) (Some rec) st s = (Inr (), t)"
  shows "off_calls (fst t) = off_calls (fst s) + 1 \<and> source_name (step_source st) \<in> fst ` set rec"
proof -
  obtain out s1 where f: "fetch (off_ops ms r) (Some rec) st s = (Inr out, s1)"
    and k: "after_fetch O' (off_ops ms r) st (redact out) s1 = (Inr (), t)"
    using assms unfolding step_ok_def bnd_Inr by blast
  have "grows same_count (after_fetch O' (off_ops ms r) st (redact out))"
    unfolding after_fetch_def Let_def add_missing_def
    by (intro cn.grows_rules same_count_parts same_count_rows)
  with k have "off_calls (fst t) = off_calls (fst s1)"
    unfolding grows_def same_count_def by (metis snd_conv)
  with replay_fetch[OF f] show ?thesis by simp
qed

lemma catch_raise: "catch m raise = m"
  by (rule ext) (auto simp: catch_def raise_def split: prod.splits sum.splits)

lemma replay_step:
  assumes "do_step O' (off_ops ms r) (Some rec) st s = (Inr (), t)"
  shows "off_calls (fst t) = off_calls (fst s) + 1 \<and> source_name (step_source st) \<in> fst ` set rec"
proof -
  obtain z s1 where h: "inner (op_hook (off_ops ms r) (u ''tool_before'')
      (JObj [(u ''source'', JStr (source_name (step_source st)))])) s = (Inr z, s1)"
    and c: "catch (step_ok O' (off_ops ms r) (Some rec) st) (\<lambda>e. if fatal (Some rec \<noteq> None) e
       then raise e else step_error (off_ops ms r) st e) s1 = (Inr (), t)"
    using assms unfolding do_step_def sq_Inr by blast
  have "(\<lambda>e. if fatal (Some rec \<noteq> None) e then raise e else step_error (off_ops ms r) st e) = raise"
    by (simp only: fatal_def option.distinct simp_thms if_True)
  from c [unfolded this catch_raise]
  have k: "step_ok O' (off_ops ms r) (Some rec) st s1 = (Inr (), t)" .
  have "off_calls (fst s1) = off_calls (fst s)"
    using same_count_parts(1) h unfolding grows_def same_count_def by (metis snd_conv)
  with replay_step_ok[OF k] show ?thesis by simp
qed

lemma replay_steps:
  assumes "fold_M (\<lambda>st _. do_step O' (off_ops ms r) (Some rec) st) sts () s = (Inr (), t)"
  shows "off_calls (fst t) = off_calls (fst s) + int (length sts)
    \<and> source_name ` step_source ` set sts \<subseteq> fst ` set rec"
  using assms
proof (induction sts arbitrary: s)
  case (Cons st sts)
  obtain s1 where a: "do_step O' (off_ops ms r) (Some rec) st s = (Inr (), s1)"
    and b: "fold_M (\<lambda>st _. do_step O' (off_ops ms r) (Some rec) st) sts () s1 = (Inr (), t)"
    using Cons.prems by (auto simp: bnd_Inr)
  show ?case using replay_step[OF a] Cons.IH[OF b] by simp
qed simp

lemma default_plan_sources: "distinct (map (source_name \<circ> step_source) (plan_steps (default_plan ob r)))"
  by (simp add: default_plan_def)

lemma op_run_off [simp]: "op_run (off_ops ms r) = r"
  by (simp add: off_ops_def)

lemma replay_calls:
  assumes "assemble O' env (off_ops ms r) None (Some rec) x = (Inr (b, recs), y)"
  shows "off_calls y = off_calls x + int (length (plan_steps (default_plan (observe_namespace env) r)))"
    "length (plan_steps (default_plan (observe_namespace env) r)) \<le> length rec"
proof -
  have hook: "off_calls t = off_calls s" if "op_hook (off_ops ms r) name d s = (Inr (), t)" for name d s t
    using that by (auto simp: off_ops_def off_hook_def)
  obtain p x1 x2 a where p: "validate_plan (default_plan (observe_namespace env) r) r = Inr p"
    and run: "fold_M (\<lambda>st _. do_step O' (off_ops ms r) (Some rec) st) (plan_steps p) () (x1, empty_acc)
        = (Inr (), (x2, a))"
    and x1: "off_calls x1 = off_calls x" and y: "off_calls y = off_calls x2"
    using assms by (rule assemble_Inr) (auto dest!: hook)
  have pd: "p = default_plan (observe_namespace env) r" using p by (simp add: validate_plan_Inr)
  let ?sts = "plan_steps p"
  show "off_calls y = off_calls x + int (length (plan_steps (default_plan (observe_namespace env) r)))"
    using replay_steps[OF run] x1 y pd by simp
  have "length ?sts = card ((source_name \<circ> step_source) ` set ?sts)"
    using default_plan_sources[of "observe_namespace env" r] unfolding pd
    by (metis distinct_card length_map set_map)
  also have "\<dots> \<le> card (fst ` set rec)"
    using replay_steps[OF run] by (intro card_mono) (auto simp: image_comp)
  also have "\<dots> \<le> length rec" by (metis card_length length_map set_map)
  finally show "length (plan_steps (default_plan (observe_namespace env) r)) \<le> length rec" by (simp add: pd)
qed

section \<open>Properties\<close>

text \<open>
  C10: A replay of a recorded case always passes the grounding check and never makes more tool calls
  than the case has recordings; the regressed variant never passes.
\<close>

theorem replay_verdict:
  assumes "replay O' env ms c var = Inr v"
  shows "(u ''grounding'', var = Current) \<in> set (v_checks v) \<and> (u ''no_writes'', True) \<in> set (v_checks v)
    \<and> v_tool_calls v = int (length (plan_steps (default_plan (observe_namespace env) (case_run c))))
    \<and> (var = Regressed \<longrightarrow> \<not> v_pass v)"
proof -
  obtain b recs s where run: "assemble O' env (off_ops ms (case_run c)) None (Some (recording c)) new_offline
      = (Inr (b, recs), s)"
    and checks: "v_checks v = replay_checks c b
       (if var = Regressed then [regressed_candidate] else candidates b) (off_calls s)"
    and pass: "v_pass v = list_all snd (v_checks v)" and calls: "v_tool_calls v = off_calls s"
    using assms by (rule replay_Inr)
  have facts: "list_all (cited (map ev_id (evidence b))) (map fact_evidence (facts b))"
    using assemble_related_ok[OF run] by (simp add: list_all_iff grounded_def cited_def)
  have cands: "list_all (cited (map ev_id (evidence b))) (map cand_evidence (candidates b))"
    using candidates_cited by (simp add: list_all_iff)
  have bad: "\<not> cited ids (cand_evidence regressed_candidate)" for ids
    by (simp add: cited_def regressed_candidate_def)
  have n: "off_calls s = int (length (plan_steps (default_plan (observe_namespace env) (case_run c))))"
    and le: "off_calls s \<le> int (length (recording c))"
    using replay_calls[OF run] by (simp_all add: new_offline_def)
  have g: "(u ''grounding'', var = Current) \<in> set (v_checks v)"
    using facts cands bad unfolding checks replay_checks_def Let_def by (cases var) simp_all
  moreover have "(u ''no_writes'', True) \<in> set (v_checks v)"
    using le unfolding checks replay_checks_def Let_def by simp
  moreover have "\<not> v_pass v" if "var = Regressed"
    using g that unfolding pass list_all_iff by force
  ultimately show ?thesis using calls n by simp
qed

definition empty_recording :: json where
  "empty_recording = JObj [(u ''records'', JList []), (u ''observed_at'', JNull), (u ''watermark'', JInt 1)]"

definition sample_case :: case_record where
  "sample_case = \<lparr>case_id = JInt 1, case_split = JNull, case_run = sample_run,
     recording = map (\<lambda>s. (source_name s, empty_recording)) [Deployments, Logs, Git, Runbook],
     expect_facts = 0, expect_candidates = 0, expect_conflicts = 0, expect_missing = 4\<rparr>"

lemma sample_verdict:
  "(case replay (sample_outside\<lparr>model_json := \<lambda>_. []\<rparr>) sample_env (JInt 1) sample_case Current of
      Inl e \<Rightarrow> None | Inr v \<Rightarrow> Some (v_pass v, v_tool_calls v)) = Some (True, 4)"
  by code_simp

theorem replay_verdict_witness:
  "\<exists>v. replay (sample_outside\<lparr>model_json := \<lambda>_. []\<rparr>) sample_env (JInt 1) sample_case Current = Inr v
    \<and> (u ''grounding'', True) \<in> set (v_checks v) \<and> (u ''no_writes'', True) \<in> set (v_checks v)"
proof -
  obtain v where v: "replay (sample_outside\<lparr>model_json := \<lambda>_. []\<rparr>) sample_env (JInt 1) sample_case Current = Inr v"
    using sample_verdict by (auto split: sum.splits)
  with replay_verdict[OF v] show ?thesis by auto
qed

end
