(* ===== verification/Json_Parse.thy ===== *)
theory Json_Parse
  imports Json
begin

text \<open>
  \<open>json.loads\<close>: a recursive-descent reader of JSON text with Python's extensions (NaN, infinities,
  duplicate keys where the last one wins), the decoder of UTF-8 that reading from bytes uses, and
  the round trip with \<open>json.dumps\<close>. \<open>fr\<close> is \<open>repr(float(text))\<close>, the text under which a float is held.
\<close>

section \<open>Strings\<close>

definition hex_value :: "int \<Rightarrow> int option" where
  "hex_value c = (if 48 \<le> c \<and> c \<le> 57 then Some (c - 48) else if 97 \<le> c \<and> c \<le> 102 then Some (c - 87)
     else if 65 \<le> c \<and> c \<le> 70 then Some (c - 55) else None)"

definition hex4_value :: "int \<Rightarrow> int \<Rightarrow> int \<Rightarrow> int \<Rightarrow> int option" where
  "hex4_value a b c d = (case (hex_value a, hex_value b, hex_value c, hex_value d) of
     (Some w, Some x, Some y, Some z) \<Rightarrow> Some (4096 * w + 256 * x + 16 * y + z) | _ \<Rightarrow> None)"

definition escape_value :: "int \<Rightarrow> int option" where
  "escape_value c = map_of [(34, 34), (92, 92), (47, 47), (98, 8), (102, 12), (110, 10), (114, 13),
     (116, 9)] c"

definition high_surrogate :: "int \<Rightarrow> bool" where
  "high_surrogate c \<longleftrightarrow> 55296 \<le> c \<and> c \<le> 56319"

definition low_surrogate :: "int \<Rightarrow> bool" where
  "low_surrogate c \<longleftrightarrow> 56320 \<le> c \<and> c \<le> 57343"

text \<open>After a high surrogate, an escape of a low one joins it; \<open>None\<close> is an invalid second escape.\<close>

definition low_part :: "int \<Rightarrow> str \<Rightarrow> (int \<times> str) option" where
  "low_part hi s = (if \<not> high_surrogate hi then Some (hi, s) else case s of
     x # y # a # b # c # d # rest \<Rightarrow>
       if x = 92 \<and> y = 117 then
         (case hex4_value a b c d of
            None \<Rightarrow> None
          | Some lo \<Rightarrow> if low_surrogate lo
              then Some (65536 + (hi - 55296) * 1024 + (lo - 56320), rest) else Some (hi, s))
       else Some (hi, s)
   | x # y # _ \<Rightarrow> if x = 92 \<and> y = 117 then None else Some (hi, s)
   | _ \<Rightarrow> Some (hi, s))"

lemma low_part_length: "low_part hi s = Some (c, r) \<Longrightarrow> length r \<le> length s"
  by (auto simp: low_part_def split: list.splits if_splits option.splits)

text \<open>One character or escape after the opening quote.\<close>

definition read_escape :: "str \<Rightarrow> (int \<times> str) option" where
  "read_escape s = (case s of
     [] \<Rightarrow> None
   | e # r \<Rightarrow> if e = 117 then
        (case r of
           a # b # c # d # rest \<Rightarrow>
             (case hex4_value a b c d of None \<Rightarrow> None | Some v \<Rightarrow> low_part v rest)
         | _ \<Rightarrow> None)
      else (case escape_value e of None \<Rightarrow> None | Some v \<Rightarrow> Some (v, r)))"

lemma read_escape_length: "read_escape s = Some (c, r) \<Longrightarrow> length r < length s"
  by (auto simp: read_escape_def split: list.splits if_splits option.splits dest!: low_part_length)

function read_string :: "str \<Rightarrow> str \<Rightarrow> (str \<times> str) option" where
  "read_string acc [] = None"
| "read_string acc (c # s) =
     (if c = 34 then Some (rev acc, s)
      else if c = 92 then
        (case read_escape s of None \<Rightarrow> None | Some (v, r) \<Rightarrow> read_string (v # acc) r)
      else if c < 32 then None
      else read_string (c # acc) s)"
  by pat_completeness auto
termination
  by (relation "measure (length \<circ> snd)") (auto dest: read_escape_length)

section \<open>Numbers\<close>

definition exponent :: "str \<Rightarrow> str" where
  "exponent s = (case s of
     e # r \<Rightarrow> if e = 101 \<or> e = 69 then
        (let (sign, r') = (case r of c # r' \<Rightarrow> if c = 43 \<or> c = 45 then ([c], r') else ([], r) | [] \<Rightarrow> ([], []));
             ds = takeWhile is_digit r'
         in if ds = [] then [] else e # sign @ ds)
      else []
   | [] \<Rightarrow> [])"

definition fraction :: "str \<Rightarrow> str" where
  "fraction s = (case s of
     c # r \<Rightarrow> if c = 46 \<and> takeWhile is_digit r \<noteq> [] then c # takeWhile is_digit r else []
   | [] \<Rightarrow> [])"

definition integer_part :: "str \<Rightarrow> str" where
  "integer_part s = (case takeWhile is_digit s of
     [] \<Rightarrow> [] | d # ds \<Rightarrow> if d = 48 then [d] else d # ds)"

definition read_number :: "(str \<Rightarrow> str) \<Rightarrow> str \<Rightarrow> (json \<times> str) option" where
  "read_number fr s =
     (let neg = (s \<noteq> [] \<and> hd s = 45);
          s1 = (if neg then tl s else s);
          ip = integer_part s1;
          fp = fraction (drop (length ip) s1);
          ep = exponent (drop (length ip + length fp) s1);
          txt = (if neg then [45] else []) @ ip @ fp @ ep
      in if ip = [] then None
         else Some (if fp = [] \<and> ep = []
             then JInt (if neg then - int (digits_value ip) else int (digits_value ip))
             else JFloat (fr txt), drop (length txt) s))"

section \<open>Values\<close>

definition json_space :: "int \<Rightarrow> bool" where
  "json_space c \<longleftrightarrow> c \<in> {32, 9, 10, 13}"

definition skip :: "str \<Rightarrow> str" where
  "skip s = dropWhile json_space s"

definition constants :: "(str \<times> json) list" where
  "constants = [(u ''null'', JNull), (u ''true'', JBool True), (u ''false'', JBool False),
     (u ''NaN'', JFloat (u ''nan'')), (u ''Infinity'', JFloat (u ''inf'')),
     (u ''-Infinity'', JFloat (u ''-inf''))]"

definition read_constant :: "str \<Rightarrow> (json \<times> str) option" where
  "read_constant s = (case filter (\<lambda>(t, _). startswith s t) constants of
     (t, j) # _ \<Rightarrow> Some (j, drop (length t) s) | [] \<Rightarrow> None)"

text \<open>The fuel bounds nesting and length; \<open>loads_fuel\<close> below shows that the length of the text is enough.\<close>

fun read_value :: "(str \<Rightarrow> str) \<Rightarrow> nat \<Rightarrow> str \<Rightarrow> (json \<times> str) option"
  and read_items :: "(str \<Rightarrow> str) \<Rightarrow> nat \<Rightarrow> json list \<Rightarrow> str \<Rightarrow> (json \<times> str) option"
  and read_members :: "(str \<Rightarrow> str) \<Rightarrow> nat \<Rightarrow> (str \<times> json) list \<Rightarrow> str \<Rightarrow> (json \<times> str) option" where
  "read_value fr 0 s = None"
| "read_value fr (Suc n) s = (case s of
     [] \<Rightarrow> None
   | c # r \<Rightarrow>
      if c = 34 then map_option (\<lambda>(t, r'). (JStr t, r')) (read_string [] r)
      else if c = 91 then
        (case skip r of
           d # r' \<Rightarrow> if d = 93 then Some (JList [], r') else read_items fr n [] (d # r')
         | [] \<Rightarrow> None)
      else if c = 123 then
        (case skip r of
           d # r' \<Rightarrow> if d = 125 then Some (JObj [], r') else read_members fr n [] (d # r')
         | [] \<Rightarrow> None)
      else (case read_constant s of Some x \<Rightarrow> Some x | None \<Rightarrow> read_number fr s))"
| "read_items fr 0 acc s = None"
| "read_items fr (Suc n) acc s = (case read_value fr n s of
     None \<Rightarrow> None
   | Some (j, r) \<Rightarrow> (case skip r of
       d # r' \<Rightarrow> if d = 93 then Some (JList (rev (j # acc)), r')
         else if d = 44 then read_items fr n (j # acc) (skip r') else None
     | [] \<Rightarrow> None))"
| "read_members fr 0 acc s = None"
| "read_members fr (Suc n) acc s = (case s of
     q # s1 \<Rightarrow> if q \<noteq> 34 then None else (case read_string [] s1 of
       None \<Rightarrow> None
     | Some (k, r) \<Rightarrow> (case skip r of
         c # r1 \<Rightarrow> if c \<noteq> 58 then None else (case read_value fr n (skip r1) of
           None \<Rightarrow> None
         | Some (j, r2) \<Rightarrow> (case skip r2 of
             d # r' \<Rightarrow> if d = 125 then Some (JObj (dict_of (rev ((k, j) # acc))), r')
               else if d = 44 then read_members fr n ((k, j) # acc) (skip r') else None
           | [] \<Rightarrow> None))
       | [] \<Rightarrow> None))
   | [] \<Rightarrow> None)"

definition loads :: "(str \<Rightarrow> str) \<Rightarrow> str \<Rightarrow> json res" where
  "loads fr s = (case read_value fr (length s + 1) (skip s) of
     Some (j, r) \<Rightarrow> if skip r = [] then Inr j else Inl JSONDecodeError
   | None \<Rightarrow> Inl JSONDecodeError)"

section \<open>Text from bytes\<close>

definition continuation :: "int \<Rightarrow> bool" where
  "continuation b \<longleftrightarrow> 128 \<le> b \<and> b < 192"

text \<open>\<open>bytes.decode()\<close>; its \<open>UnicodeDecodeError\<close> is a \<open>ValueError\<close>.\<close>

definition bad_utf8 :: exn where
  "bad_utf8 = ValueError (u ''UnicodeDecodeError'')"

fun decode :: "int list \<Rightarrow> str res" where
  "decode [] = Inr []"
| "decode (a # s) =
     (if a < 128 then rbind (decode s) (\<lambda>t. Inr (a # t))
      else if 194 \<le> a \<and> a < 224 then
        (case s of
           b # r \<Rightarrow> if continuation b then rbind (decode r) (\<lambda>t. Inr (((a - 192) * 64 + (b - 128)) # t))
             else Inl bad_utf8
         | _ \<Rightarrow> Inl bad_utf8)
      else if 224 \<le> a \<and> a < 240 then
        (case s of
           b # c # r \<Rightarrow>
             (let v = (a - 224) * 4096 + (b - 128) * 64 + (c - 128) in
              if continuation b \<and> continuation c \<and> 2048 \<le> v \<and> \<not> (55296 \<le> v \<and> v \<le> 57343)
              then rbind (decode r) (\<lambda>t. Inr (v # t)) else Inl bad_utf8)
         | _ \<Rightarrow> Inl bad_utf8)
      else if 240 \<le> a \<and> a < 245 then
        (case s of
           b # c # d # r \<Rightarrow>
             (let v = (a - 240) * 262144 + (b - 128) * 4096 + (c - 128) * 64 + (d - 128) in
              if continuation b \<and> continuation c \<and> continuation d \<and> 65536 \<le> v \<and> v < 1114112
              then rbind (decode r) (\<lambda>t. Inr (v # t)) else Inl bad_utf8)
         | _ \<Rightarrow> Inl bad_utf8)
      else Inl bad_utf8)"

lemma decode_ascii: "\<forall>c \<in> set s. printable c \<Longrightarrow> decode s = Inr s"
  by (induction s) (auto simp: printable_def)

definition loads_bytes :: "(str \<Rightarrow> str) \<Rightarrow> int list \<Rightarrow> json res" where
  "loads_bytes fr b = rbind (decode b) (loads fr)"

section \<open>Round trip\<close>

definition valid_char :: "int \<Rightarrow> bool" where
  "valid_char c \<longleftrightarrow> 0 \<le> c \<and> c < 1114112 \<and> \<not> (55296 \<le> c \<and> c \<le> 57343)"

lemma hex_value_digit: "0 \<le> n \<Longrightarrow> n < 16 \<Longrightarrow> hex_value (hex_digit n) = Some n"
  by (auto simp: hex_value_def hex_digit_def)

lemma div_range4096: "0 \<le> n \<Longrightarrow> n < 65536 \<Longrightarrow> 0 \<le> n div 4096 \<and> n div 4096 < (16::int)"
  using div_mult_mod_eq[of n 4096] pos_mod_sign[of 4096 n] by (simp add: pos_imp_zdiv_nonneg_iff)

lemma div_range1024: "0 \<le> n \<Longrightarrow> n < 1048576 \<Longrightarrow> 0 \<le> n div 1024 \<and> n div 1024 < (1024::int)"
  using div_mult_mod_eq[of n 1024] pos_mod_sign[of 1024 n] by (simp add: pos_imp_zdiv_nonneg_iff)

lemma hex4_split:
  fixes n :: int
  assumes "0 \<le> n" "n < 65536"
  shows "4096 * (n div 4096 mod 16) + 256 * (n div 256 mod 16) + 16 * (n div 16 mod 16) + n mod 16 = n"
proof -
  have d: "n div 16 div 16 = n div 256" "n div 256 div 16 = n div 4096"
    by (simp_all add: zdiv_zmult2_eq [symmetric])
  have "n = 16 * (n div 16) + n mod 16" "n div 16 = 16 * (n div 256) + n div 16 mod 16"
    "n div 256 = 16 * (n div 4096) + n div 256 mod 16"
    using div_mult_mod_eq[of n 16] div_mult_mod_eq[of "n div 16" 16] div_mult_mod_eq[of "n div 256" 16]
    unfolding d by linarith+
  moreover have "n div 4096 mod 16 = n div 4096"
    using div_range4096[OF assms]
    by (intro mod_pos_pos_trivial) simp_all
  ultimately show ?thesis by linarith
qed

lemma hex4_value_digits:
  assumes "0 \<le> n" "n < 65536"
  shows "hex4_value (hex_digit (n div 4096 mod 16)) (hex_digit (n div 256 mod 16))
    (hex_digit (n div 16 mod 16)) (hex_digit (n mod 16)) = Some n"
proof -
  have "hex_value (hex_digit (k mod 16)) = Some (k mod 16)" for k by (rule hex_value_digit) simp_all
  then show ?thesis unfolding hex4_value_def using hex4_split[OF assms] by (simp only: prod.case option.case)
qed

lemma read_hex4:
  assumes "0 \<le> n" "n < 65536"
  shows "read_string acc (hex4 n @ t) =
    (case low_part n t of None \<Rightarrow> None | Some (v, r) \<Rightarrow> read_string (v # acc) r)"
  by (simp add: hex4_def read_escape_def hex4_value_digits[OF assms])

lemma low_part_pair:
  assumes "65536 \<le> c" "c < 1114112"
  shows "low_part (55296 + (c - 65536) div 1024) (hex4 (56320 + (c - 65536) mod 1024) @ t) = Some (c, t)"
proof -
  let ?hi = "55296 + (c - 65536) div 1024" and ?lo = "56320 + (c - 65536) mod 1024"
  have m: "0 \<le> (c - 65536) mod 1024" "(c - 65536) mod 1024 < 1024" by simp_all
  then have lo: "0 \<le> ?lo" "?lo < 65536" "low_surrogate ?lo" by (auto simp: low_surrogate_def)
  have "(c - 65536) div 1024 < 1024" "0 \<le> (c - 65536) div 1024"
    using assms div_range1024[of "c - 65536"] by simp_all
  then have hi: "high_surrogate ?hi" by (simp add: high_surrogate_def)
  have "65536 + (?hi - 55296) * 1024 + (?lo - 56320) = c"
    using div_mult_mod_eq[of "c - 65536" 1024] by simp
  with hi lo(3) show ?thesis
    unfolding low_part_def hex4_def using hex4_value_digits[OF lo(1,2)] by simp
qed

lemma read_string_char:
  assumes "valid_char c"
  shows "read_string acc (esc_char a c @ t) = read_string (c # acc) t"
proof -
  have "\<not> high_surrogate c" using assms by (auto simp: high_surrogate_def valid_char_def)
  then have low: "low_part c t = Some (c, t)" by (simp add: low_part_def)
  have esc: "read_string acc (92 # e # t) = read_string (c # acc) t" if "escape_value e = Some c" "e \<noteq> 117" for e
    using that by (simp add: read_escape_def)
  have hx: "read_string acc (hex4 c @ t) = read_string (c # acc) t" if "c < 65536"
    using read_hex4[of c acc t] that assms low by (simp add: valid_char_def)
  have pair: "read_string acc (hex4 (55296 + (c - 65536) div 1024) @ hex4 (56320 + (c - 65536) mod 1024) @ t)
      = read_string (c # acc) t" if "65536 \<le> c"
  proof -
    have "(c - 65536) div 1024 < 1024" "0 \<le> (c - 65536) div 1024"
      using assms that div_range1024[of "c - 65536"] by (simp_all add: valid_char_def)
    then show ?thesis
      using read_hex4[of "55296 + (c - 65536) div 1024" acc] low_part_pair[of c t] assms that
      by (simp add: valid_char_def)
  qed
  show ?thesis
    using esc hx pair by (auto simp: esc_char_def escape_value_def)
qed

lemma read_string_quote:
  assumes "list_all valid_char s"
  shows "read_string acc (concat (map (esc_char a) s) @ 34 # r) = Some (rev acc @ s, r)"
  using assms by (induction s arbitrary: acc) (auto simp: read_string_char)

definition number_end :: "str \<Rightarrow> bool" where
  "number_end r \<longleftrightarrow> r = [] \<or> \<not> is_digit (hd r) \<and> hd r \<notin> {46, 101, 69}"

lemma takeWhile_digits:
  "\<forall>c \<in> set ds. is_digit c \<Longrightarrow> r = [] \<or> \<not> is_digit (hd r) \<Longrightarrow> takeWhile is_digit (ds @ r) = ds"
  by (cases r) (auto simp: takeWhile_append2)

lemma dec_nat_zero: "hd (dec_nat n) = 48 \<Longrightarrow> dec_nat n = [48]"
proof (induction n rule: dec_nat.induct)
  case (1 n)
  show ?case
  proof (cases "n < 10")
    case True
    then have "dec_nat n = [48 + int n]" by (simp add: dec_nat.simps[of n])
    with 1(2) show ?thesis by simp
  next
    case False
    then have d: "dec_nat n = dec_nat (n div 10) @ [48 + int (n mod 10)]" by (simp add: dec_nat.simps[of n])
    then have "dec_nat (n div 10) = [48]" using 1 False by simp
    then have "n div 10 = 0" using digits_value_dec_nat[of "n div 10"] by (simp add: digits_value_def)
    with False show ?thesis by simp
  qed
qed

lemma integer_part_dec_nat: "number_end r \<Longrightarrow> integer_part (dec_nat n @ r) = dec_nat n"
proof -
  assume r: "number_end r"
  then have t: "takeWhile is_digit (dec_nat n @ r) = dec_nat n"
    using dec_nat_digits by (intro takeWhile_digits) (auto simp: number_end_def)
  show ?thesis
    unfolding integer_part_def t using dec_nat_zero[of n] by (cases "dec_nat n") auto
qed

lemma fraction_end: "number_end r \<Longrightarrow> fraction r = []" "number_end r \<Longrightarrow> exponent r = []"
  by (auto simp: number_end_def fraction_def exponent_def split: list.splits)

lemma read_number_dec:
  assumes "number_end r"
  shows "read_number fr (dec i @ r) = Some (JInt i, r)"
proof (cases "i < 0")
  case True
  then have "dec i = 45 # dec_nat (nat (- i))" by (simp add: dec_def)
  then show ?thesis using True assms
    by (simp add: read_number_def Let_def integer_part_dec_nat fraction_end digits_value_dec_nat)
next
  case False
  then have d: "dec i = dec_nat (nat i)" by (simp add: dec_def)
  have "hd (dec_nat (nat i) @ r) \<noteq> 45" using dec_nat_hd by (simp add: hd_append)
  then show ?thesis using False assms
    by (simp add: d read_number_def Let_def integer_part_dec_nat fraction_end digits_value_dec_nat)
qed

lemma dec_start: obtains c t where "dec i = c # t" "is_digit c \<or> c = 45 \<and> t \<noteq> [] \<and> is_digit (hd t)"
proof -
  have n: "is_digit (hd (dec_nat n))" for n using dec_nat_digits[of n] by simp
  show thesis
  proof (cases "i < 0")
    case True
    then show thesis using n by (intro that[of 45]) (auto simp: dec_def)
  next
    case False
    then show thesis using n[of "nat i"] that by (cases "dec_nat (nat i)") (auto simp: dec_def)
  qed
qed

lemma read_constant_dec: "read_constant (dec i @ r) = None"
proof (rule dec_start[of i])
  fix c t
  assume d: "dec i = c # t" and c: "is_digit c \<or> c = 45 \<and> t \<noteq> [] \<and> is_digit (hd t)"
  have no: "\<not> startswith (c # t @ r) (p # q)" if "p \<noteq> c" for p q
    using that by (simp add: startswith_def)
  have neg: "\<not> startswith (c # t @ r) (45 # 73 # q)" for q
    using c by (cases t) (auto simp: startswith_def is_digit_def)
  have "c \<notin> {110, 116, 102, 78, 73}" using c by (auto simp: is_digit_def)
  then show ?thesis using no neg by (simp add: d read_constant_def constants_def u_def)
qed

text \<open>The values whose text is read back: valid characters, distinct keys, floats in their own text.\<close>

definition float_text :: "(str \<Rightarrow> str) \<Rightarrow> str \<Rightarrow> bool" where
  "float_text fr t \<longleftrightarrow> t \<noteq> [] \<and> hd t \<notin> {34, 91, 123, 93, 125, 44, 58} \<and> \<not> json_space (hd t)
     \<and> (\<forall>r. number_end r \<longrightarrow> read_constant (t @ r) = None \<and> read_number fr (t @ r) = Some (JFloat t, r))"

primrec readable :: "(str \<Rightarrow> str) \<Rightarrow> json \<Rightarrow> bool" where
  "readable fr JNull = True"
| "readable fr (JBool b) = True"
| "readable fr (JInt i) = True"
| "readable fr (JFloat t) = float_text fr t"
| "readable fr (JStr t) = list_all valid_char t"
| "readable fr (JList xs) = list_all id (map (readable fr) xs)"
| "readable fr (JObj d) = (distinct (map fst d) \<and> list_all (list_all valid_char \<circ> fst) d
     \<and> list_all snd (map (map_prod id (readable fr)) d))"

lemma dumps_start:
  assumes "readable fr j"
  obtains c t where "dumps a j = c # t" "\<not> json_space c" "c \<notin> {93, 125, 44, 58}"
proof -
  have "\<exists>c t. dumps a j = c # t \<and> \<not> json_space c \<and> c \<notin> {93, 125, 44, 58}"
  proof (cases j)
    case (JInt i)
    obtain c t where "dec i = c # t" "is_digit c \<or> c = 45 \<and> t \<noteq> [] \<and> is_digit (hd t)" by (rule dec_start)
    then show ?thesis using JInt by (auto simp: is_digit_def json_space_def)
  next
    case (JFloat t)
    then show ?thesis using assms by (cases t) (auto simp: float_text_def)
  qed (auto simp: u_def quote_def json_space_def)
  then show thesis using that by blast
qed

lemma skip_dumps: "readable fr j \<Longrightarrow> skip (dumps a j @ r) = dumps a j @ r"
  by (rule dumps_start[of fr j a]) (auto simp: skip_def)

lemma dumps_neq:
  "readable fr j \<Longrightarrow> dumps a j \<noteq> [] \<and> hd (dumps a j) \<notin> {93, 125, 44, 58}"
  by (rule dumps_start[of fr j a]) auto

lemma texts: "u '', '' = [44, 32]" "u '': '' = [58, 32]" "u ''['' = [91]" "u '']'' = [93]"
  "u ''{'' = [123]" "u ''}'' = [125]"
  by (simp_all add: u_def)

lemma join_Cons: "join sep (x # xs) = x @ (if xs = [] then [] else sep @ join sep xs)"
  by (cases xs) auto

definition reads :: "(str \<Rightarrow> str) \<Rightarrow> bool \<Rightarrow> json \<Rightarrow> bool" where
  "reads fr a j \<longleftrightarrow> (\<forall>n r. number_end r \<longrightarrow> length (dumps a j) < n \<longrightarrow>
     read_value fr n (dumps a j @ r) = Some (j, r))"

lemma readsD:
  "reads fr a j \<Longrightarrow> number_end r \<Longrightarrow> length (dumps a j) < n \<Longrightarrow>
    read_value fr n (dumps a j @ r) = Some (j, r)"
  by (simp add: reads_def)

lemma number_end_punctuation [simp]: "number_end (93 # r)" "number_end (125 # r)" "number_end (44 # r)"
  by (auto simp: number_end_def is_digit_def)

lemma skip_punctuation [simp]: "skip (93 # r) = 93 # r" "skip (125 # r) = 125 # r" "skip (44 # r) = 44 # r"
  "skip (58 # r) = 58 # r" "skip (34 # r) = 34 # r" "skip (32 # r) = skip r"
  by (simp_all add: skip_def json_space_def)

lemma read_items_dumps:
  assumes "\<forall>x \<in> set (x # xs). reads fr a x \<and> readable fr x"
    and "length (join [44, 32] (map (dumps a) (x # xs))) + 1 < n"
  shows "read_items fr n acc (join [44, 32] (map (dumps a) (x # xs)) @ 93 # r)
    = Some (JList (rev acc @ x # xs), r)"
  using assms
proof (induction xs arbitrary: x acc n)
  case Nil
  then obtain m where n: "n = Suc m" "length (dumps a x) < m" by (cases n) auto
  have "reads fr a x" using Nil.prems by simp
  with n readsD[of fr a x "93 # r" m] show ?case by simp
next
  case (Cons y ys)
  let ?rest = "join [44, 32] (map (dumps a) (y # ys)) @ 93 # r"
  obtain m where n: "n = Suc m" "length (dumps a x) < m"
    "length (join [44, 32] (map (dumps a) (y # ys))) + 1 < m"
    using Cons.prems(2) by (cases n) (auto simp: join_Cons)
  have x: "reads fr a x" and y: "readable fr y" using Cons.prems(1) by auto
  have skip: "skip ?rest = ?rest" using skip_dumps[OF y] by (simp add: join_Cons)
  have rest: "read_items fr m (x # acc) ?rest = Some (JList (rev (x # acc) @ y # ys), r)"
    using Cons.prems(1) n(3) by (intro Cons.IH) auto
  have eqt: "join [44, 32] (map (dumps a) (x # y # ys)) @ 93 # r = dumps a x @ 44 # 32 # ?rest"
    by simp
  show ?case
    unfolding eqt n(1) using readsD[OF x, of "44 # 32 # ?rest" m] n(2) skip rest by simp
qed

definition member_text :: "bool \<Rightarrow> str \<times> json \<Rightarrow> str" where
  "member_text a kv = quote a (fst kv) @ 58 # 32 # dumps a (snd kv)"

lemma member_text_length: "length (dumps a v) + 2 \<le> length (member_text a (k, v))"
  by (simp add: member_text_def)

lemma read_quote: "list_all valid_char k \<Longrightarrow> \<exists>t. quote a k @ r = 34 # t \<and> read_string [] t = Some (k, r)"
  using read_string_quote[of k "[]" a r] by (simp add: quote_def)

lemma read_members_step:
  assumes "list_all valid_char k" and "reads fr a v" "readable fr v" and "length (dumps a v) < m"
    and "d \<in> {125, 44}"
  shows "read_members fr (Suc m) acc (member_text a (k, v) @ d # t) =
    (if d = 125 then Some (JObj (dict_of (rev ((k, v) # acc))), t)
     else read_members fr m ((k, v) # acc) (skip t))"
proof -
  obtain q where q: "quote a k @ 58 # 32 # dumps a v @ d # t = 34 # q"
    "read_string [] q = Some (k, 58 # 32 # dumps a v @ d # t)"
    using read_quote[OF assms(1)] by blast
  have "number_end (d # t)" "skip (d # t) = d # t" using assms(5) by auto
  with readsD[OF assms(2), of "d # t" m] assms(4,5) skip_dumps[OF assms(3)] q
  show ?thesis by (auto simp: member_text_def)
qed

lemma read_members_dumps:
  assumes "\<forall>kv \<in> set (kv # d). list_all valid_char (fst kv) \<and> reads fr a (snd kv) \<and> readable fr (snd kv)"
    and "length (join [44, 32] (map (member_text a) (kv # d))) + 1 < n"
  shows "read_members fr n acc (join [44, 32] (map (member_text a) (kv # d)) @ 125 # r)
    = Some (JObj (dict_of (rev acc @ kv # d)), r)"
  using assms
proof (induction d arbitrary: kv acc n)
  case Nil
  obtain k v where kv: "kv = (k, v)" by (cases kv)
  then obtain m where n: "n = Suc m" "length (dumps a v) < m"
    using Nil.prems(2) by (cases n) (auto simp: member_text_def)
  with kv Nil.prems(1) show ?case using read_members_step[of k fr a v m 125 acc r] by simp
next
  case (Cons kv' d)
  obtain k v where kv: "kv = (k, v)" by (cases kv)
  let ?rest = "join [44, 32] (map (member_text a) (kv' # d)) @ 125 # r"
  obtain m where n: "n = Suc m" "length (dumps a v) < m"
    "length (join [44, 32] (map (member_text a) (kv' # d))) + 1 < m"
    using Cons.prems(2) kv member_text_length[of a v k] by (cases n) (auto simp: join_Cons)
  have skip: "skip (32 # ?rest) = ?rest" by (simp add: join_Cons member_text_def quote_def)
  have rest: "read_members fr m (kv # acc) ?rest = Some (JObj (dict_of (rev (kv # acc) @ kv' # d)), r)"
    using Cons.prems(1) n(3) by (intro Cons.IH) auto
  have eqt: "join [44, 32] (map (member_text a) (kv # kv' # d)) @ 125 # r
      = member_text a (k, v) @ 44 # 32 # ?rest"
    by (simp add: kv)
  show ?case
    unfolding eqt n(1)
    using read_members_step[of k fr a v m 44 acc "32 # ?rest"] Cons.prems(1) n(2) skip rest kv by simp
qed

lemma dict_of_distinct: "distinct (map fst d) \<Longrightarrow> dict_of d = d"
proof -
  have "distinct (map fst (e @ d)) \<Longrightarrow> fold (\<lambda>(k, v) d. AList.update k v d) d e = e @ d" for e
  proof (induction d arbitrary: e)
    case (Cons kv d)
    have "AList.update k v e = e @ [(k, v)]" if "k \<notin> fst ` set e" for k v
      using that by (induction e) auto
    with Cons show ?case by (cases kv) auto
  qed simp
  from this[of "[]"] show "distinct (map fst d) \<Longrightarrow> dict_of d = d" by (simp add: dict_of_def)
qed

lemma read_constant_words:
  "read_constant (u ''null'' @ r) = Some (JNull, r)" "read_constant (u ''true'' @ r) = Some (JBool True, r)"
  "read_constant (u ''false'' @ r) = Some (JBool False, r)"
  by (simp_all add: read_constant_def constants_def u_def startswith_def)

lemma dumps_obj: "dumps a (JObj d) = 123 # join [44, 32] (map (member_text a) d) @ [125]"
proof -
  have "map (\<lambda>kv. quote a (fst kv) @ u '': '' @ snd kv) (map (map_prod id (dumps a)) d) = map (member_text a) d"
    by (simp add: member_text_def texts)
  then show ?thesis by (simp add: texts del: map_map)
qed

lemma dumps_list: "dumps a (JList xs) = 91 # join [44, 32] (map (dumps a) xs) @ [93]"
  by (simp add: texts)

lemma dumps_reads: "readable fr j \<Longrightarrow> reads fr a j"
proof (induction j)
  case (JList xs)
  have all: "\<forall>x \<in> set xs. reads fr a x \<and> readable fr x"
    using JList by (auto simp: list_all_iff)
  show ?case unfolding reads_def
  proof (intro allI impI)
    fix n r assume n: "length (dumps a (JList xs)) < n"
    then obtain m where m: "n = Suc m" by (cases n) auto
    show "read_value fr n (dumps a (JList xs) @ r) = Some (JList xs, r)"
    proof (cases xs)
      case Nil
      then show ?thesis by (simp add: m texts)
    next
      case (Cons x ys)
      let ?t = "join [44, 32] (map (dumps a) (x # ys)) @ 93 # r"
      have x: "readable fr x" using all Cons by simp
      obtain c t where ct: "dumps a x = c # t" "\<not> json_space c" "c \<notin> {93, 125, 44, 58}"
        by (rule dumps_start[OF x])
      then have "skip ?t = ?t" "\<exists>t'. ?t = c # t'" by (auto simp: join_Cons skip_def)
      moreover have "read_items fr m [] ?t = Some (JList (rev [] @ x # ys), r)"
        using all n Cons m by (intro read_items_dumps) (auto simp: texts)
      ultimately show ?thesis using Cons m ct by (auto simp: texts)
    qed
  qed
next
  case (JObj d)
  have all: "\<forall>kv \<in> set d. list_all valid_char (fst kv) \<and> reads fr a (snd kv) \<and> readable fr (snd kv)"
    using JObj by (fastforce simp: list_all_iff)
  show ?case unfolding reads_def
  proof (intro allI impI)
    fix n r assume n: "length (dumps a (JObj d)) < n"
    then obtain m where m: "n = Suc m" by (cases n) auto
    show "read_value fr n (dumps a (JObj d) @ r) = Some (JObj d, r)"
    proof (cases d)
      case Nil
      then show ?thesis by (simp add: m texts)
    next
      case (Cons kv e)
      let ?t = "join [44, 32] (map (member_text a) (kv # e)) @ 125 # r"
      have "\<exists>t'. ?t = 34 # t'" by (simp add: join_Cons member_text_def quote_def)
      then have "skip ?t = ?t" "\<exists>t'. ?t = 34 # t'" by auto
      moreover have "read_members fr m [] ?t = Some (JObj (dict_of (rev [] @ kv # e)), r)"
        using all n Cons m by (intro read_members_dumps) (auto simp: dumps_obj simp del: dumps.simps)
      moreover have "dict_of d = d" using JObj.prems by (simp add: dict_of_distinct)
      ultimately show ?thesis using Cons m by (auto simp: dumps_obj simp del: dumps.simps)
    qed
  qed
next
  case (JInt i)
  show ?case unfolding reads_def
  proof (intro allI impI)
    fix n r assume r: "number_end r" and n: "length (dumps a (JInt i)) < n"
    obtain c t where d: "dec i = c # t" and c: "is_digit c \<or> c = 45 \<and> t \<noteq> [] \<and> is_digit (hd t)"
      by (rule dec_start)
    have "c \<notin> {34, 91, 123}" using c by (auto simp: is_digit_def)
    moreover obtain m where "n = Suc m" using n by (cases n) auto
    ultimately show "read_value fr n (dumps a (JInt i) @ r) = Some (JInt i, r)"
      using read_constant_dec[of i r] read_number_dec[OF r, of fr i] by (simp add: d)
  qed
next
  case (JFloat t)
  show ?case unfolding reads_def
  proof (intro allI impI)
    fix n r assume r: "number_end r" and n: "length (dumps a (JFloat t)) < n"
    obtain m where "n = Suc m" using n by (cases n) auto
    with JFloat r show "read_value fr n (dumps a (JFloat t) @ r) = Some (JFloat t, r)"
      by (cases t) (auto simp: float_text_def)
  qed
next
  case (JStr t)
  show ?case unfolding reads_def
  proof (intro allI impI)
    fix n r assume n: "length (dumps a (JStr t)) < n"
    obtain m where "n = Suc m" using n by (cases n) auto
    moreover obtain q where "quote a t @ r = 34 # q" "read_string [] q = Some (t, r)"
      using read_quote JStr by (metis readable.simps(5))
    ultimately show "read_value fr n (dumps a (JStr t) @ r) = Some (JStr t, r)" by simp
  qed
next
  case JNull
  have e: "u ''null'' = 110 # u ''ull''" by (simp add: u_def)
  show ?case unfolding reads_def
  proof (intro allI impI)
    fix n r assume "length (dumps a JNull) < n"
    then obtain m where "n = Suc m" by (cases n) auto
    with read_constant_words(1)[of r] show "read_value fr n (dumps a JNull @ r) = Some (JNull, r)"
      by (simp add: e)
  qed
next
  case (JBool b)
  have e: "u ''true'' = 116 # u ''rue''" "u ''false'' = 102 # u ''alse''" by (simp_all add: u_def)
  show ?case unfolding reads_def
  proof (intro allI impI)
    fix n r assume "length (dumps a (JBool b)) < n"
    then obtain m where "n = Suc m" by (cases n) auto
    with read_constant_words(2,3)[of r] show "read_value fr n (dumps a (JBool b) @ r) = Some (JBool b, r)"
      by (cases b) (simp_all add: e)
  qed
qed

lemma loads_dumps:
  assumes "readable fr j"
  shows "loads fr (dumps a j) = Inr j"
proof -
  have e: "number_end []" "skip [] = []" by (simp_all add: number_end_def skip_def)
  have "read_value fr (length (dumps a j) + 1) (dumps a j @ []) = Some (j, [])"
    by (rule readsD[OF dumps_reads[OF assms] e(1)]) simp
  then have "read_value fr (length (dumps a j) + 1) (skip (dumps a j)) = Some (j, [])"
    using skip_dumps[OF assms, of a "[]"] by (simp only: append_Nil2)
  then show ?thesis unfolding loads_def by (simp only: option.case prod.case e(2) if_True simp_thms)
qed

text \<open>So two values with the same text are the same value.\<close>

lemma dumps_inj:
  assumes "readable fr j" "readable fr k" "dumps a j = dumps a k"
  shows "j = k"
proof -
  have "Inr j = (Inr k :: json res)"
    unfolding loads_dumps[OF assms(1), of a, symmetric] assms(3) loads_dumps[OF assms(2)] ..
  then show ?thesis by simp
qed

lemma loads_bytes_dumps:
  assumes "readable fr j" and "floats_ok j" and "encode (dumps True j) = Inr b"
  shows "loads_bytes fr b = Inr j"
proof -
  have p: "\<forall>c \<in> set (dumps True j). printable c" by (rule dumps_ascii_printable[OF assms(2)])
  then have "b = dumps True j" using encode_ascii[OF p] assms(3) by simp
  then show ?thesis using decode_ascii[OF p] loads_dumps[OF assms(1)] by (simp add: loads_bytes_def)
qed

lemma sort_json_readable: "readable fr j \<Longrightarrow> readable fr (sort_json j)"
proof (induction j)
  case (JObj d)
  let ?f = "map (map_prod id sort_json)"
  have keys: "map fst (?f d) = map fst d" by (induction d) auto
  have "mset (map fst (sort_key fst (?f d))) = mset (map fst (?f d))" by (simp only: mset_map mset_sort)
  then have "mset (map fst (sort_key fst (?f d))) = mset (map fst d)" unfolding keys .
  then have "distinct (map fst (sort_key fst (?f d)))"
    using JObj.prems by (metis mset_eq_imp_distinct_iff readable.simps(7))
  then show ?case using JObj by (auto simp: list_all_iff)
qed (auto simp: list_all_iff)

lemma sort_json_floats: "floats_ok j \<Longrightarrow> floats_ok (sort_json j)"
proof (induction j)
  case (JObj d)
  then show ?case by (fastforce simp: list_all_iff)
qed (auto simp: list_all_iff)

section \<open>Enough fuel\<close>

lemma skip_length: "length (skip s) \<le> length s"
  by (simp add: skip_def length_dropWhile_le)

lemma read_string_length: "read_string acc s = Some (t, r) \<Longrightarrow> length r < length s"
proof (induction acc s rule: read_string.induct)
  case (2 acc c s)
  then show ?case by (fastforce split: if_splits option.splits dest: read_escape_length)
qed simp

lemma read_number_length: "read_number fr s = Some (j, r) \<Longrightarrow> length r < length s"
  by (cases s) (auto simp: read_number_def Let_def integer_part_def split: if_splits list.splits)

lemma read_constant_length: "read_constant s = Some (j, r) \<Longrightarrow> length r < length s"
proof -
  assume a: "read_constant s = Some (j, r)"
  then obtain t ts where f: "filter (\<lambda>(t, _). startswith s t) constants = (t, j) # ts" and r: "r = drop (length t) s"
    unfolding read_constant_def by (auto split: list.splits)
  have "(t, j) \<in> set (filter (\<lambda>(t, _). startswith s t) constants)" by (simp add: f)
  then have "(t, j) \<in> set constants" and p: "startswith s t" by (simp_all only: set_filter) auto
  from this(1) have "t \<noteq> []" by (auto simp: constants_def)
  with p r show ?thesis by (cases s; cases t) (auto simp: startswith_def)
qed

text \<open>An answer does not depend on the fuel: as much as there are characters read is enough.\<close>

definition fuel_free :: "(nat \<Rightarrow> (json \<times> str) option) \<Rightarrow> nat \<Rightarrow> str \<Rightarrow> bool" where
  "fuel_free f n s \<longleftrightarrow> (\<forall>j r. f n = Some (j, r) \<longrightarrow>
     length r < length s \<and> (\<forall>m \<ge> length s - length r. f m = Some (j, r)))"

lemma fuel_freeD:
  "fuel_free f n s \<Longrightarrow> f n = Some (j, r) \<Longrightarrow> length r < length s"
  "fuel_free f n s \<Longrightarrow> f n = Some (j, r) \<Longrightarrow> length s \<le> m + length r \<Longrightarrow> f m = Some (j, r)"
  by (auto simp: fuel_free_def)

lemma fuel_step:
  assumes "\<And>j r. f (Suc n) = Some (j, r) \<Longrightarrow> length r < length s"
    and "\<And>j r m. f (Suc n) = Some (j, r) \<Longrightarrow> length s \<le> Suc m + length r \<Longrightarrow> f (Suc m) = Some (j, r)"
  shows "fuel_free f (Suc n) s"
  unfolding fuel_free_def
proof (intro allI impI conjI)
  fix j r assume f: "f (Suc n) = Some (j, r)"
  show l: "length r < length s" using assms(1)[OF f] .
  fix m assume "length s - length r \<le> m"
  with l obtain k where "m = Suc k" "length s \<le> Suc k + length r" by (cases m) auto
  with assms(2)[OF f] show "f m = Some (j, r)" by simp
qed

lemma value_fuel:
  assumes "\<And>acc s. fuel_free (\<lambda>n. read_items fr n acc s) n s" "\<And>acc s. fuel_free (\<lambda>n. read_members fr n acc s) n s"
  shows "fuel_free (\<lambda>n. read_value fr n s) (Suc n) s"
proof (cases s)
  case Nil
  then show ?thesis by (simp add: fuel_free_def)
next
  case (Cons c t)
  have k: "length (skip t) \<le> length t" by (rule skip_length)
  show ?thesis
  proof (rule fuel_step)
    fix j r assume v: "read_value fr (Suc n) s = Some (j, r)"
    show "length r < length s"
      using v k by (auto simp: Cons split: if_splits option.splits list.splits
          dest: read_string_length read_number_length read_constant_length fuel_freeD(1)[OF assms(1)] fuel_freeD(1)[OF assms(2)])
    fix m assume m: "length s \<le> Suc m + length r"
    show "read_value fr (Suc m) s = Some (j, r)"
      using v k m by (auto simp: Cons split: if_splits option.splits list.splits
          elim!: fuel_freeD(2)[OF assms(1)] fuel_freeD(2)[OF assms(2)])
  qed
qed

lemma items_fuel:
  assumes "\<And>s. fuel_free (\<lambda>n. read_value fr n s) n s" "\<And>acc s. fuel_free (\<lambda>n. read_items fr n acc s) n s"
  shows "fuel_free (\<lambda>n. read_items fr n acc s) (Suc n) s"
proof (rule fuel_step)
  fix j r assume a: "read_items fr (Suc n) acc s = Some (j, r)"
  then obtain i q d t where v: "read_value fr n s = Some (i, q)" and q: "skip q = d # t"
    and rest: "d = 93 \<and> j = JList (rev (i # acc)) \<and> r = t \<or> d = 44 \<and> read_items fr n (i # acc) (skip t) = Some (j, r)"
    by (auto split: option.splits list.splits if_splits)
  have l: "length q < length s" using fuel_freeD(1)[OF assms(1) v] .
  have lq: "Suc (length t) \<le> length q" using skip_length[of q] q by simp
  have ls: "length (skip t) \<le> length t" by (rule skip_length)
  have lr: "length r \<le> length t" using rest ls by (auto dest: fuel_freeD(1)[OF assms(2)])
  show "length r < length s" using l lq lr by simp
  fix m assume m: "length s \<le> Suc m + length r"
  have v': "read_value fr m s = Some (i, q)"
    by (rule fuel_freeD(2)[OF assms(1) v]) (use m l lq lr in simp)
  from rest show "read_items fr (Suc m) acc s = Some (j, r)"
  proof (elim disjE conjE)
    assume "d = 44" and i: "read_items fr n (i # acc) (skip t) = Some (j, r)"
    moreover have "read_items fr m (i # acc) (skip t) = Some (j, r)"
      by (rule fuel_freeD(2)[OF assms(2) i]) (use m l lq ls in simp)
    ultimately show ?thesis by (simp add: v' q)
  qed (simp add: v' q)
qed

lemma members_fuel:
  assumes "\<And>s. fuel_free (\<lambda>n. read_value fr n s) n s" "\<And>acc s. fuel_free (\<lambda>n. read_members fr n acc s) n s"
  shows "fuel_free (\<lambda>n. read_members fr n acc s) (Suc n) s"
proof (rule fuel_step)
  fix j r assume a: "read_members fr (Suc n) acc s = Some (j, r)"
  then obtain s1 k p0 p1 i q d t where s: "s = 34 # s1" "read_string [] s1 = Some (k, p0)" "skip p0 = 58 # p1"
    and v: "read_value fr n (skip p1) = Some (i, q)" and q: "skip q = d # t"
    and rest: "d = 125 \<and> j = JObj (dict_of (rev ((k, i) # acc))) \<and> r = t
      \<or> d = 44 \<and> read_members fr n ((k, i) # acc) (skip t) = Some (j, r)"
    by (auto split: option.splits list.splits if_splits)
  have l: "length q < length (skip p1)" using fuel_freeD(1)[OF assms(1) v] .
  have l1: "length (skip p1) \<le> length p1" by (rule skip_length)
  have l0: "Suc (length p1) \<le> length p0" using skip_length[of p0] s(3) by simp
  have l2: "length p0 < length s" using read_string_length[OF s(2)] s(1) by simp
  have lq: "Suc (length t) \<le> length q" using skip_length[of q] q by simp
  have ls: "length (skip t) \<le> length t" by (rule skip_length)
  have lr: "length r \<le> length t" using rest ls by (auto dest: fuel_freeD(1)[OF assms(2)])
  show "length r < length s" using l l1 l0 l2 lq lr by simp
  fix m assume m: "length s \<le> Suc m + length r"
  have v': "read_value fr m (skip p1) = Some (i, q)"
    by (rule fuel_freeD(2)[OF assms(1) v]) (use m l l0 l1 l2 lq lr in simp)
  from rest show "read_members fr (Suc m) acc s = Some (j, r)"
  proof (elim disjE conjE)
    assume "d = 44" and i: "read_members fr n ((k, i) # acc) (skip t) = Some (j, r)"
    moreover have "read_members fr m ((k, i) # acc) (skip t) = Some (j, r)"
      by (rule fuel_freeD(2)[OF assms(2) i]) (use m l l0 l1 l2 lq ls in simp)
    ultimately show ?thesis by (simp add: s v' q)
  qed (simp add: s v' q)
qed

lemma read_fuel:
  "(\<forall>s. fuel_free (\<lambda>n. read_value fr n s) n s) \<and> (\<forall>acc s. fuel_free (\<lambda>n. read_items fr n acc s) n s)
   \<and> (\<forall>acc s. fuel_free (\<lambda>n. read_members fr n acc s) n s)"
proof (induction n)
  case 0
  show ?case by (simp add: fuel_free_def)
next
  case (Suc n)
  then show ?case by (blast intro: value_fuel items_fuel members_fuel)
qed

lemma read_value_fuel: "fuel_free (\<lambda>n. read_value fr n s) n s"
  using read_fuel by blast

text \<open>So \<open>loads\<close> reads whatever any amount of fuel would read.\<close>

lemma loads_fuel:
  "loads fr s = Inr j \<longleftrightarrow> (\<exists>n r. read_value fr n (skip s) = Some (j, r) \<and> skip r = [])"
proof
  assume "loads fr s = Inr j"
  then show "\<exists>n r. read_value fr n (skip s) = Some (j, r) \<and> skip r = []"
    by (auto simp: loads_def simp del: read_value.simps intro!: exI[of _ "length s + 1"] split: option.splits if_splits)
next
  assume "\<exists>n r. read_value fr n (skip s) = Some (j, r) \<and> skip r = []"
  then obtain n r where r: "read_value fr n (skip s) = Some (j, r)" "skip r = []" by blast
  have "read_value fr (length s + 1) (skip s) = Some (j, r)"
    by (rule fuel_freeD(2)[OF read_value_fuel r(1)]) (use skip_length[of s] in simp)
  with r(2) show "loads fr s = Inr j" by (simp add: loads_def del: read_value.simps)
qed

end
