(* ===== verification/Cache.thy ===== *)
theory Cache
  imports Context
begin

text \<open>
  \<^verbatim>\<open>worker/incident_worker/cache.py\<close>: the cache of assembled bundles and the index of source
  records, two tables of the checkpoint database. A statement is a function on the tables; a
  \<open>with psycopg.connect\<close> block is a transaction, rolled back when it raises. The bundle column
  holds the bundle itself, since pydantic reads back what it wrote.
\<close>

section \<open>Transactions\<close>

text \<open>The tables stand next to the worker's state; \<open>tx\<close> undoes what a raising block did to them.\<close>

definition tx :: "('x \<times> 'd, 'a) M \<Rightarrow> ('x \<times> 'd, 'a) M" where
  "tx m = (\<lambda>(x, d). case m (x, d) of (Inl e, (x', d')) \<Rightarrow> (Inl e, (x', d)) | r \<Rightarrow> r)"

definition sql :: "('d \<Rightarrow> 'd) \<Rightarrow> ('x \<times> 'd, unit) M" where
  "sql f = modify (\<lambda>(x, d). (x, f d))"

definition sql_read :: "('d \<Rightarrow> 'a) \<Rightarrow> ('x \<times> 'd, 'a) M" where
  "sql_read f = gets (\<lambda>(x, d). f d)"

lemma tx_rollback: "tx m s = (Inl e, t) \<Longrightarrow> snd t = snd s"
  by (auto simp: tx_def split: prod.splits sum.splits)

lemma tx_commit: "tx m s = (Inr x, t) \<longleftrightarrow> m s = (Inr x, t)"
  by (cases s) (auto simp: tx_def split: prod.splits sum.splits)

lemma sql_iff [simp]: "sql f s = (r, t) \<longleftrightarrow> r = Inr () \<and> t = (fst s, f (snd s))"
  by (auto simp: sql_def split: prod.splits)

lemma sql_read_iff [simp]: "sql_read f s = (r, t) \<longleftrightarrow> r = Inr (f (snd s)) \<and> t = s"
  by (auto simp: sql_read_def split: prod.splits)

section \<open>The tables\<close>

record cache_row =
  c_key :: str
  c_service :: str
  c_watermark :: int
  c_bundle :: ContextBundle
  c_recording :: "(str \<times> json) list"
  c_created :: rat

record index_row =
  i_service :: str
  i_source :: str
  i_record :: str
  i_version :: str
  i_watermark :: int
  i_available :: bool

record cache_db =
  cache_rows :: "cache_row list"
  index_rows :: "index_row list"

text \<open>\<open>insert \<dots> on conflict(key) do update\<close>: replace the row with the key, or append.\<close>

definition upsert :: "('r \<Rightarrow> 'k) \<Rightarrow> 'r \<Rightarrow> 'r list \<Rightarrow> 'r list" where
  "upsert key row rows =
     (if \<exists>r \<in> set rows. key r = key row then map (\<lambda>r. if key r = key row then row else r) rows
      else rows @ [row])"

definition drop_stale :: "str \<Rightarrow> int \<Rightarrow> cache_db \<Rightarrow> cache_db" where
  "drop_stale svc mark db = db\<lparr>cache_rows :=
     filter (\<lambda>r. \<not> (c_service r = svc \<and> c_watermark r \<noteq> mark)) (cache_rows db)\<rparr>"

definition mark_row :: "str \<Rightarrow> int \<Rightarrow> index_row \<Rightarrow> index_row" where
  "mark_row svc mark r =
     (if i_service r = svc \<and> i_watermark r \<noteq> mark then r\<lparr>i_available := False\<rparr> else r)"

definition mark_stale :: "str \<Rightarrow> int \<Rightarrow> cache_db \<Rightarrow> cache_db" where
  "mark_stale svc mark db = db\<lparr>index_rows := map (mark_row svc mark) (index_rows db)\<rparr>"

definition fresh_row :: "rat \<Rightarrow> str \<Rightarrow> cache_db \<Rightarrow> cache_row option" where
  "fresh_row now k db = find (\<lambda>r. c_key r = k \<and> now - 30 < c_created r) (cache_rows db)"

definition store_row :: "cache_row \<Rightarrow> cache_db \<Rightarrow> cache_db" where
  "store_row row db = db\<lparr>cache_rows := upsert c_key row (cache_rows db)\<rparr>"

definition store_index :: "index_row \<Rightarrow> cache_db \<Rightarrow> cache_db" where
  "store_index row db =
     db\<lparr>index_rows := upsert (\<lambda>r. (i_service r, i_source r, i_record r)) row (index_rows db)\<rparr>"

section \<open>ContextCache\<close>

definition data_error :: exn where
  "data_error = OtherError (u ''DataError'') []"

fun as_int :: "json \<Rightarrow> int res" where
  "as_int (JInt i) = Inr i"
| "as_int _ = Inl data_error"

fun as_text :: "json \<Rightarrow> str res" where
  "as_text (JStr t) = Inr t"
| "as_text _ = Inl data_error"

text \<open>The value that is hashed; \<open>show_time\<close> is \<open>str\<close> of a \<open>datetime\<close>.\<close>

definition key_value :: "(datetime \<Rightarrow> str) \<Rightarrow> RunContext \<Rightarrow> json \<Rightarrow> json res" where
  "key_value show_time r sc =
     rbind (jget sc (u ''subject'')) (\<lambda>subj. rbind (jget sc (u ''team'')) (\<lambda>tm.
     rbind (jget sc (u ''service'')) (\<lambda>svc. rbind (jget sc (u ''watermark'')) (\<lambda>mark.
     rbind (jget_def sc (u ''query'') (JObj [])) (\<lambda>q.
     Inr (JList [subj, tm, svc, JStr (show_time (start r)), JStr (show_time (end_time r)), mark, q,
       JStr (u ''retrieval:2''), JStr (u ''ontology:1''), JStr (u ''mapping:2'')]))))))"

definition cache_key :: "outside \<Rightarrow> (datetime \<Rightarrow> str) \<Rightarrow> RunContext \<Rightarrow> json \<Rightarrow> str res" where
  "cache_key O' show_time r sc =
     rbind (key_value show_time r sc) (\<lambda>v. rbind (encode (dumps True v)) (\<lambda>b. Inr (sha256_hex O' b)))"

definition cache_get ::
    "outside \<Rightarrow> (datetime \<Rightarrow> str) \<Rightarrow> rt \<Rightarrow> rat \<Rightarrow>
     (wstate \<times> cache_db, (ContextBundle \<times> (str \<times> json) list) option) M" where
  "cache_get O' show_time r now =
     bnd (inner (authorize O' r (u ''context''))) (\<lambda>sc.
     bnd (tx
       (bnd (lift (rbind (jget sc (u ''service'')) as_text)) (\<lambda>svc.
        bnd (lift (rbind (jget sc (u ''watermark'')) as_int)) (\<lambda>mark.
        sq (sql (drop_stale svc mark))
        (sq (sql (mark_stale svc mark))
        (bnd (lift (cache_key O' show_time (rt_run r) sc)) (\<lambda>k.
         sql_read (fresh_row now k)))))))) (\<lambda>row.
     ret (map_option (\<lambda>w. (c_bundle w, c_recording w)) row)))"

text \<open>One record of the recording in the index.\<close>

definition index_record :: "str \<Rightarrow> int \<Rightarrow> str \<Rightarrow> json \<Rightarrow> ('x \<times> cache_db, unit) M" where
  "index_record svc mark src row =
     bnd (lift (rbind (jget row (u ''id'')) as_text)) (\<lambda>i.
     bnd (lift (rbind (jget row (u ''version'')) as_text)) (\<lambda>v.
     bnd (lift (jget_def row (u ''deleted'') (JBool False))) (\<lambda>d.
     sql (store_index \<lparr>i_service = svc, i_source = src, i_record = i, i_version = v,
            i_watermark = mark, i_available = \<not> truthy d\<rparr>))))"

definition index_source :: "str \<Rightarrow> int \<Rightarrow> str \<times> json \<Rightarrow> ('x \<times> cache_db, unit) M" where
  "index_source svc mark p =
     bnd (lift (rbind (jget (snd p) (u ''records'')) as_list)) (\<lambda>rows.
     fold_M (\<lambda>row _. index_record svc mark (fst p) row) rows ())"

definition source_changed :: exn where
  "source_changed = PermissionError (u ''source_changed'')"

definition cache_put ::
    "outside \<Rightarrow> (datetime \<Rightarrow> str) \<Rightarrow> rt \<Rightarrow> rat \<Rightarrow> ContextBundle \<Rightarrow> (str \<times> json) list \<Rightarrow>
     (wstate \<times> cache_db, unit) M" where
  "cache_put O' show_time r now b recs =
     bnd (inner (authorize O' r (u ''context''))) (\<lambda>sc.
     bnd (lift (jget sc (u ''watermark''))) (\<lambda>mark.
     if mark \<noteq> JInt (source_version (rt_run r)) then raise source_changed
     else tx
       (bnd (lift (cache_key O' show_time (rt_run r) sc)) (\<lambda>k.
        bnd (lift (rbind (jget sc (u ''service'')) as_text)) (\<lambda>svc.
        sq (sql (store_row \<lparr>c_key = k, c_service = svc, c_watermark = source_version (rt_run r),
              c_bundle = b, c_recording = recs, c_created = now\<rparr>))
           (fold_M (\<lambda>p _. index_source svc (source_version (rt_run r)) p) recs ()))))))"

section \<open>Keys stay unique\<close>

definition cache_db_ok :: "cache_db \<Rightarrow> bool" where
  "cache_db_ok db \<longleftrightarrow> distinct (map c_key (cache_rows db))
     \<and> distinct (map (\<lambda>r. (i_service r, i_source r, i_record r)) (index_rows db))"

lemma upsert_keys:
  "map key (upsert key row rows) =
     (if key row \<in> key ` set rows then map key rows else map key rows @ [key row])"
  by (auto simp: upsert_def image_iff) metis+

lemma distinct_upsert: "distinct (map key rows) \<Longrightarrow> distinct (map key (upsert key row rows))"
  by (auto simp: upsert_keys)

lemma upsert_mem: "row \<in> set (upsert key row rows)"
  by (auto simp: upsert_def image_iff)

lemma upsert_other: "key r \<noteq> key row \<Longrightarrow> r \<in> set (upsert key row rows) \<longleftrightarrow> r \<in> set rows"
  by (auto simp: upsert_def image_iff)

lemma upsert_same: "r \<in> set (upsert key row rows) \<Longrightarrow> key r = key row \<Longrightarrow> r = row"
  by (auto simp: upsert_def split: if_splits)

definition on_db :: "('d \<Rightarrow> bool) \<Rightarrow> 'x \<times> 'd \<Rightarrow> bool" where
  "on_db P s = P (snd s)"

lemma leads_inner_db: "(\<And>d. J d \<Longrightarrow> I d) \<Longrightarrow> leads (on_db J) (on_db I) (inner m)"
  by (auto simp: leads_def on_db_def inner_def split: prod.splits)

lemma leads_sql: "(\<And>d. J d \<Longrightarrow> I (f d)) \<Longrightarrow> leads (on_db J) (on_db I) (sql f)"
  by (auto simp: leads_def on_db_def sql_def monad_defs)

lemma leads_sql_read: "(\<And>d. J d \<Longrightarrow> I d) \<Longrightarrow> leads (on_db J) (on_db I) (sql_read f)"
  by (auto simp: leads_def on_db_def sql_read_def monad_defs)

lemma leads_tx: "leads (on_db I) (on_db I) m \<Longrightarrow> leads (on_db I) (on_db I) (tx m)"
  unfolding leads_def on_db_def tx_def
  by (fastforce split: prod.splits sum.splits)

lemmas db_rules = leads_rules leads_inner_db leads_sql leads_sql_read leads_tx

lemma cache_db_ok_ops:
  "cache_db_ok db \<Longrightarrow> cache_db_ok (drop_stale svc mark db)"
  "cache_db_ok db \<Longrightarrow> cache_db_ok (mark_stale svc mark db)"
  "cache_db_ok db \<Longrightarrow> cache_db_ok (store_row row db)"
  "cache_db_ok db \<Longrightarrow> cache_db_ok (store_index irow db)"
proof -
  have m: "map (\<lambda>r. (i_service r, i_source r, i_record r)) (map (mark_row svc mark) rows)
    = map (\<lambda>r. (i_service r, i_source r, i_record r)) rows" for rows
    by (induction rows) (auto simp: mark_row_def)
  show "cache_db_ok db \<Longrightarrow> cache_db_ok (drop_stale svc mark db)"
    by (auto simp: cache_db_ok_def drop_stale_def distinct_map_filter)
  show "cache_db_ok db \<Longrightarrow> cache_db_ok (mark_stale svc mark db)"
    by (simp add: cache_db_ok_def mark_stale_def m del: map_map)
  show "cache_db_ok db \<Longrightarrow> cache_db_ok (store_row row db)"
    "cache_db_ok db \<Longrightarrow> cache_db_ok (store_index irow db)"
    by (auto simp: cache_db_ok_def store_row_def store_index_def distinct_upsert)
qed

lemma leads_cache_get: "leads (on_db cache_db_ok) (on_db cache_db_ok) (cache_get O' show_time r now)"
  unfolding cache_get_def by (intro db_rules cache_db_ok_ops)

lemma leads_cache_put: "leads (on_db cache_db_ok) (on_db cache_db_ok) (cache_put O' show_time r now b recs)"
  unfolding cache_put_def index_source_def index_record_def by (intro db_rules cache_db_ok_ops)

section \<open>What get finds\<close>

lemma mark_stale_unavailable:
  assumes "i \<in> set (index_rows (mark_stale svc mark db))" "i_service i = svc \<and> i_watermark i \<noteq> mark"
  shows "\<not> i_available i"
proof -
  have row: "i_service (mark_row svc mark r) = i_service r" "i_watermark (mark_row svc mark r) = i_watermark r"
    "i_service r = svc \<and> i_watermark r \<noteq> mark \<Longrightarrow> \<not> i_available (mark_row svc mark r)" for r
    by (simp_all add: mark_row_def)
  from assms(1) have "i \<in> mark_row svc mark ` set (index_rows db)" by (simp add: mark_stale_def)
  then obtain r where "i = mark_row svc mark r" by (rule imageE)
  with row[of r] assms(2) show ?thesis by simp
qed

lemma cache_get_Inr:
  assumes "cache_get O' show_time r now s = (Inr v, t)"
  obtains sc s1 svc mark k where
    "authorize O' r (u ''context'') (fst s) = (Inr sc, s1)"
    "rbind (jget sc (u ''service'')) as_text = Inr svc"
    "rbind (jget sc (u ''watermark'')) as_int = Inr mark"
    "cache_key O' show_time (rt_run r) sc = Inr k"
    "t = (s1, mark_stale svc mark (drop_stale svc mark (snd s)))"
    "v = map_option (\<lambda>w. (c_bundle w, c_recording w)) (fresh_row now k (snd t))"
proof -
  have inner: "inner m s = (Inr x, t) \<longleftrightarrow> (\<exists>x'. m (fst s) = (Inr x, x') \<and> t = (x', snd s))"
    for m :: "(wstate, json) M" and s :: "wstate \<times> cache_db" and x t
    by (auto simp: inner_def split: prod.splits)
  show thesis
    using assms unfolding cache_get_def
    by (auto simp: bnd_Inr sq_Inr inner tx_commit intro!: that)
qed

lemma inner_run: "inner m s = (r, t) \<longleftrightarrow> (\<exists>x'. m (fst s) = (r, x') \<and> t = (x', snd s))"
  by (auto simp: inner_def split: prod.splits)

lemma cache_put_Inr:
  assumes "cache_put O' show_time r now b recs s = (Inr (), t)"
  obtains sc s1 svc k where
    "authorize O' r (u ''context'') (fst s) = (Inr sc, s1)"
    "jget sc (u ''watermark'') = Inr (JInt (source_version (rt_run r)))"
    "cache_key O' show_time (rt_run r) sc = Inr k" "rbind (jget sc (u ''service'')) as_text = Inr svc"
    "fold_M (\<lambda>p _. index_source svc (source_version (rt_run r)) p) recs ()
      (s1, store_row \<lparr>c_key = k, c_service = svc, c_watermark = source_version (rt_run r),
              c_bundle = b, c_recording = recs, c_created = now\<rparr> (snd s)) = (Inr (), t)"
  using assms unfolding cache_put_def
  by (auto simp: bnd_Inr sq_Inr inner_run tx_commit split: if_splits intro!: that)

text \<open>The index statements leave the cached bundles alone.\<close>

definition same_rows :: "'x \<times> cache_db \<Rightarrow> 'x \<times> cache_db \<Rightarrow> bool" where
  "same_rows s t \<longleftrightarrow> cache_rows (snd t) = cache_rows (snd s)"

interpretation sr: state_preorder same_rows
  by unfold_locales (auto simp: same_rows_def)

lemma index_same_rows: "grows same_rows (fold_M (\<lambda>p _. index_source svc mark p) recs ())"
proof -
  have "grows same_rows (sql (store_index row))" for row
    by (auto simp: grows_def same_rows_def sql_def store_index_def monad_defs)
  then show ?thesis unfolding index_source_def index_record_def by (intro sr.grows_rules)
qed

lemma find_unique:
  assumes "distinct (map key xs)" "x \<in> set xs" "P x"
  shows "find (\<lambda>y. key y = key x \<and> P y) xs = Some x"
  using assms by (induction xs) (auto simp: image_iff)

section \<open>A sample scope\<close>

definition sample_scope :: json where
  "sample_scope = JObj [(u ''subject'', JStr (u ''alice'')), (u ''team'', JStr (u ''core'')),
     (u ''service'', JStr (u ''svc-17'')), (u ''watermark'', JInt 1)]"

definition scoped_outside :: outside where
  "scoped_outside = sample_outside\<lparr>api := \<lambda>_. Ok sample_scope\<rparr>"

definition sample_rt :: rt where
  "sample_rt = \<lparr>rt_run = sample_run, started = 0\<rparr>"

definition sample_put :: "(unit res) \<times> (wstate \<times> cache_db)" where
  "sample_put = cache_put scoped_outside (\<lambda>_. u ''t'') sample_rt 0 sample_bundle []
     (sample_state, \<lparr>cache_rows = [], index_rows = []\<rparr>)"

definition sample_get :: "((ContextBundle \<times> (str \<times> json) list) option res) \<times> (wstate \<times> cache_db)" where
  "sample_get = cache_get scoped_outside (\<lambda>_. u ''t'') sample_rt 20 (sample_state, snd (snd sample_put))"

lemma sample_put_ok: "fst sample_put = Inr ()"
  by code_simp

lemma sample_get_ok: "\<not> isl (fst sample_get) \<and> projr (fst sample_get) \<noteq> None"
  by code_simp

lemma sample_authorized: "fst (authorize scoped_outside sample_rt (u ''context'') sample_state) = Inr sample_scope"
  by code_simp

section \<open>Properties\<close>

text \<open>
  C11: What the cache returns was stored under the key of the current scope less than thirty seconds
  ago; afterwards no row of the service is left from another source version, and the index marks
  every record of another version as unavailable.
\<close>

theorem cache_get_current:
  assumes "cache_get O' show_time r now s = (Inr v, t)"
  shows "\<exists>sc s1 svc mark k. authorize O' r (u ''context'') (fst s) = (Inr sc, s1)
    \<and> jget sc (u ''service'') = Inr (JStr svc) \<and> jget sc (u ''watermark'') = Inr (JInt mark)
    \<and> cache_key O' show_time (rt_run r) sc = Inr k
    \<and> (\<forall>b recs. v = Some (b, recs) \<longrightarrow> (\<exists>w \<in> set (cache_rows (snd t)).
         c_key w = k \<and> c_bundle w = b \<and> c_recording w = recs \<and> now - 30 < c_created w))
    \<and> (\<forall>w \<in> set (cache_rows (snd t)). c_service w = svc \<longrightarrow> c_watermark w = mark)
    \<and> (\<forall>i \<in> set (index_rows (snd t)). i_service i = svc \<and> i_watermark i \<noteq> mark \<longrightarrow> \<not> i_available i)"
proof -
  have str: "rbind (jget sc f) as_text = Inr x \<longleftrightarrow> jget sc f = Inr (JStr x)" for sc f x
    by (auto simp: rbind_eq_Inr elim!: as_text.elims)
  have int: "rbind (jget sc f) as_int = Inr x \<longleftrightarrow> jget sc f = Inr (JInt x)" for sc f x
    by (auto simp: rbind_eq_Inr elim!: as_int.elims)
  obtain sc s1 svc mark k where a: "authorize O' r (u ''context'') (fst s) = (Inr sc, s1)"
    and b: "rbind (jget sc (u ''service'')) as_text = Inr svc" "rbind (jget sc (u ''watermark'')) as_int = Inr mark"
    and k: "cache_key O' show_time (rt_run r) sc = Inr k"
    and t: "t = (s1, mark_stale svc mark (drop_stale svc mark (snd s)))"
    and v: "v = map_option (\<lambda>w. (c_bundle w, c_recording w)) (fresh_row now k (snd t))"
    using assms by (rule cache_get_Inr)
  have hit: "\<forall>b recs. v = Some (b, recs) \<longrightarrow> (\<exists>w \<in> set (cache_rows (snd t)).
      c_key w = k \<and> c_bundle w = b \<and> c_recording w = recs \<and> now - 30 < c_created w)"
    using v by (auto simp: fresh_row_def find_Some_iff)
  have rows: "\<forall>w \<in> set (cache_rows (snd t)). c_service w = svc \<longrightarrow> c_watermark w = mark"
    by (auto simp: t mark_stale_def drop_stale_def)
  have index: "\<forall>i \<in> set (index_rows (snd t)). i_service i = svc \<and> i_watermark i \<noteq> mark \<longrightarrow> \<not> i_available i"
    unfolding t snd_conv using mark_stale_unavailable by blast
  show ?thesis
    by (rule exI[of _ sc], rule exI[of _ s1], rule exI[of _ svc], rule exI[of _ mark], rule exI[of _ k])
      (intro conjI a k hit rows index b[unfolded str int])
qed

theorem cache_get_current_witness:
  "\<exists>v t. sample_get = (Inr v, t) \<and> v \<noteq> None \<and>
     (\<forall>w \<in> set (cache_rows (snd t)). c_service w = u ''svc-17'' \<longrightarrow> c_watermark w = 1)"
proof -
  obtain v t where g: "sample_get = (Inr v, t)" "v \<noteq> None"
    using sample_get_ok by (metis fst_conv run_ok sum.sel(2))
  then have get: "cache_get scoped_outside (\<lambda>_. u ''t'') sample_rt 20 (sample_state, snd (snd sample_put)) = (Inr v, t)"
    by (simp add: sample_get_def)
  obtain sc s1 svc mark where auth: "authorize scoped_outside sample_rt (u ''context'') sample_state = (Inr sc, s1)"
    and sc: "jget sc (u ''service'') = Inr (JStr svc)" "jget sc (u ''watermark'') = Inr (JInt mark)"
    and rows: "\<forall>w \<in> set (cache_rows (snd t)). c_service w = svc \<longrightarrow> c_watermark w = mark"
    using cache_get_current[OF get] unfolding fst_conv by blast
  have "sc = sample_scope" using sample_authorized auth by simp
  then have "svc = u ''svc-17''" "mark = 1" using sc by (simp_all add: sample_scope_def)
  then show ?thesis using g rows by blast
qed



text \<open>
  C13: Storing a bundle is atomic: when it raises, because the authorisation is refused, the source
  version has changed since the run started or a record is malformed, neither table has changed.
\<close>

theorem cache_put_atomic:
  assumes "cache_put O' show_time r now b recs s = (Inl e, t)"
  shows "snd t = snd s"
  using assms unfolding cache_put_def
  by (auto simp: bnd_Inl inner_run split: if_splits dest!: tx_rollback)

definition changed_outside :: outside where
  "changed_outside = sample_outside\<lparr>api := \<lambda>_. Ok (JObj [(u ''watermark'', JInt 2)])\<rparr>"

lemma sample_changed:
  "fst (cache_put changed_outside (\<lambda>_. u ''t'') sample_rt 0 sample_bundle []
     (sample_state, \<lparr>cache_rows = [], index_rows = []\<rparr>)) = Inl source_changed"
  by code_simp

theorem cache_put_atomic_witness:
  "\<exists>t. cache_put changed_outside (\<lambda>_. u ''t'') sample_rt 0 sample_bundle []
     (sample_state, \<lparr>cache_rows = [], index_rows = []\<rparr>) = (Inl source_changed, t)
     \<and> cache_rows (snd t) = []"
proof -
  obtain t where p: "cache_put changed_outside (\<lambda>_. u ''t'') sample_rt 0 sample_bundle []
     (sample_state, \<lparr>cache_rows = [], index_rows = []\<rparr>) = (Inl source_changed, t)"
    using sample_changed by (metis prod.collapse)
  with cache_put_atomic[OF p] show ?thesis by simp
qed

text \<open>No operation of the cache ever leaves two rows with the same key in either table.\<close>

lemma cache_keys_unique:
  assumes "cache_db_ok db"
  shows "cache_db_ok (snd (snd (cache_get O' show_time r now (s, db))))
    \<and> cache_db_ok (snd (snd (cache_put O' show_time r now b recs (s, db))))"
  using leads_cache_get[of O' show_time r now, unfolded leads_def on_db_def, rule_format, of "(s, db)"]
    leads_cache_put[of O' show_time r now b recs, unfolded leads_def on_db_def, rule_format, of "(s, db)"]
    assms by simp

lemma cache_keys_unique_witness:
  "cache_db_ok (snd (snd (cache_put scoped_outside (\<lambda>_. u ''t'') sample_rt 0 sample_bundle []
     (sample_state, \<lparr>cache_rows = [], index_rows = []\<rparr>))))"
proof -
  have "cache_db_ok \<lparr>cache_rows = [], index_rows = []\<rparr>" by (simp add: cache_db_ok_def)
  from cache_keys_unique[OF this] show ?thesis by blast
qed

end
