(* ===== verification/Artifacts.thy ===== *)
theory Artifacts
  imports Cache Json_Parse
begin

text \<open>
  \<^verbatim>\<open>worker/incident_worker/artifacts.py\<close>: evidence snapshots in an object store, staged in a
  metadata table before the upload and marked ready after it. The object store is a map from keys
  to bytes next to the table; whether a request to it fails is an argument.
\<close>

datatype art_state = Staged | Ready

record art_row =
  ar_key :: str
  ar_task :: str
  ar_team :: str
  ar_watermark :: int
  ar_digest :: str
  ar_state :: art_state
  ar_created :: rat

record store =
  art_rows :: "art_row list"
  objects_of :: "str \<Rightarrow> int list option"

type_synonym 'a S = "(wstate \<times> store, 'a) M"

section \<open>put\<close>

definition insert_art :: "art_row \<Rightarrow> unit S" where
  "insert_art row =
     bnd (sql_read art_rows) (\<lambda>rows.
     if ar_key row \<in> ar_key ` set rows then raise (OtherError (u ''UniqueViolation'') [])
     else sql (\<lambda>d. d\<lparr>art_rows := art_rows d @ [row]\<rparr>))"

definition set_ready :: "str \<Rightarrow> store \<Rightarrow> store" where
  "set_ready k d = d\<lparr>art_rows := map (\<lambda>r. if ar_key r = k then r\<lparr>ar_state := Ready\<rparr> else r) (art_rows d)\<rparr>"

definition put_object :: "exn option \<Rightarrow> str \<Rightarrow> int list \<Rightarrow> unit S" where
  "put_object fault k raw = (case fault of
     Some e \<Rightarrow> raise e
   | None \<Rightarrow> sql (\<lambda>d. d\<lparr>objects_of := (objects_of d)(k \<mapsto> raw)\<rparr>))"

text \<open>\<open>uid\<close> is the fresh \<open>uuid4\<close>, \<open>now\<close> the time of the transaction.\<close>

definition art_put ::
    "outside \<Rightarrow> rt \<Rightarrow> str \<Rightarrow> rat \<Rightarrow> exn option \<Rightarrow> json \<Rightarrow> json S" where
  "art_put O' r uid now fault data =
     bnd (inner (authorize O' r (u ''context''))) (\<lambda>sc.
     bnd (lift (encode (dumps_sorted True data))) (\<lambda>raw.
     let digest = sha256_hex O' raw in
     bnd (lift (rbind (jget sc (u ''team'')) as_text)) (\<lambda>tm.
     let k = tm @ u ''/'' @ run_id (rt_run r) @ u ''/'' @ uid in
     bnd (lift (rbind (jget sc (u ''watermark'')) as_int)) (\<lambda>mark.
     sq (tx (insert_art \<lparr>ar_key = k, ar_task = run_id (rt_run r), ar_team = tm, ar_watermark = mark,
            ar_digest = digest, ar_state = Staged, ar_created = now\<rparr>))
     (sq (put_object fault k raw)
     (sq (tx (sql (set_ready k)))
     (ret (JObj [(u ''key'', JStr k), (u ''sha256'', JStr digest), (u ''state'', JStr (u ''ready''))]))))))))"

section \<open>get\<close>

definition unavailable :: exn where
  "unavailable = PermissionError (u ''artifact_unavailable'')"

text \<open>The row comparison; the scope is only looked at when there is a row.\<close>

definition row_usable :: "rt \<Rightarrow> json \<Rightarrow> art_row \<Rightarrow> bool res" where
  "row_usable r sc row =
     rbind (jget sc (u ''team'')) (\<lambda>tm. rbind (jget sc (u ''watermark'')) (\<lambda>mark.
     Inr (ar_task row = run_id (rt_run r) \<and> JStr (ar_team row) = tm \<and> JInt (ar_watermark row) = mark
       \<and> ar_state row = Ready)))"

definition get_object :: "str \<Rightarrow> int list S" where
  "get_object k = bnd (sql_read (\<lambda>d. objects_of d k)) (\<lambda>ob. case ob of
     None \<Rightarrow> raise (OtherError (u ''NoSuchKey'') [])
   | Some raw \<Rightarrow> ret raw)"

definition art_get :: "outside \<Rightarrow> (str \<Rightarrow> str) \<Rightarrow> rt \<Rightarrow> str \<Rightarrow> json S" where
  "art_get O' fr r k =
     bnd (inner (authorize O' r (u ''context''))) (\<lambda>sc.
     bnd (sql_read (\<lambda>d. find (\<lambda>w. ar_key w = k) (art_rows d))) (\<lambda>found.
     case found of
       None \<Rightarrow> raise unavailable
     | Some row \<Rightarrow>
         bnd (lift (row_usable r sc row)) (\<lambda>ok.
         if \<not> ok then raise unavailable
         else bnd (get_object k) (\<lambda>raw.
           if sha256_hex O' raw \<noteq> ar_digest row then raise (ValueError (u ''artifact_integrity''))
           else lift (loads_bytes fr raw)))))"

section \<open>cleanup\<close>

definition expired :: "rat \<Rightarrow> rat \<Rightarrow> rat \<Rightarrow> art_row \<Rightarrow> bool" where
  "expired now now_db days row \<longleftrightarrow> ar_created row < now - days * 86400
     \<or> (ar_state row = Staged \<and> ar_created row < now_db - 3600)"

text \<open>
  Deleting an object is not undone by the rollback of the transaction: \<open>fault\<close> tells for which key
  the object store refuses, and the objects deleted before it stay deleted.
\<close>

definition delete_one :: "(str \<Rightarrow> exn option) \<Rightarrow> str \<Rightarrow> store \<Rightarrow> store res" where
  "delete_one fault k d = (case fault k of
     Some e \<Rightarrow> Inl e
   | None \<Rightarrow> Inr (d\<lparr>objects_of := (objects_of d)(k := None),
        art_rows := filter (\<lambda>r. ar_key r \<noteq> k) (art_rows d)\<rparr>))"

fun delete_all :: "(str \<Rightarrow> exn option) \<Rightarrow> str list \<Rightarrow> store \<Rightarrow> store \<Rightarrow> unit res \<times> store" where
  "delete_all fault [] old d = (Inr (), d)"
| "delete_all fault (k # ks) old d = (case delete_one fault k d of
     Inl e \<Rightarrow> (Inl e, d\<lparr>art_rows := art_rows old\<rparr>)
   | Inr d' \<Rightarrow> delete_all fault ks old d')"

definition art_cleanup :: "rat \<Rightarrow> rat \<Rightarrow> rat \<Rightarrow> (str \<Rightarrow> exn option) \<Rightarrow> store \<Rightarrow> nat res \<times> store" where
  "art_cleanup now now_db days fault d =
     (let ks = map ar_key (filter (expired now now_db days) (art_rows d)) in
      case delete_all fault ks d d of
        (Inl e, d') \<Rightarrow> (Inl e, d')
      | (Inr _, d') \<Rightarrow> (Inr (length ks), d'))"

section \<open>Lemmas\<close>

lemma delete_all_Inr:
  assumes "delete_all fault ks old d = (Inr (), d')"
  shows "art_rows d' = filter (\<lambda>r. ar_key r \<notin> set ks) (art_rows d)"
    "objects_of d' = (\<lambda>k. if k \<in> set ks then None else objects_of d k)"
proof -
  have "art_rows d' = filter (\<lambda>r. ar_key r \<notin> set ks) (art_rows d)
    \<and> objects_of d' = (\<lambda>k. if k \<in> set ks then None else objects_of d k)"
    using assms
  proof (induction ks arbitrary: d)
    case (Cons k ks)
    then have "fault k = None" by (auto simp: delete_one_def split: option.splits)
    with Cons.prems have "delete_all fault ks old (d\<lparr>objects_of := (objects_of d)(k := None),
        art_rows := filter (\<lambda>r. ar_key r \<noteq> k) (art_rows d)\<rparr>) = (Inr (), d')"
      by (simp add: delete_one_def)
    from Cons.IH[OF this] show ?case by (simp add: fun_eq_iff conj_commute)
  qed simp
  then show "art_rows d' = filter (\<lambda>r. ar_key r \<notin> set ks) (art_rows d)"
    "objects_of d' = (\<lambda>k. if k \<in> set ks then None else objects_of d k)" by simp_all
qed

lemma art_put_Inr:
  assumes "art_put O' r uid now fault data s = (Inr j, t)"
  obtains sc s1 raw tm mark k where "authorize O' r (u ''context'') (fst s) = (Inr sc, s1)"
    "encode (dumps_sorted True data) = Inr raw" "jget sc (u ''team'') = Inr (JStr tm)"
    "jget sc (u ''watermark'') = Inr (JInt mark)" "k = tm @ u ''/'' @ run_id (rt_run r) @ u ''/'' @ uid"
    "fault = None" "k \<notin> ar_key ` set (art_rows (snd s))"
    "jget j (u ''key'') = Inr (JStr k)"
    "t = (s1, set_ready k (snd s\<lparr>art_rows := art_rows (snd s) @ [\<lparr>ar_key = k,
         ar_task = run_id (rt_run r), ar_team = tm, ar_watermark = mark, ar_digest = sha256_hex O' raw,
         ar_state = Staged, ar_created = now\<rparr>], objects_of := (objects_of (snd s))(k \<mapsto> raw)\<rparr>))"
proof -
  have str: "rbind (jget sc f) as_text = Inr x \<longleftrightarrow> jget sc f = Inr (JStr x)" for sc f x
    by (auto simp: rbind_eq_Inr elim!: as_text.elims)
  have int: "rbind (jget sc f) as_int = Inr x \<longleftrightarrow> jget sc f = Inr (JInt x)" for sc f x
    by (auto simp: rbind_eq_Inr elim!: as_int.elims)
  have put: "put_object fault k raw s = (Inr x, t) \<longleftrightarrow> fault = None
      \<and> t = (fst s, snd s\<lparr>objects_of := (objects_of (snd s))(k \<mapsto> raw)\<rparr>)" for k raw s x t
    by (cases fault) (auto simp: put_object_def)
  show thesis
    using assms unfolding art_put_def Let_def insert_art_def
    by (auto simp: bnd_Inr sq_Inr inner_run tx_commit str int put split: if_splits intro!: that)
qed

lemma find_unique_key: "distinct (map key xs) \<Longrightarrow> x \<in> set xs \<Longrightarrow> find (\<lambda>y. key y = key x) xs = Some x"
  using find_unique[of key xs x "\<lambda>_. True"] by simp

lemma find_appended: "k \<notin> key ` set xs \<Longrightarrow> key x = k \<Longrightarrow> find (\<lambda>y. key y = k) (xs @ [x]) = Some x"
  by (induction xs) auto

text \<open>The row that a successful put leaves behind.\<close>

lemma find_ready:
  assumes "k \<notin> ar_key ` set rows" and "ar_key x = k"
  shows "find (\<lambda>y. ar_key y = k) (art_rows (set_ready k (d\<lparr>art_rows := rows @ [x], objects_of := ob\<rparr>)))
    = Some (x\<lparr>ar_state := Ready\<rparr>)"
proof -
  let ?f = "\<lambda>r. if ar_key r = k then r\<lparr>ar_state := Ready\<rparr> else r"
  have "map ?f rows = rows" using assms(1) by (intro map_idI) auto
  then show ?thesis using assms by (simp add: set_ready_def find_appended)
qed

section \<open>A sample artifact\<close>

definition sample_data :: json where
  "sample_data = JObj [(u ''b'', JInt 1), (u ''a'', JStr (u ''x''))]"

definition empty_store :: "wstate \<times> store" where
  "empty_store = (sample_state, \<lparr>art_rows = [], objects_of = (\<lambda>_. None)\<rparr>)"

definition sample_art :: "json res \<times> (wstate \<times> store)" where
  "sample_art = art_put scoped_outside sample_rt (u ''u1'') 0 None sample_data empty_store"

definition sample_art_key :: str where
  "sample_art_key = u ''core/r1/u1''"

lemma sample_art_ok: "(case fst sample_art of Inr j \<Rightarrow> jget j (u ''key'') | Inl e \<Rightarrow> Inl e) = Inr (JStr sample_art_key)"
  by code_simp

lemma sample_data_ok: "readable id sample_data" "floats_ok sample_data"
  by (simp_all add: sample_data_def u_def valid_char_def)

lemma sample_art_run:
  obtains j t where "art_put scoped_outside sample_rt (u ''u1'') 0 None sample_data empty_store = (Inr j, t)"
    "jget j (u ''key'') = Inr (JStr sample_art_key)"
proof (cases "fst sample_art")
  case (Inr j)
  then have "art_put scoped_outside sample_rt (u ''u1'') 0 None sample_data empty_store = (Inr j, snd sample_art)"
    unfolding sample_art_def by (metis prod.collapse)
  moreover have "jget j (u ''key'') = Inr (JStr sample_art_key)" using sample_art_ok Inr by simp
  ultimately show thesis by (rule that)
qed (use sample_art_ok in simp)

lemma sample_authorize:
  obtains s1 where "authorize scoped_outside sample_rt (u ''context'') sample_state = (Inr sample_scope, s1)"
  using sample_authorized by (metis prod.collapse)

section \<open>Properties\<close>

text \<open>
  C14: A snapshot that was stored is read back, as the same JSON value with its keys in order, by any
  task of the same run whose scope still has the same team and source version.
\<close>

theorem artifact_roundtrip:
  assumes "art_put O' r uid now None data s = (Inr j, t)"
    and "authorize O' r (u ''context'') (fst s) = (Inr sc, s1)"
    and "authorize O' r' (u ''context'') s2 = (Inr sc', s3)" and "run_id (rt_run r') = run_id (rt_run r)"
    and "jget sc' (u ''team'') = jget sc (u ''team'')" "jget sc' (u ''watermark'') = jget sc (u ''watermark'')"
    and "readable fr data" and "floats_ok data" and "jget j (u ''key'') = Inr (JStr k)"
  shows "fst (art_get O' fr r' k (s2, snd t)) = Inr (sort_json data)"
proof -
  obtain raw tm mark where enc: "encode (dumps_sorted True data) = Inr raw"
    and sc: "jget sc (u ''team'') = Inr (JStr tm)" "jget sc (u ''watermark'') = Inr (JInt mark)"
    and new: "k \<notin> ar_key ` set (art_rows (snd s))"
    and t: "snd t = set_ready k (snd s\<lparr>art_rows := art_rows (snd s) @ [\<lparr>ar_key = k,
         ar_task = run_id (rt_run r), ar_team = tm, ar_watermark = mark, ar_digest = sha256_hex O' raw,
         ar_state = Staged, ar_created = now\<rparr>], objects_of := (objects_of (snd s))(k \<mapsto> raw)\<rparr>)"
    using assms(1,2,9) by (auto elim!: art_put_Inr)
  have ob: "objects_of (snd t) k = Some raw" by (simp add: t set_ready_def)
  have row: "find (\<lambda>w. ar_key w = k) (art_rows (snd t)) = Some \<lparr>ar_key = k,
         ar_task = run_id (rt_run r), ar_team = tm, ar_watermark = mark, ar_digest = sha256_hex O' raw,
         ar_state = Ready, ar_created = now\<rparr>"
    unfolding t using new by (subst find_ready) simp_all
  have "loads_bytes fr raw = Inr (sort_json data)"
    using enc assms(7,8) sort_json_readable sort_json_floats
    by (auto simp: dumps_sorted_def intro!: loads_bytes_dumps)
  then show ?thesis
    using assms(3,4,5,6) sc ob row
    by (simp add: art_get_def bnd_def inner_def sql_read_def gets_def lift_def row_usable_def get_object_def
        ret_def)
qed

theorem artifact_roundtrip_witness:
  "\<exists>t. fst (art_get scoped_outside id sample_rt sample_art_key (sample_state, t))
     = Inr (JObj [(u ''a'', JStr (u ''x'')), (u ''b'', JInt 1)])"
proof (rule sample_art_run, rule sample_authorize)
  fix j t s1
  assume p: "art_put scoped_outside sample_rt (u ''u1'') 0 None sample_data empty_store = (Inr j, t)"
    and k: "jget j (u ''key'') = Inr (JStr sample_art_key)"
    and a: "authorize scoped_outside sample_rt (u ''context'') sample_state = (Inr sample_scope, s1)"
  have a': "authorize scoped_outside sample_rt (u ''context'') (fst empty_store) = (Inr sample_scope, s1)"
    using a by (simp add: empty_store_def)
  have "sort_json sample_data = JObj [(u ''a'', JStr (u ''x'')), (u ''b'', JInt 1)]" by code_simp
  with artifact_roundtrip[OF p a' a refl refl refl sample_data_ok k] show ?thesis by auto
qed

text \<open>
  C15: What is read was stored by the same run under the team and source version of the current scope,
  is marked ready, and its bytes hash to the recorded digest.
\<close>

theorem artifact_get_checked:
  assumes "art_get O' fr r k s = (Inr j, t)"
  shows "\<exists>sc s1 row raw. authorize O' r (u ''context'') (fst s) = (Inr sc, s1)
    \<and> row \<in> set (art_rows (snd s)) \<and> ar_key row = k \<and> ar_task row = run_id (rt_run r)
    \<and> jget sc (u ''team'') = Inr (JStr (ar_team row)) \<and> jget sc (u ''watermark'') = Inr (JInt (ar_watermark row))
    \<and> ar_state row = Ready \<and> objects_of (snd s) k = Some raw \<and> sha256_hex O' raw = ar_digest row
    \<and> loads_bytes fr raw = Inr j"
proof -
  obtain sc s1 row raw where a: "authorize O' r (u ''context'') (fst s) = (Inr sc, s1)"
    and f: "find (\<lambda>w. ar_key w = k) (art_rows (snd s)) = Some row"
    and ok: "row_usable r sc row = Inr True" and ob: "objects_of (snd s) k = Some raw"
    and h: "sha256_hex O' raw = ar_digest row" and l: "loads_bytes fr raw = Inr j"
    using assms by (auto simp: art_get_def bnd_Inr inner_run get_object_def split: option.splits if_splits)
  have "row \<in> set (art_rows (snd s))" "ar_key row = k" using f by (auto simp: find_Some_iff)
  moreover have "ar_task row = run_id (rt_run r)" "jget sc (u ''team'') = Inr (JStr (ar_team row))"
    "jget sc (u ''watermark'') = Inr (JInt (ar_watermark row))" "ar_state row = Ready"
    using ok by (auto simp: row_usable_def rbind_eq_Inr)
  ultimately show ?thesis using a ob h l by (intro exI conjI)
qed

definition stored :: "wstate \<times> store" where
  "stored = (sample_state, snd (snd sample_art))"

lemma stored_read: "\<not> isl (fst (art_get scoped_outside id sample_rt sample_art_key stored))"
  by code_simp

theorem artifact_get_checked_witness:
  "\<exists>row \<in> set (art_rows (snd stored)). ar_key row = sample_art_key \<and> ar_task row = u ''r1'' \<and> ar_state row = Ready"
proof -
  obtain j t where g: "art_get scoped_outside id sample_rt sample_art_key stored = (Inr j, t)"
    using run_ok[OF stored_read] by blast
  from artifact_get_checked[OF g] show ?thesis by (auto simp: sample_rt_def sample_run_def)
qed



text \<open>
  A cleanup that returns has removed exactly the expired artifacts, rows and objects: those older
  than the retention, and those left staged for more than an hour; it counts them.
\<close>

lemma artifact_cleanup_exact:
  assumes "art_cleanup now now_db days fault d = (Inr n, d')" and "distinct (map ar_key (art_rows d))"
  shows "art_rows d' = filter (\<lambda>r. \<not> expired now now_db days r) (art_rows d)
    \<and> (\<forall>r \<in> set (art_rows d). objects_of d' (ar_key r)
          = (if expired now now_db days r then None else objects_of d (ar_key r)))
    \<and> n = length (filter (expired now now_db days) (art_rows d))"
proof -
  let ?ex = "expired now now_db days"
  let ?ks = "map ar_key (filter ?ex (art_rows d))"
  have run: "delete_all fault ?ks d d = (Inr (), d')" and n: "n = length ?ks"
    using assms(1) by (auto simp: art_cleanup_def Let_def split: prod.splits sum.splits)
  have mem: "ar_key r \<in> set ?ks \<longleftrightarrow> ?ex r" if r: "r \<in> set (art_rows d)" for r
  proof
    assume "ar_key r \<in> set ?ks"
    then obtain x where "x \<in> set (art_rows d)" "?ex x" "ar_key r = ar_key x" by auto
    with r assms(2) show "?ex r" by (auto simp: distinct_map inj_on_def)
  qed (use r in auto)
  have "art_rows d' = filter (\<lambda>r. \<not> ?ex r) (art_rows d)"
    unfolding delete_all_Inr(1)[OF run] using mem by (intro filter_cong) auto
  moreover have "\<forall>r \<in> set (art_rows d). objects_of d' (ar_key r) = (if ?ex r then None else objects_of d (ar_key r))"
    unfolding delete_all_Inr(2)[OF run] using mem by simp
  ultimately show ?thesis using n by simp
qed

definition sample_store :: store where
  "sample_store = \<lparr>art_rows = map (\<lambda>(k, st, t). \<lparr>ar_key = k, ar_task = [], ar_team = [], ar_watermark = 1,
       ar_digest = [], ar_state = st, ar_created = t\<rparr>)
     [(u ''old'', Ready, 0), (u ''staged'', Staged, 9990000), (u ''new'', Ready, 9990000)],
     objects_of = (\<lambda>k. Some [])\<rparr>"

lemma sample_cleanup: "\<not> isl (fst (art_cleanup 10000000 10000000 30 (\<lambda>_. None) sample_store))"
  by code_simp

lemma sample_cleanup_exact:
  "map ar_key (art_rows (snd (art_cleanup 10000000 10000000 30 (\<lambda>_. None) sample_store))) = [u ''new'']"
proof -
  obtain n d' where c: "art_cleanup 10000000 10000000 30 (\<lambda>_. None) sample_store = (Inr n, d')"
    using run_ok[OF sample_cleanup] by blast
  have "distinct (map ar_key (art_rows sample_store))" by (simp add: sample_store_def)
  from artifact_cleanup_exact[OF c this] c show ?thesis
    by (simp add: sample_store_def expired_def)
qed

end
