(* ===== verification/Gateway.thy ===== *)
theory Gateway
  imports Connectors Json_Parse Context
begin

text \<open>
  \<^verbatim>\<open>worker/incident_worker/gateway.py\<close> and \<^verbatim>\<open>mcp_server.py\<close>: the versioned skills, the log analysis
  tool and the client that calls it. The MCP library and the server process are an argument of the
  client: the tools it lists, their schema, and what a call answers.
\<close>

section \<open>Skills\<close>

record skill_spec =
  sk_version :: str
  sk_review :: str
  sk_tools :: "str list"
  sk_budget :: int
  sk_output :: str

definition SKILLS :: "(str \<times> skill_spec) list" where
  "SKILLS =
     [(u ''log-analysis'', \<lparr>sk_version = u ''1'', sk_review = u ''approved'', sk_tools = [u ''logs''],
        sk_budget = 2, sk_output = u ''error_counts''\<rparr>),
      (u ''release-compare'', \<lparr>sk_version = u ''1'', sk_review = u ''approved'',
        sk_tools = [u ''deployments'', u ''git''], sk_budget = 2, sk_output = u ''commit_comparison''\<rparr>)]"

definition skill_tool_denied :: exn where
  "skill_tool_denied = PermissionError (u ''skill_tool_denied'')"

definition skill_allows :: "str \<Rightarrow> str \<Rightarrow> skill_spec option" where
  "skill_allows name tl' = (case map_of SKILLS name of
     None \<Rightarrow> None
   | Some spec \<Rightarrow> if sk_review spec \<noteq> u ''approved'' \<or> tl' \<notin> set (sk_tools spec) then None else Some spec)"

definition skill :: "'x rt_ops \<Rightarrow> str \<Rightarrow> str \<Rightarrow> PlanStep \<Rightarrow> ('x, json) M" where
  "skill ops name tl' st =
     (case skill_allows name tl' of
        None \<Rightarrow> raise skill_tool_denied
      | Some spec \<Rightarrow>
          sq (op_hook ops (u ''tool_before'')
               (JObj [(u ''skill'', JStr name), (u ''version'', JStr (sk_version spec))]))
          (bnd (case map_of REGISTRY tl' of
                  None \<Rightarrow> raise (KeyError tl')
                | Some src \<Rightarrow> op_query ops src st JNull) (\<lambda>result.
           sq (op_hook ops (u ''tool_after'')
                (JObj [(u ''skill'', JStr name), (u ''status'', JStr (u ''ok''))]))
              (ret result))))"

section \<open>The log analysis tool\<close>

text \<open>A \<open>Counter\<close> keeps its keys in the order of first occurrence.\<close>

fun count_in :: "(str \<times> nat) list \<Rightarrow> str list \<Rightarrow> (str \<times> nat) list" where
  "count_in acc [] = acc"
| "count_in acc (x # xs) = count_in (AList.update x (dict_get acc x 0 + 1) acc) xs"

definition counter :: "str list \<Rightarrow> (str \<times> nat) list" where
  "counter xs = count_in [] xs"

definition level_text :: "outside \<Rightarrow> json \<Rightarrow> str res" where
  "level_text O' r = rbind (jget_def r (u ''level'') (JStr (u ''UNKNOWN''))) (\<lambda>l. Inr (py_str O' l))"

definition analyze_logs :: "outside \<Rightarrow> json list \<Rightarrow> json res" where
  "analyze_logs O' records =
     (if length records > 100 then Inl (ValueError (u ''record_limit''))
      else rbind (rmap (level_text O') records) (\<lambda>ls. Inr (JObj
        [(u ''version'', JStr (u ''1'')), (u ''count'', JInt (int (length records))),
         (u ''levels'', JObj (map (\<lambda>(l, n). (l, JInt (int n))) (counter ls)))])))"

section \<open>The client\<close>

datatype mcp_reply = McpTimeout | McpError | McpText str

record mcp =
  mcp_names :: "str list"
  mcp_schema :: json
  mcp_call :: "json list \<Rightarrow> mcp_reply"

definition timeout_error :: exn where
  "timeout_error = OtherError (u ''TimeoutError'') []"

definition mcp_analyze ::
    "outside \<Rightarrow> (str \<Rightarrow> str) \<Rightarrow> rt \<Rightarrow> mcp \<Rightarrow> json list \<Rightarrow> json W" where
  "mcp_analyze O' fr r m records =
     sq (authorize O' r (u ''logs''))
       (if length records > 100 then raise (ValueError (u ''mcp_input_limit''))
        else if set (mcp_names m) \<noteq> {u ''analyze_logs''}
          then raise (PermissionError (u ''mcp_discovery_mismatch''))
        else sq (event O' r (u ''mcp_discovery'') (JObj
               [(u ''server'', JStr (u ''log-analysis@1'')), (u ''tools'', strs [u ''analyze_logs'']),
                (u ''schema'', mcp_schema m)]))
          (case mcp_call m records of
             McpTimeout \<Rightarrow> raise timeout_error
           | McpError \<Rightarrow> raise (RuntimeError (u ''mcp_tool_error''))
           | McpText t \<Rightarrow> lift (loads fr t)))"

text \<open>The server of this repository behind the protocol: an exception of the tool is an error reply.\<close>

definition own_server :: "outside \<Rightarrow> json \<Rightarrow> mcp" where
  "own_server O' schema = \<lparr>mcp_names = [u ''analyze_logs''], mcp_schema = schema,
     mcp_call = (\<lambda>records. case analyze_logs O' records of
       Inl _ \<Rightarrow> McpError | Inr j \<Rightarrow> McpText (dumps False j))\<rparr>"

section \<open>Counting\<close>

lemma dict_get_update: "dict_get (AList.update k v d) k' z = (if k' = k then v else dict_get d k' z)"
  by (induction d) (auto simp: dict_get_def)

lemma count_in_get: "dict_get (count_in acc xs) k 0 = dict_get acc k 0 + count_list xs k"
  by (induction xs arbitrary: acc) (auto simp: dict_get_update)

lemma counter_get: "dict_get (counter xs) k 0 = count_list xs k"
  by (simp add: counter_def count_in_get) (simp add: dict_get_def)

lemma count_in_keys: "fst ` set (count_in acc xs) = fst ` set acc \<union> set xs"
  by (induction xs arbitrary: acc) (auto simp: keys_update)

lemma count_in_distinct: "distinct (map fst acc) \<Longrightarrow> distinct (map fst (count_in acc xs))"
  by (induction xs arbitrary: acc) (auto simp: distinct_update)

lemma sum_update:
  "distinct (map fst d) \<Longrightarrow>
    sum_list (map snd (AList.update k (Suc (dict_get d k 0)) d)) = Suc (sum_list (map snd d))"
proof (induction d)
  case (Cons kv d)
  then show ?case
    by (cases kv) (auto simp: dict_get_def map_of_eq_None_iff [symmetric] split: option.splits)
qed (simp add: dict_get_def)

lemma count_in_sum:
  "distinct (map fst acc) \<Longrightarrow> sum_list (map snd (count_in acc xs)) = sum_list (map snd acc) + length xs"
  by (induction xs arbitrary: acc) (auto simp: sum_update distinct_update)

section \<open>Properties\<close>



text \<open>
  The log analysis tool counts every record once: its levels are the distinct level texts of the
  records, each with its number of occurrences, and the counts add up to the number of records.
\<close>

lemma analyze_logs_counts:
  assumes "analyze_logs O' records = Inr j"
  shows "\<exists>ls levels. rmap (level_text O') records = Inr ls
    \<and> j = JObj [(u ''version'', JStr (u ''1'')), (u ''count'', JInt (int (length records))),
                (u ''levels'', JObj (map (\<lambda>(l, n). (l, JInt (int n))) levels))]
    \<and> distinct (map fst levels) \<and> fst ` set levels = set ls
    \<and> (\<forall>l. dict_get levels l 0 = count_list ls l)
    \<and> sum_list (map snd levels) = length records \<and> length records \<le> 100"
proof -
  obtain ls where ls: "rmap (level_text O') records = Inr ls" and n: "length records \<le> 100"
    and j: "j = JObj [(u ''version'', JStr (u ''1'')), (u ''count'', JInt (int (length records))),
                (u ''levels'', JObj (map (\<lambda>(l, n). (l, JInt (int n))) (counter ls)))]"
    using assms by (auto simp: analyze_logs_def rbind_eq_Inr split: if_splits)
  have "distinct (map fst (counter ls))" "fst ` set (counter ls) = set ls"
    "sum_list (map snd (counter ls)) = length records"
    using rmap_length[OF ls] by (simp_all add: counter_def count_in_distinct count_in_keys count_in_sum)
  with ls j n counter_get show ?thesis by (intro exI[of _ ls] exI[of _ "counter ls"]) simp
qed

lemma sample_analysis: "\<not> isl (analyze_logs sample_outside [JObj [(u ''level'', JStr (u ''WARN''))], JObj []])"
  by code_simp

lemma analyze_logs_counts_witness:
  "\<exists>levels. analyze_logs sample_outside [JObj [(u ''level'', JStr (u ''WARN''))], JObj []]
     = Inr (JObj [(u ''version'', JStr (u ''1'')), (u ''count'', JInt 2),
                (u ''levels'', JObj (map (\<lambda>(l, n). (l, JInt (int n))) levels))])
     \<and> sum_list (map snd levels) = 2"
proof -
  obtain j where j: "analyze_logs sample_outside [JObj [(u ''level'', JStr (u ''WARN''))], JObj []] = Inr j"
    using sample_analysis by (metis sumE sum.disc(1))
  from analyze_logs_counts[OF j] j show ?thesis by auto
qed

text \<open>
  The client and the tool fit together: with the repository's own server behind the protocol and
  the authorisation and the discovery event accepted, the client returns what the tool computes.
\<close>

lemma mcp_analyze_own:
  assumes "authorize O' r (u ''logs'') s = (Inr sc, s1)"
    and "event O' r (u ''mcp_discovery'') (JObj
       [(u ''server'', JStr (u ''log-analysis@1'')), (u ''tools'', strs [u ''analyze_logs'']),
        (u ''schema'', schema)]) s1 = (Inr ack, s2)"
    and "analyze_logs O' records = Inr j" and "readable fr j"
  shows "mcp_analyze O' fr r (own_server O' schema) records s = (Inr j, s2)"
proof -
  have "length records \<le> 100" using assms(3) by (auto simp: analyze_logs_def split: if_splits)
  then show ?thesis
    using assms(1,2,3) loads_dumps[OF assms(4), of False]
    by (simp add: mcp_analyze_def own_server_def sq_def bnd_def lift_def)
qed

definition mcp_outside :: outside where
  "mcp_outside = sample_outside\<lparr>api := \<lambda>_. Ok JNull\<rparr>"

definition mcp_state :: wstate where
  "mcp_state = snd (authorize mcp_outside \<lparr>rt_run = sample_run, started = 0\<rparr> (u ''logs'') sample_state)"

lemma mcp_sample:
  "\<not> isl (fst (authorize mcp_outside \<lparr>rt_run = sample_run, started = 0\<rparr> (u ''logs'') sample_state))"
  "\<not> isl (fst (event mcp_outside \<lparr>rt_run = sample_run, started = 0\<rparr> (u ''mcp_discovery'') (JObj
       [(u ''server'', JStr (u ''log-analysis@1'')), (u ''tools'', strs [u ''analyze_logs'']),
        (u ''schema'', JNull)]) mcp_state))"
  "analyze_logs mcp_outside [JObj []] = Inr (JObj [(u ''version'', JStr (u ''1'')), (u ''count'', JInt 1),
     (u ''levels'', JObj [(u ''UNKNOWN'', JInt 1)])])"
  by code_simp+

lemma mcp_analyze_own_witness:
  "\<exists>s2. mcp_analyze mcp_outside id \<lparr>rt_run = sample_run, started = 0\<rparr> (own_server mcp_outside JNull) [JObj []]
     sample_state = (Inr (JObj [(u ''version'', JStr (u ''1'')), (u ''count'', JInt 1),
     (u ''levels'', JObj [(u ''UNKNOWN'', JInt 1)])]), s2)"
proof -
  let ?r = "\<lparr>rt_run = sample_run, started = 0\<rparr>"
  obtain sc s1 where a: "authorize mcp_outside ?r (u ''logs'') sample_state = (Inr sc, s1)"
    using run_ok[OF mcp_sample(1)] by blast
  then have s1: "s1 = mcp_state" by (simp add: mcp_state_def)
  obtain ack s2 where e: "event mcp_outside ?r (u ''mcp_discovery'') (JObj
       [(u ''server'', JStr (u ''log-analysis@1'')), (u ''tools'', strs [u ''analyze_logs'']),
        (u ''schema'', JNull)]) s1 = (Inr ack, s2)"
    using run_ok[OF mcp_sample(2)] unfolding s1 by blast
  have "readable id (JObj [(u ''version'', JStr (u ''1'')), (u ''count'', JInt 1),
     (u ''levels'', JObj [(u ''UNKNOWN'', JInt 1)])])"
    by (simp add: u_def valid_char_def)
  from mcp_analyze_own[OF a e mcp_sample(3) this] show ?thesis ..
qed

end
