(* ===== verification/Context_Api.thy ===== *)
theory Context_Api
  imports Context
begin

text \<open>
  \<^verbatim>\<open>worker/incident_worker/context_api.py\<close>: the HTTP endpoint that assembles a bundle for another
  service. The framework turns an \<open>HTTPException\<close> into the response; any other exception is a 500.
\<close>

section \<open>health\<close>

definition api_health :: json where
  "api_health = JObj [(u ''ok'', JBool True)]"

section \<open>query\<close>

record api_env =
  internal_key :: str
  fromisoformat :: "str \<Rightarrow> datetime res"
  api_assembly :: assembly_env

definition service_identity_required :: exn where
  "service_identity_required = HTTPException 401 (u ''service_identity_required'')"

definition same_scope :: "RunContext \<Rightarrow> json \<Rightarrow> unit res" where
  "same_scope r sc =
     rbind (jget sc (u ''subject'')) (\<lambda>a. if a \<noteq> JStr (subject r) then Inl (PermissionError (u ''scope_mismatch''))
     else rbind (jget sc (u ''team'')) (\<lambda>b. if b \<noteq> JStr (team r) then Inl (PermissionError (u ''scope_mismatch''))
     else rbind (jget sc (u ''service'')) (\<lambda>c. if c \<noteq> JStr (service r) then Inl (PermissionError (u ''scope_mismatch''))
     else Inr ())))"

definition iso_time :: "api_env \<Rightarrow> json \<Rightarrow> str \<Rightarrow> datetime res" where
  "iso_time env sc k = rbind (jget sc k) (\<lambda>v. case v of JStr t \<Rightarrow> fromisoformat env t | _ \<Rightarrow> Inl TypeError)"

definition same_times :: "api_env \<Rightarrow> RunContext \<Rightarrow> json \<Rightarrow> unit res" where
  "same_times env r sc =
     rbind (iso_time env sc (u ''start'')) (\<lambda>t0.
     if \<not> dt_eq (start r) t0 then Inl (PermissionError (u ''time_scope_mismatch''))
     else rbind (iso_time env sc (u ''end'')) (\<lambda>t1.
     if \<not> dt_eq (end_time r) t1 then Inl (PermissionError (u ''time_scope_mismatch''))
     else Inr ()))"

text \<open>The \<open>except\<close> clauses.\<close>

definition api_error :: "exn \<Rightarrow> exn" where
  "api_error e = (case e of
     HTTPStatusError c \<Rightarrow>
       HTTPException (if c \<in> {401, 403, 409} then c else 502) (u ''scope_authorization_failed'')
   | PermissionError m \<Rightarrow> HTTPException 403 m
   | _ \<Rightarrow> e)"

definition api_bundle ::
    "outside \<Rightarrow> api_env \<Rightarrow> RunContext \<Rightarrow> QueryPlan option \<Rightarrow> rat \<Rightarrow> ContextBundle W" where
  "api_bundle O' env r p0 t0 =
     (let rt = \<lparr>rt_run = r, started = t0\<rparr> in
      bnd (authorize O' rt (u ''context'')) (\<lambda>sc.
      sq (lift (same_scope r sc))
      (sq (lift (same_times env r sc))
      (bnd (assemble O' (api_assembly env) (live_ops O' rt) p0 None) (\<lambda>(b, _). ret b)))))"

definition api_query ::
    "outside \<Rightarrow> api_env \<Rightarrow> RunContext \<Rightarrow> QueryPlan option \<Rightarrow> str \<Rightarrow> ContextBundle W" where
  "api_query O' env r p0 x_worker_key =
     (if x_worker_key \<noteq> internal_key env then raise service_identity_required
      else bnd (monotonic O') (\<lambda>t0.
        catch (api_bundle O' env r p0 t0) (\<lambda>e. raise (api_error e))))"

section \<open>Properties\<close>

text \<open>
  Without the service key the endpoint answers 401 and does nothing: no clock is read, no request
  is sent, no authorisation is spent.
\<close>

lemma api_query_unauthenticated:
  assumes "x_worker_key \<noteq> internal_key env"
  shows "api_query O' env r p0 x_worker_key s = (Inl (HTTPException 401 (u ''service_identity_required'')), s)"
  using assms by (simp add: api_query_def service_identity_required_def raise_def)

lemma api_query_unauthenticated_witness:
  "api_query sample_outside \<lparr>internal_key = u ''k'', fromisoformat = (\<lambda>_. Inl TypeError),
     api_assembly = sample_env\<rparr> sample_run None [] sample_state
   = (Inl (HTTPException 401 (u ''service_identity_required'')), sample_state)"
  by (rule api_query_unauthenticated) simp

lemma api_bundle_Inr:
  assumes "api_bundle O' env r p0 t0 s = (Inr b, t)"
  obtains sc s1 recs where "authorize O' \<lparr>rt_run = r, started = t0\<rparr> (u ''context'') s = (Inr sc, s1)"
    "same_scope r sc = Inr ()" "same_times env r sc = Inr ()"
    "assemble O' (api_assembly env) (live_ops O' \<lparr>rt_run = r, started = t0\<rparr>) p0 None s1 = (Inr (b, recs), t)"
  using assms unfolding api_bundle_def Let_def by (auto simp: bnd_Inr sq_Inr intro!: that)


definition granting :: outside where
  "granting = sample_outside\<lparr>model_json := \<lambda>_. [], api := \<lambda>_. Ok (JObj [(u ''subject'', JStr (u ''alice'')),
     (u ''team'', JStr (u ''core'')), (u ''service'', JStr (u ''svc-17'')), (u ''start'', JStr []), (u ''end'', JStr [])])\<rparr>"

definition granting_env :: api_env where
  "granting_env = \<lparr>internal_key = u ''k'', fromisoformat = (\<lambda>_. Inr sample_time), api_assembly = sample_env\<rparr>"

lemma granted:
  "\<not> isl (fst (api_query granting granting_env sample_run (Some sample_plan) (u ''k'') sample_state))"
  by code_simp



definition refusing :: outside where
  "refusing = sample_outside\<lparr>api := \<lambda>_. Status 403\<rparr>"

definition refusing_env :: api_env where
  "refusing_env = \<lparr>internal_key = u ''k'', fromisoformat = (\<lambda>_. Inl TypeError), api_assembly = sample_env\<rparr>"

lemma refused:
  "fst (api_bundle refusing refusing_env sample_run None (clock refusing (Monotonic # trace sample_state))
     (sample_state\<lparr>trace := Monotonic # trace sample_state\<rparr>)) = Inl (HTTPStatusError 403)"
  by code_simp


end
