(* ===== verification/Base64.thy ===== *)
theory Base64
  imports Prelude
begin

text \<open>
  \<open>base64.urlsafe_b64encode\<close> and \<open>urlsafe_b64decode\<close> of the standard library: the decoder ignores
  characters outside the alphabet, stops at complete padding, and rejects a text that ends inside
  a group.
\<close>

definition b64_char :: "int \<Rightarrow> int" where
  "b64_char v = (if v < 26 then 65 + v else if v < 52 then 71 + v else if v < 62 then v - 4
     else if v = 62 then 45 else 95)"

definition b64_value :: "int \<Rightarrow> int option" where
  "b64_value c = (if 65 \<le> c \<and> c \<le> 90 then Some (c - 65) else if 97 \<le> c \<and> c \<le> 122 then Some (c - 71)
     else if 48 \<le> c \<and> c \<le> 57 then Some (c + 4) else if c = 45 \<or> c = 43 then Some 62
     else if c = 95 \<or> c = 47 then Some 63 else None)"

fun b64_encode :: "int list \<Rightarrow> str" where
  "b64_encode [] = []"
| "b64_encode [a] = [b64_char (a div 4), b64_char (a mod 4 * 16), 61, 61]"
| "b64_encode [a, b] = [b64_char (a div 4), b64_char (a mod 4 * 16 + b div 16), b64_char (b mod 16 * 4), 61]"
| "b64_encode (a # b # c # r) =
     b64_char (a div 4) # b64_char (a mod 4 * 16 + b div 16) # b64_char (b mod 16 * 4 + c div 64)
     # b64_char (c mod 64) # b64_encode r"

text \<open>\<open>q\<close>: the position in the group of four; \<open>left\<close>: the bits not yet output.\<close>

fun b64_loop :: "nat \<Rightarrow> int \<Rightarrow> nat \<Rightarrow> int list \<Rightarrow> str \<Rightarrow> int list option" where
  "b64_loop q left pads acc [] = (if q = 0 then Some (rev acc) else None)"
| "b64_loop q left pads acc (c # s) =
     (if c = 61 then
        (if 2 \<le> q \<and> 4 \<le> q + pads + 1 then Some (rev acc)
         else b64_loop q left (if 2 \<le> q then pads + 1 else pads) acc s)
      else (case b64_value c of
          None \<Rightarrow> b64_loop q left pads acc s
        | Some v \<Rightarrow>
            if q = 0 then b64_loop 1 v 0 acc s
            else if q = 1 then b64_loop 2 (v mod 16) 0 ((left * 4 + v div 16) # acc) s
            else if q = 2 then b64_loop 3 (v mod 4) 0 ((left * 16 + v div 4) # acc) s
            else b64_loop 0 0 0 ((left * 64 + v) # acc) s))"

definition b64_decode :: "str \<Rightarrow> int list option" where
  "b64_decode s = b64_loop 0 0 0 [] s"

definition byte :: "int \<Rightarrow> bool" where
  "byte b \<longleftrightarrow> 0 \<le> b \<and> b < 256"

lemma b64_value_char: "0 \<le> v \<Longrightarrow> v < 64 \<Longrightarrow> b64_value (b64_char v) = Some v \<and> b64_char v \<noteq> 61"
  by (auto simp: b64_value_def b64_char_def)

lemma byte_div:
  assumes "byte b"
  shows "0 \<le> b div 16" "b div 16 < 16" "0 \<le> b div 64" "b div 64 < 4" "0 \<le> b div 4" "b div 4 < 64"
proof -
  have r: "0 \<le> b mod 16" "0 \<le> b mod 64" "0 \<le> b mod 4" by simp_all
  have b: "0 \<le> b" "b < 256" using assms by (simp_all add: byte_def)
  show "b div 16 < 16" "b div 64 < 4" "b div 4 < 64"
    using r b div_mult_mod_eq[of b 16] div_mult_mod_eq[of b 64] div_mult_mod_eq[of b 4] by linarith+
  show "0 \<le> b div 16" "0 \<le> b div 64" "0 \<le> b div 4"
    using b(1) by (simp_all add: pos_imp_zdiv_nonneg_iff)
qed

lemma high_low:
  fixes x y k :: int
  assumes "0 \<le> y" "y < k"
  shows "(x * k + y) div k = x \<and> (x * k + y) mod k = y"
  using assms by simp

lemma byte_parts:
  assumes "byte a" "byte b"
  shows "0 \<le> a div 4" "a div 4 < 64" "0 \<le> a mod 4 * 16 + b div 16" "a mod 4 * 16 + b div 16 < 64"
    "(a mod 4 * 16 + b div 16) div 16 = a mod 4" "(a mod 4 * 16 + b div 16) mod 16 = b div 16"
    "0 \<le> b mod 16 * 4" "b mod 16 * 4 < 64" "b mod 16 * 4 div 4 = b mod 16" "b mod 16 * 4 mod 4 = 0"
    "0 \<le> a mod 4 * 16" "a mod 4 * 16 < 64" "a mod 4 * 16 div 16 = a mod 4" "a mod 4 * 16 mod 16 = 0"
    "0 \<le> b mod 16 * 4 + a div 64" "b mod 16 * 4 + a div 64 < 64"
    "(b mod 16 * 4 + a div 64) div 4 = b mod 16" "(b mod 16 * 4 + a div 64) mod 4 = a div 64"
    "0 \<le> a mod 64" "a mod 64 < 64"
proof -
  have m: "0 \<le> a mod 4" "a mod 4 < 4" "0 \<le> b mod 16" "b mod 16 < 16" by simp_all
  have d: "0 \<le> b div 16" "b div 16 < 16" "0 \<le> a div 64" "a div 64 < 4" "0 \<le> a div 4" "a div 4 < 64"
    using assms byte_div by blast+
  show "0 \<le> a div 4" "a div 4 < 64" by (fact d)+
  show "0 \<le> a mod 4 * 16 + b div 16" "a mod 4 * 16 + b div 16 < 64"
    "0 \<le> b mod 16 * 4" "b mod 16 * 4 < 64" "0 \<le> a mod 4 * 16" "a mod 4 * 16 < 64"
    "0 \<le> b mod 16 * 4 + a div 64" "b mod 16 * 4 + a div 64 < 64"
    using m d by linarith+
  show "0 \<le> a mod 64" "a mod 64 < 64" by (rule pos_mod_sign, simp) (rule pos_mod_bound, simp)
  show "b mod 16 * 4 div 4 = b mod 16" "b mod 16 * 4 mod 4 = 0" "a mod 4 * 16 div 16 = a mod 4"
    "a mod 4 * 16 mod 16 = 0"
    by (rule nonzero_mult_div_cancel_right, simp, rule mod_mult_self2_is_0,
        rule nonzero_mult_div_cancel_right, simp, rule mod_mult_self2_is_0)
  show "(a mod 4 * 16 + b div 16) div 16 = a mod 4" "(a mod 4 * 16 + b div 16) mod 16 = b div 16"
    using high_low[OF d(1,2), of "a mod 4"] by blast+
  show "(b mod 16 * 4 + a div 64) div 4 = b mod 16" "(b mod 16 * 4 + a div 64) mod 4 = a div 64"
    using high_low[OF d(3,4), of "b mod 16"] by blast+
qed

lemma b64_step:
  assumes "0 \<le> v" "v < 64"
  shows "b64_loop 0 left pads acc (b64_char v # s) = b64_loop 1 v 0 acc s"
    "b64_loop 1 left pads acc (b64_char v # s) = b64_loop 2 (v mod 16) 0 ((left * 4 + v div 16) # acc) s"
    "b64_loop 2 left pads acc (b64_char v # s) = b64_loop 3 (v mod 4) 0 ((left * 16 + v div 4) # acc) s"
    "b64_loop 3 left pads acc (b64_char v # s) = b64_loop 0 0 0 ((left * 64 + v) # acc) s"
  using b64_value_char[OF assms] by simp_all

lemma b64_loop_encode:
  "list_all byte bs \<Longrightarrow> b64_loop 0 0 0 acc (b64_encode bs) = Some (rev acc @ bs)"
proof (induction bs arbitrary: acc rule: b64_encode.induct)
  case (2 a)
  then have a: "byte a" by simp
  note p = byte_parts[OF a a]
  have "b64_loop 0 0 0 acc (b64_encode [a]) = b64_loop 2 0 0 ((a div 4 * 4 + a mod 4) # acc) [61, 61]"
    using b64_step(1)[OF p(1,2)] b64_step(2)[OF p(11,12)] p(13,14)
    by (simp only: b64_encode.simps)
  then show ?case by (simp add: mult.commute)
next
  case (3 a b)
  then have a: "byte a" and b: "byte b" by simp_all
  note p = byte_parts[OF a b]
  have "b64_loop 0 0 0 acc (b64_encode [a, b])
      = b64_loop 3 0 0 ((b div 16 * 16 + b mod 16) # (a div 4 * 4 + a mod 4) # acc) [61]"
    using b64_step(1)[OF p(1,2)] b64_step(2)[OF p(3,4)] b64_step(3)[OF p(7,8)] p(5,6,9,10)
    by (simp only: b64_encode.simps)
  then show ?case by simp
next
  case (4 a b c r)
  then have a: "byte a" and b: "byte b" and c: "byte c" and r: "list_all byte r" by simp_all
  note p = byte_parts[OF a b]
  note q = byte_parts[OF c b]
  have "b64_loop 0 0 0 acc (b64_encode (a # b # c # r))
      = b64_loop 0 0 0 ((c div 64 * 64 + c mod 64) # (b div 16 * 16 + b mod 16) # (a div 4 * 4 + a mod 4) # acc)
          (b64_encode r)"
    using b64_step(1)[OF p(1,2)] b64_step(2)[OF p(3,4)] b64_step(3)[OF q(15,16)] b64_step(4)[OF q(19,20)]
      p(5,6) q(17,18) by (simp only: b64_encode.simps)
  then show ?case using 4(1)[OF r] by simp
qed simp

lemma b64_roundtrip: "list_all byte bs \<Longrightarrow> b64_decode (b64_encode bs) = Some bs"
  by (simp add: b64_decode_def b64_loop_encode)

lemma b64_char_printable: "0 \<le> v \<Longrightarrow> v < 64 \<Longrightarrow> 32 \<le> b64_char v \<and> b64_char v \<le> 126"
  by (auto simp: b64_char_def)

end
