(* ===== verification/Log_Store.thy ===== *)
theory Log_Store
  imports Json_Parse Base64 Regex
begin

text \<open>
  \<^verbatim>\<open>demo/log_store.py\<close>: the catalog and the bounded, severity-stratified log query with its keyset
  cursor, over the rows of the log table. A row's payload is held parsed. What SQLite itself
  decides is the record \<open>engine\<close>: whether the full-text index matches an expression, the order of
  an unordered scan, the text \<open>json_extract\<close> gives for a number or a nested value; and
  \<open>fromisoformat\<close> with \<open>astimezone\<close>.
\<close>

section \<open>Rows and severity\<close>

record log_row =
  lr_id :: int
  lr_service :: str
  lr_time :: str
  lr_payload :: json

record engine =
  fts_match :: "str \<Rightarrow> json \<Rightarrow> bool"
  scan_order :: "log_row list \<Rightarrow> log_row list"
  json_text :: "json \<Rightarrow> str"
  utc_iso :: "str \<Rightarrow> str res"
  float_repr :: "str \<Rightarrow> str"

definition ERROR_LEVELS :: "str list" where
  "ERROR_LEVELS = map u [''ERROR'', ''FATAL'', ''SEVERE'', ''FAILURE'', ''WARN'', ''WARNING'',
     ''CRITICAL'', ''ALERT'', ''EMERG'']"

definition ALL_LEVELS :: "str list" where
  "ALL_LEVELS = ERROR_LEVELS @ map u [''INFO'', ''DEBUG'', ''TRACE'', ''UNKNOWN'']"

text \<open>\<open>json_extract(payload,'$.k')\<close>.\<close>

definition json_extract :: "str \<Rightarrow> json \<Rightarrow> json" where
  "json_extract k p = (case p of JObj d \<Rightarrow> dict_get d k JNull | _ \<Rightarrow> JNull)"

text \<open>The expression \<open>LEVEL\<close>.\<close>

definition LEVEL :: "engine \<Rightarrow> log_row \<Rightarrow> str" where
  "LEVEL E r = map ascii_upper (case json_extract (u ''level'') (lr_payload r) of
     JNull \<Rightarrow> u ''UNKNOWN'' | JStr t \<Rightarrow> t | v \<Rightarrow> json_text E v)"

definition row_key :: "log_row \<Rightarrow> str \<times> int" where
  "row_key r = (lr_time r, lr_id r)"

section \<open>catalog\<close>

definition first_row :: "log_row list \<Rightarrow> str \<Rightarrow> log_row option" where
  "first_row rows svc = (case sort_key row_key (filter (\<lambda>r. lr_service r = svc) rows) of
     [] \<Rightarrow> None | r # _ \<Rightarrow> Some r)"

definition last_row :: "log_row list \<Rightarrow> str \<Rightarrow> log_row option" where
  "last_row rows svc = (case rev (sort_key row_key (filter (\<lambda>r. lr_service r = svc) rows)) of
     [] \<Rightarrow> None | r # _ \<Rightarrow> Some r)"

definition opt_str :: "str option \<Rightarrow> json" where
  "opt_str v = (case v of None \<Rightarrow> JNull | Some t \<Rightarrow> JStr t)"

definition provenance_of :: "json \<Rightarrow> str res" where
  "provenance_of payload = rbind (jget_opt payload (u ''dataset'')) (\<lambda>d.
     Inr (if truthy d then u ''public-dataset'' else u ''local-demo''))"

definition catalog_entry :: "log_row list \<Rightarrow> str \<Rightarrow> json res" where
  "catalog_entry rows svc =
     (let first = first_row rows svc;
          payload = (case first of None \<Rightarrow> JObj [] | Some r \<Rightarrow> lr_payload r)
      in rbind (jget_opt payload (u ''dataset'')) (\<lambda>d.
         rbind (jget_opt payload (u ''service_name'')) (\<lambda>n.
         rbind (provenance_of payload) (\<lambda>prov.
         Inr (JObj [(u ''id'', JStr svc), (u ''aliases'', JList (filter truthy [d, n])),
           (u ''available_from'', opt_str (map_option lr_time first)),
           (u ''available_to'', opt_str (map_option lr_time (last_row rows svc))),
           (u ''provenance'', JStr prov)])))))"

definition catalog :: "log_row list \<Rightarrow> str list \<Rightarrow> json list res" where
  "catalog rows services = rmap (catalog_entry rows) services"

section \<open>The query specification\<close>

record log_spec =
  q_terms :: "str list"
  q_levels :: "str list"
  q_mode :: str

definition invalid_log_query :: exn where
  "invalid_log_query = ValueError (u ''invalid_log_query'')"

definition invalid_levels :: exn where
  "invalid_levels = ValueError (u ''invalid_levels'')"

definition invalid_cursor :: exn where
  "invalid_cursor = ValueError (u ''invalid_cursor'')"

definition good_term :: "json \<Rightarrow> bool" where
  "good_term t = (case t of JStr s \<Rightarrow> 1 \<le> length s \<and> length s \<le> 100 | _ \<Rightarrow> False)"

definition text_of :: "json \<Rightarrow> str" where
  "text_of j = (case j of JStr s \<Rightarrow> s | _ \<Rightarrow> [])"

definition parse_spec :: "json \<Rightarrow> log_spec res" where
  "parse_spec spec =
     rbind (jget_def spec (u ''terms'') (JList [])) (\<lambda>ts.
     rbind (jget_def spec (u ''levels'') (JList [])) (\<lambda>ls.
     rbind (jget_def spec (u ''mode'') (JStr (u ''anomalies''))) (\<lambda>m.
     if \<not> hashable m then Inl TypeError
     else if m \<notin> JStr ` set (map u [''anomalies'', ''search'', ''all'']) then Inl invalid_log_query
     else rbind (json_len ts) (\<lambda>nt.
     if nt > 6 then Inl invalid_log_query
     else rbind (as_list ts) (\<lambda>tl'.
     if \<not> list_all good_term tl' then Inl invalid_log_query
     else rbind (json_len ls) (\<lambda>nl.
     if nl > 12 then Inl invalid_levels
     else rbind (as_list ls) (\<lambda>ll.
     if \<not> list_all (\<lambda>v. v \<in> JStr ` set ALL_LEVELS) ll then Inl invalid_levels
     else Inr \<lparr>q_terms = map text_of tl', q_levels = map text_of ll, q_mode = text_of m\<rparr>)))))))"

text \<open>\<open>value.replace("Z", "+00:00")\<close>, then UTC.\<close>

definition canonical :: "engine \<Rightarrow> json \<Rightarrow> str res" where
  "canonical E v = (case v of
     JStr t \<Rightarrow> utc_iso E (concat (map (\<lambda>c. if c = 90 then u ''+00:00'' else [c]) t))
   | _ \<Rightarrow> Inl AttributeError)"

text \<open>The FTS expression: every term quoted, joined by \<open>OR\<close>.\<close>

definition fts_expression :: "str list \<Rightarrow> str" where
  "fts_expression ts = join (u '' OR '')
     (map (\<lambda>t. [34] @ concat (map (\<lambda>c. if c = 34 then [34, 34] else [c]) t) @ [34]) ts)"

record log_scope =
  s_service :: str
  s_start :: str
  s_end :: str

definition in_query :: "engine \<Rightarrow> log_scope \<Rightarrow> log_spec \<Rightarrow> log_row \<Rightarrow> bool" where
  "in_query E sc q r \<longleftrightarrow> lr_service r = s_service sc \<and> s_start sc \<le> lr_time r \<and> lr_time r \<le> s_end sc
     \<and> (q_terms q \<noteq> [] \<longrightarrow> fts_match E (fts_expression (q_terms q)) (json_extract (u ''message'') (lr_payload r)))"

section \<open>Counting and partitions\<close>

definition histogram :: "engine \<Rightarrow> log_row list \<Rightarrow> (str \<times> nat) list" where
  "histogram E rows = (let ls = map (LEVEL E) rows in
     map (\<lambda>l. (l, count_list ls l)) (sort (remdups ls)))"

definition selected_levels :: "log_spec \<Rightarrow> str list" where
  "selected_levels q = (if q_levels q \<noteq> [] then q_levels q
     else if q_mode q = u ''anomalies'' \<and> q_terms q = [] then ERROR_LEVELS else [])"

definition matched_count :: "log_spec \<Rightarrow> (str \<times> nat) list \<Rightarrow> nat" where
  "matched_count q h = (if selected_levels q \<noteq> []
     then sum_list (map (\<lambda>l. dict_get h l 0) (selected_levels q)) else sum_list (map snd h))"

text \<open>An anomaly query that matches nothing falls back to every level.\<close>

definition falls_back :: "log_spec \<Rightarrow> (str \<times> nat) list \<Rightarrow> bool" where
  "falls_back q h \<longleftrightarrow> q_mode q = u ''anomalies'' \<and> q_levels q = [] \<and> matched_count q h = 0"

definition partitions :: "log_spec \<Rightarrow> (str \<times> nat) list \<Rightarrow> str list" where
  "partitions q h =
     (if falls_back q h then sort (map fst h)
      else if selected_levels q \<noteq> [] then selected_levels q
      else sort_key (\<lambda>l. (l \<notin> set ERROR_LEVELS, l)) (map fst h))"

definition chosen :: "engine \<Rightarrow> log_spec \<Rightarrow> (str \<times> nat) list \<Rightarrow> log_row \<Rightarrow> bool" where
  "chosen E q h r \<longleftrightarrow> selected_levels q \<noteq> [] \<and> \<not> falls_back q h \<longrightarrow> LEVEL E r \<in> set (selected_levels q)"

section \<open>Rare patterns\<close>

fun split_last :: "nat \<Rightarrow> str \<Rightarrow> str" where
  "split_last 0 s = s"
| "split_last (Suc n) s = (case dropWhile (\<lambda>c. c \<noteq> 32) s of [] \<Rightarrow> s | _ # r \<Rightarrow> split_last n r)"

definition is_hex :: "int \<Rightarrow> bool" where
  "is_hex c \<longleftrightarrow> is_digit c \<or> 97 \<le> c \<and> c \<le> 102 \<or> 65 \<le> c \<and> c \<le> 70"

definition number_pattern :: re where
  "number_pattern = alts
     [cats [lit (u ''0x''), Rep is_hex 1 None],
      cats [lit (u ''blk_''), Opt (lit (u ''-'')), Rep is_decimal 1 None],
      Rep is_decimal 1 None]"

definition signature_of :: "json \<Rightarrow> str res" where
  "signature_of payload =
     rbind (jget_def payload (u ''message'') (JStr [])) (\<lambda>m.
     rbind (jget_opt payload (u ''dataset'')) (\<lambda>d.
     case m of
       JStr t \<Rightarrow>
         let t' = (if d = JStr (u ''BGL'') then split_last 8 t
                   else if d = JStr (u ''HDFS'') then split_last 5 t else t)
         in Inr (take 500 (sub number_pattern (\<lambda>_ _. u ''#'') t'))
     | _ \<Rightarrow> Inl (if d = JStr (u ''BGL'') \<or> d = JStr (u ''HDFS'') then AttributeError else TypeError)))"

text \<open>The groups, in the order of their first row; each has its size and its first row.\<close>

type_synonym groups = "(str \<times> (nat \<times> log_row)) list"

definition add_group :: "log_row \<Rightarrow> groups \<Rightarrow> groups res" where
  "add_group r g = rbind (signature_of (lr_payload r)) (\<lambda>sg.
     Inr (case map_of g sg of
       None \<Rightarrow> AList.update sg (1, r) g
     | Some (n, r0) \<Rightarrow> AList.update sg (n + 1, r0) g))"

definition rare_rows :: "engine \<Rightarrow> nat \<Rightarrow> log_row list \<Rightarrow> log_row list res" where
  "rare_rows E lim rows = rbind (rfold add_group (scan_order E rows) []) (\<lambda>g.
     Inr (map snd (take (max 1 (lim div 2)) (sort_key (\<lambda>(n, r). (n, lr_id r)) (map snd g)))))"

section \<open>The cursor\<close>

definition read_cursor :: "engine \<Rightarrow> str option \<Rightarrow> (str \<times> json) list res" where
  "read_cursor E cursor = (case cursor of
     None \<Rightarrow> Inr []
   | Some c \<Rightarrow>
      if c = [] then Inr []
      else if length c > 4096 then Inl invalid_cursor
      else (case encode c of Inl _ \<Rightarrow> Inl invalid_cursor | Inr bytes \<Rightarrow>
        (case b64_decode bytes of None \<Rightarrow> Inl invalid_cursor | Some raw \<Rightarrow>
          (case loads_bytes (float_repr E) raw of Inr (JObj d) \<Rightarrow> Inr d | _ \<Rightarrow> Inl invalid_cursor))))"

text \<open>\<open>isinstance(n, int)\<close>, which a bool is too.\<close>

definition int_of :: "json \<Rightarrow> int option" where
  "int_of j = (case j of JInt i \<Rightarrow> Some i | JBool b \<Rightarrow> Some (if b then 1 else 0) | _ \<Rightarrow> None)"

definition featured_of :: "(str \<times> json) list \<Rightarrow> int list res" where
  "featured_of positions = (case dict_get positions (u ''_featured'') (JList []) of
     JList xs \<Rightarrow> if length xs > 50 \<or> list_ex (\<lambda>x. int_of x = None) xs then Inl invalid_cursor
       else Inr (map (the \<circ> int_of) xs)
   | _ \<Rightarrow> Inl invalid_cursor)"

definition position_of :: "str \<Rightarrow> (str \<times> json) list \<Rightarrow> str \<Rightarrow> (str \<times> int) res" where
  "position_of t0 positions l = (case dict_get positions l (JList [JStr t0, JInt 0]) of
     JList [JStr t, i] \<Rightarrow> (case int_of i of None \<Rightarrow> Inl invalid_cursor | Some n \<Rightarrow>
        if n < - (2 ^ 63) \<or> 2 ^ 63 \<le> n then Inl OverflowError else Inr (t, n))
   | _ \<Rightarrow> Inl invalid_cursor)"

definition write_cursor :: "(str \<times> json) list \<Rightarrow> str" where
  "write_cursor d = b64_encode (dumps True (JObj d))"

section \<open>One page\<close>

definition row_json :: "str \<Rightarrow> log_row \<Rightarrow> json" where
  "row_json svc r = JObj [(u ''id'', JStr (dec (lr_id r))), (u ''event_time'', JStr (lr_time r)),
     (u ''content'', lr_payload r), (u ''locator'', JStr (u ''logs://'' @ svc @ u ''/'' @ dec (lr_id r))),
     (u ''version'', JStr (dec (lr_id r))), (u ''deleted'', JBool False)]"

record page_state =
  p_records :: "log_row list"
  p_next :: "(str \<times> json) list"
  p_more :: bool

text \<open>The rows of one level after a position, in key order.\<close>

definition level_rows :: "engine \<Rightarrow> log_row list \<Rightarrow> str \<Rightarrow> str \<times> int \<Rightarrow> log_row list" where
  "level_rows E rows l pos =
     sort_key row_key (filter (\<lambda>r. LEVEL E r = l \<and> pos < row_key r) rows)"

definition take_level ::
    "log_row list \<Rightarrow> nat \<Rightarrow> str \<Rightarrow> int list \<Rightarrow> page_state \<Rightarrow> page_state" where
  "take_level found n l featured p =
     \<lparr>p_records = p_records p @ filter (\<lambda>r. lr_id r \<notin> set featured) (take n found),
      p_next = (case rev (take n found) of [] \<Rightarrow> p_next p
        | r # _ \<Rightarrow> AList.update l (JList [JStr (lr_time r), JInt (lr_id r)]) (p_next p)),
      p_more = (p_more p \<or> length found > n)\<rparr>"

definition page_level ::
    "engine \<Rightarrow> log_row list \<Rightarrow> str \<Rightarrow> (str \<times> json) list \<Rightarrow> int list \<Rightarrow> nat \<Rightarrow> nat \<Rightarrow> str \<Rightarrow>
     page_state \<Rightarrow> page_state res" where
  "page_level E rows t0 positions featured quota lim l p =
     rbind (position_of t0 positions l) (\<lambda>pos.
     let n = min quota (lim - length (p_records p)) in
     if n = 0 then Inr (p\<lparr>p_more := True\<rparr>)
     else Inr (take_level (take (n + 1) (level_rows E rows l pos)) n l featured p))"

text \<open>\<open>limit = max(1, min(100, int(limit)))\<close>.\<close>

definition page_limit :: "int \<Rightarrow> nat" where
  "page_limit lim = nat (max 1 (min 100 lim))"

record log_page =
  pg_records :: "log_row list"
  pg_cursor :: "str option"
  pg_total :: nat
  pg_matched :: nat
  pg_levels :: "(str \<times> nat) list"
  pg_scan :: nat

definition positions_absent :: "str option \<Rightarrow> bool" where
  "positions_absent cursor \<longleftrightarrow> (case cursor of None \<Rightarrow> True | Some c \<Rightarrow> c = [])"

definition query_page ::
    "engine \<Rightarrow> log_row list \<Rightarrow> log_scope \<Rightarrow> log_spec \<Rightarrow> nat \<Rightarrow> str option \<Rightarrow> log_page res" where
  "query_page E table sc q lim cursor =
     (let base = filter (in_query E sc q) table;
          h = histogram E base;
          total = sum_list (map snd h);
          hits = matched_count q h;
          rows = filter (chosen E q h) base
      in rbind (read_cursor E cursor) (\<lambda>positions.
         rbind (featured_of positions) (\<lambda>featured0.
         let rare_page = (positions_absent cursor \<and> q_mode q = u ''anomalies'' \<and> q_terms q = []
               \<and> 0 < hits \<and> hits \<le> 10000)
         in rbind (if rare_page then rare_rows E lim rows else Inr []) (\<lambda>rare.
         let featured = (if rare_page then map lr_id rare else featured0);
             next0 = (if rare_page then AList.update (u ''_featured'') (JList (map JInt featured)) positions
                      else positions);
             eligible = filter (\<lambda>l. dict_get h l 0 \<noteq> 0) (partitions q h);
             quota = max 1 ((lim - length rare) div max 1 (length eligible))
         in rbind (rfold (page_level E rows (s_start sc) positions featured quota lim) eligible
                \<lparr>p_records = rare, p_next = next0, p_more = False\<rparr>) (\<lambda>p.
            Inr \<lparr>pg_records = p_records p,
              pg_cursor = (if p_more p then Some (write_cursor (p_next p)) else None),
              pg_total = total, pg_matched = hits, pg_levels = h,
              pg_scan = (if rare_page then length rows else 0)\<rparr>)))))"

section \<open>query\<close>

definition page_json :: "log_scope \<Rightarrow> log_spec \<Rightarrow> str \<Rightarrow> log_page \<Rightarrow> json" where
  "page_json sc q prov p = JObj
     [(u ''records'', JList (map (row_json (s_service sc)) (pg_records p))),
      (u ''next_cursor'', opt_str (pg_cursor p)),
      (u ''summary'', JObj
        [(u ''total_in_query'', JInt (int (pg_total p))), (u ''matched'', JInt (int (pg_matched p))),
         (u ''levels'', JObj (map (\<lambda>(l, n). (l, JInt (int n))) (pg_levels p))),
         (u ''selection'', JStr (u ''rare-patterns-and-severity-keyset'')),
         (u ''template_scan'', JInt (int (pg_scan p))), (u ''terms'', strs (q_terms q)),
         (u ''mode'', JStr (q_mode q)), (u ''labels_used'', JBool False)]),
      (u ''provenance'', JStr prov)]"

definition log_query ::
    "engine \<Rightarrow> log_row list \<Rightarrow> json \<Rightarrow> json \<Rightarrow> int \<Rightarrow> str option \<Rightarrow> json res" where
  "log_query E table sc spec lim cursor =
     rbind (parse_spec spec) (\<lambda>q.
     rbind (rbind (jget sc (u ''start'')) (canonical E)) (\<lambda>t0.
     rbind (rbind (jget sc (u ''end'')) (canonical E)) (\<lambda>t1.
     rbind (rbind (jget sc (u ''service'')) as_str) (\<lambda>svc.
     let scp = \<lparr>s_service = svc, s_start = t0, s_end = t1\<rparr> in
     rbind (query_page E table scp q (page_limit lim) cursor) (\<lambda>p.
     rbind (catalog_entry table svc) (\<lambda>entry.
     rbind (rbind (jget entry (u ''provenance'')) as_str) (\<lambda>prov.
     Inr (page_json scp q prov p))))))))"

section \<open>Counting\<close>

lemma sum_indicator:
  "distinct ks \<Longrightarrow> sum_list (map (\<lambda>k. if x = k then 1 else 0 :: nat) ks) = (if x \<in> set ks then 1 else 0)"
  by (induction ks) auto

lemma sum_count_remdups:
  "distinct ks \<Longrightarrow> set ls \<subseteq> set ks \<Longrightarrow> sum_list (map (count_list ls) ks) = length ls"
proof (induction ls)
  case (Cons x ls)
  have "sum_list (map (\<lambda>k. (if x = k then 1 else 0 :: nat)) ks) = 1"
    using Cons.prems sum_indicator[of ks x] by simp
  moreover have "count_list (x # ls) = (\<lambda>k. (if x = k then 1 else 0) + count_list ls k)" by auto
  then have "sum_list (map (count_list (x # ls)) ks)
      = sum_list (map (\<lambda>k. (if x = k then 1 else 0)) ks) + sum_list (map (count_list ls) ks)"
    by (simp only: sum_list_addf)
  ultimately show ?case using Cons by (simp del: count_list.simps)
qed (simp add: sum_list_0)

lemma histogram_get: "dict_get (histogram E rows) l 0 = length (filter (\<lambda>r. LEVEL E r = l) rows)"
proof -
  let ?ls = "map (LEVEL E) rows"
  have "map_of (map (\<lambda>l. (l, count_list ?ls l)) ks) l
      = (if l \<in> set ks then Some (count_list ?ls l) else None)" for ks
    by (induction ks) auto
  moreover have "count_list ?ls l = length (filter (\<lambda>r. LEVEL E r = l) rows)"
    by (induction rows) auto
  ultimately show ?thesis
    by (auto simp: histogram_def Let_def dict_get_def filter_empty_conv)
qed

lemma histogram_total: "sum_list (map snd (histogram E rows)) = length rows"
proof -
  let ?ls = "map (LEVEL E) rows"
  have "map snd (histogram E rows) = map (count_list ?ls) (sort (remdups ?ls))"
    by (simp add: histogram_def Let_def)
  then show ?thesis using sum_count_remdups[of "sort (remdups ?ls)" ?ls] by simp
qed

lemma length_filter_disjoint:
  "distinct ls \<Longrightarrow> sum_list (map (\<lambda>l. length (filter (\<lambda>r. f r = l) xs)) ls) = length (filter (\<lambda>r. f r \<in> set ls) xs)"
proof (induction ls)
  case (Cons l ls)
  have "length (filter (\<lambda>r. f r \<in> set (l # ls)) xs)
      = length (filter (\<lambda>r. f r = l) xs) + length (filter (\<lambda>r. f r \<in> set ls) xs)"
    using Cons.prems by (induction xs) auto
  with Cons show ?case by simp
qed simp

lemma matched_count_rows:
  assumes "distinct (q_levels q)" and "\<not> falls_back q (histogram E base)"
  shows "matched_count q (histogram E base) = length (filter (chosen E q (histogram E base)) base)"
proof (cases "selected_levels q = []")
  case True
  then have "filter (chosen E q (histogram E base)) base = base" by (simp add: chosen_def)
  then show ?thesis by (simp add: True matched_count_def histogram_total)
next
  case False
  have "distinct ERROR_LEVELS" by (simp add: ERROR_LEVELS_def)
  then have "distinct (selected_levels q)" using assms(1) by (simp add: selected_levels_def)
  moreover have "chosen E q (histogram E base) = (\<lambda>r. LEVEL E r \<in> set (selected_levels q))"
    using False assms(2) by (auto simp: chosen_def)
  ultimately show ?thesis
    using length_filter_disjoint[of "selected_levels q" "LEVEL E" base] False
    by (simp add: matched_count_def histogram_get)
qed

section \<open>Pages stay in scope and within the limit\<close>

lemma set_update_subset: "set (AList.update k v d) \<subseteq> insert (k, v) (set d)"
  by (induction d) auto

lemma rare_rows_subset:
  assumes "rare_rows E lim rows = Inr rs" and scan: "\<And>xs. set (scan_order E xs) \<subseteq> set xs"
  shows "set rs \<subseteq> set rows" "length rs \<le> max 1 (lim div 2)"
proof -
  obtain g where g: "rfold add_group (scan_order E rows) [] = Inr g"
    and rs: "rs = map snd (take (max 1 (lim div 2)) (sort_key (\<lambda>(n, r). (n, lr_id r)) (map snd g)))"
    using assms(1) by (auto simp: rare_rows_def rbind_eq_Inr)
  have "\<forall>e \<in> set g. snd (snd e) \<in> set rows"
  proof (rule rfold_inv[OF g])
    fix r g g'
    assume r: "r \<in> set (scan_order E rows)" and g: "\<forall>e \<in> set g. snd (snd e) \<in> set rows"
      and step: "add_group r g = Inr g'"
    have upd: "\<forall>e \<in> set (AList.update k (n, x) g). snd (snd e) \<in> set rows" if "x \<in> set rows" for k n x
    proof
      fix e assume "e \<in> set (AList.update k (n, x) g)"
      then consider "e = (k, (n, x))" | "e \<in> set g" using set_update_subset[of k "(n, x)" g] by blast
      then show "snd (snd e) \<in> set rows"
      proof cases
        case 2
        then show ?thesis by (rule bspec[OF g])
      qed (simp add: that)
    qed
    have r': "r \<in> set rows" using r scan by blast
    from step obtain sg where g': "g' = (case map_of g sg of None \<Rightarrow> AList.update sg (1, r) g
        | Some (n, r0) \<Rightarrow> AList.update sg (n + 1, r0) g)"
      by (auto simp: add_group_def rbind_eq_Inr)
    show "\<forall>e \<in> set g'. snd (snd e) \<in> set rows"
    proof (cases "map_of g sg")
      case None
      then show ?thesis using g' upd[OF r'] by simp
    next
      case (Some p)
      obtain n r0 where p: "p = (n, r0)" by (cases p)
      have "r0 \<in> set rows" using map_of_SomeD[OF Some] g p by force
      then show ?thesis using g' Some p upd by simp
    qed
  qed simp
  moreover have "set rs \<subseteq> snd ` snd ` set g" by (force simp: rs dest!: in_set_takeD)
  ultimately show "set rs \<subseteq> set rows" by (auto simp only: image_iff)
  show "length rs \<le> max 1 (lim div 2)" by (simp add: rs)
qed

definition page_ok :: "log_row list \<Rightarrow> nat \<Rightarrow> page_state \<Rightarrow> bool" where
  "page_ok rows lim p \<longleftrightarrow> set (p_records p) \<subseteq> set rows \<and> length (p_records p) \<le> lim"

lemma page_level_ok:
  assumes "page_level E rows t0 positions featured quota lim l p = Inr p'" and "page_ok rows lim p"
  shows "page_ok rows lim p'"
proof -
  let ?n = "min quota (lim - length (p_records p))"
  obtain pos where p': "p' = (if ?n = 0 then p\<lparr>p_more := True\<rparr>
      else take_level (take (?n + 1) (level_rows E rows l pos)) ?n l featured p)"
    using assms(1) unfolding page_level_def Let_def rbind_eq_Inr by (metis sum.inject(2))
  let ?new = "filter (\<lambda>r. lr_id r \<notin> set featured) (take ?n (take (?n + 1) (level_rows E rows l pos)))"
  have "set ?new \<subseteq> set rows" by (auto simp: level_rows_def dest!: in_set_takeD)
  moreover have "length ?new \<le> ?n" by (rule order_trans[OF length_filter_le]) (simp only: length_take min.cobounded2)
  ultimately show ?thesis using assms(2) p' by (auto simp: page_ok_def take_level_def)
qed

text \<open>The engine may scan in any order, but it scans the rows it has.\<close>

definition scans :: "engine \<Rightarrow> bool" where
  "scans E \<longleftrightarrow> (\<forall>xs. set (scan_order E xs) \<subseteq> set xs)"

lemma query_page_ok:
  assumes "query_page E table sc q lim cursor = Inr p" and "scans E" and "0 < lim"
  shows "set (pg_records p) \<subseteq> set (filter (chosen E q (pg_levels p)) (filter (in_query E sc q) table))"
    "length (pg_records p) \<le> lim" "pg_levels p = histogram E (filter (in_query E sc q) table)"
    "pg_total p = length (filter (in_query E sc q) table)" "pg_matched p = matched_count q (pg_levels p)"
proof -
  let ?base = "filter (in_query E sc q) table"
  let ?h = "histogram E ?base"
  let ?rows = "filter (chosen E q ?h) ?base"
  obtain positions featured0 rare next0 featured quota pst b where
    rare: "(if b then rare_rows E lim ?rows else Inr []) = Inr rare"
    and run: "rfold (page_level E ?rows (s_start sc) positions featured quota lim)
        (filter (\<lambda>l. dict_get ?h l 0 \<noteq> 0) (partitions q ?h)) \<lparr>p_records = rare, p_next = next0, p_more = False\<rparr> = Inr pst"
    and p: "pg_records p = p_records pst" "pg_total p = sum_list (map snd ?h)" "pg_matched p = matched_count q ?h"
      "pg_levels p = ?h"
    using assms(1) unfolding query_page_def Let_def rbind_eq_Inr
    by (elim exE conjE) (erule that, assumption, auto)
  have "set rare \<subseteq> set ?rows" "length rare \<le> lim"
    using rare rare_rows_subset[of E lim ?rows rare] assms(2,3) by (auto simp: scans_def split: if_splits)
  then have "page_ok ?rows lim \<lparr>p_records = rare, p_next = next0, p_more = False\<rparr>"
    by (simp add: page_ok_def)
  then have "page_ok ?rows lim pst" by (rule rfold_inv[OF run]) (rule page_level_ok)
  then show "set (pg_records p) \<subseteq> set (filter (chosen E q (pg_levels p)) ?base)" "length (pg_records p) \<le> lim"
    by (simp_all only: page_ok_def p)
  show "pg_levels p = ?h" "pg_total p = length ?base" "pg_matched p = matched_count q (pg_levels p)"
    by (simp_all only: p histogram_total)
qed
section \<open>Keyset pages\<close>

definition level_class :: "engine \<Rightarrow> log_row list \<Rightarrow> str \<Rightarrow> log_row list" where
  "level_class E rows l = sort_key row_key (filter (\<lambda>r. LEVEL E r = l) rows)"

lemma level_rows_filter:
  "level_rows E rows l pos = filter (\<lambda>r. pos < row_key r) (level_class E rows l)"
  by (simp add: level_rows_def level_class_def filter_sort [symmetric] filter_filter conj_commute
      cong: filter_cong)

lemma level_rows_after:
  assumes "distinct (map row_key rows)" and "level_rows E rows l pos = xs @ r # ys"
  shows "level_rows E rows l (row_key r) = ys"
proof -
  let ?c = "level_rows E rows l pos"
  have "sorted (map row_key ?c)" by (simp add: level_rows_def)
  moreover have "distinct (map row_key ?c)"
    using assms(1) by (simp add: level_rows_def distinct_map inj_on_def)
  ultimately have lt: "\<forall>x \<in> set xs. row_key x < row_key r" "\<forall>y \<in> set ys. row_key r < row_key y"
    unfolding assms(2) by (auto simp: sorted_append less_le) (metis image_eqI)+
  have "pos < row_key r"
  proof -
    have "r \<in> set ?c" by (simp add: assms(2))
    then show ?thesis by (simp add: level_rows_def)
  qed
  then have "level_rows E rows l (row_key r) = filter (\<lambda>x. row_key r < row_key x) ?c"
    unfolding level_rows_filter by (auto simp: filter_filter intro!: filter_cong)
  also have "\<dots> = ys"
    unfolding assms(2) using lt by (auto simp: filter_empty_conv intro!: filter_True)
  finally show ?thesis .
qed

text \<open>One page of a level and the position it leaves; the pages of a sequence of sizes.\<close>

definition next_pos :: "log_row list \<Rightarrow> str \<times> int \<Rightarrow> str \<times> int" where
  "next_pos page pos = (case rev page of [] \<Rightarrow> pos | r # _ \<Rightarrow> row_key r)"

fun level_pages :: "engine \<Rightarrow> log_row list \<Rightarrow> str \<Rightarrow> str \<times> int \<Rightarrow> nat list \<Rightarrow> log_row list list" where
  "level_pages E rows l pos [] = []"
| "level_pages E rows l pos (n # ns) =
     (let page = take n (level_rows E rows l pos)
      in page # level_pages E rows l (next_pos page pos) ns)"

lemma page_rest:
  assumes "distinct (map row_key rows)"
  shows "level_rows E rows l pos
    = take n (level_rows E rows l pos) @ level_rows E rows l (next_pos (take n (level_rows E rows l pos)) pos)"
proof -
  let ?c = "level_rows E rows l pos"
  show ?thesis
  proof (cases "rev (take n ?c)")
    case Nil
    then have "take n ?c = []" by simp
    then show ?thesis by (simp only: next_pos_def rev.simps list.case append_Nil)
  next
    case (Cons r zs)
    then have t: "take n ?c = rev zs @ [r]" by (simp add: rev_swap)
    have "?c = rev zs @ r # drop n ?c" using append_take_drop_id[of n ?c] unfolding t by simp
    from level_rows_after[OF assms this] have rest: "level_rows E rows l (row_key r) = drop n ?c" .
    have "next_pos (take n ?c) pos = row_key r" by (simp only: next_pos_def Cons list.case)
    then show ?thesis by (simp only: rest append_take_drop_id)
  qed
qed

lemma level_pages_exact:
  assumes "distinct (map row_key rows)"
  shows "concat (level_pages E rows l pos ns) = take (sum_list ns) (level_rows E rows l pos)"
proof (induction ns arbitrary: pos)
  case (Cons n ns)
  let ?c = "level_rows E rows l pos"
  let ?p = "take n ?c"
  have "concat (level_pages E rows l pos (n # ns)) = ?p @ take (sum_list ns) (level_rows E rows l (next_pos ?p pos))"
    by (simp add: Let_def Cons)
  also have "level_rows E rows l (next_pos ?p pos) = drop n ?c"
    using page_rest[OF assms, of E l pos n] append_take_drop_id[of n ?c] by (metis same_append_eq)
  finally show ?case by (simp add: take_add)
qed simp

text \<open>The position a page writes for a level is the one the next page reads.\<close>

lemma position_of_written:
  assumes "- (2 ^ 63) \<le> lr_id r" "lr_id r < 2 ^ 63"
  shows "position_of t0 (AList.update l (JList [JStr (lr_time r), JInt (lr_id r)]) d) l = Inr (row_key r)"
  using assms by (simp add: position_of_def dict_get_def update_conv' int_of_def row_key_def)

section \<open>The cursor is read back\<close>

lemma printable_bytes: "\<forall>c \<in> set s. printable c \<Longrightarrow> list_all byte s"
  by (auto simp: printable_def byte_def list_all_iff)

lemma b64_char_ok: "0 \<le> v \<Longrightarrow> v < 64 \<Longrightarrow> printable (b64_char v)"
  using b64_char_printable by (simp add: printable_def)

lemma b64_encode_printable: "list_all byte bs \<Longrightarrow> list_all printable (b64_encode bs)"
proof (induction bs rule: b64_encode.induct)
  case (2 a)
  then have a: "byte a" by simp
  note p = byte_parts[OF a a]
  show ?case using b64_char_ok[OF p(1,2)] b64_char_ok[OF p(11,12)]
    by (simp only: b64_encode.simps list.pred_inject printable_def) simp
next
  case (3 a b)
  then have a: "byte a" and b: "byte b" by simp_all
  note p = byte_parts[OF a b]
  show ?case using b64_char_ok[OF p(1,2)] b64_char_ok[OF p(3,4)] b64_char_ok[OF p(7,8)]
    by (simp only: b64_encode.simps list.pred_inject printable_def) simp
next
  case (4 a b c r)
  then have a: "byte a" and b: "byte b" and c: "byte c" and r: "list_all printable (b64_encode r)" by simp_all
  note p = byte_parts[OF a b] and q = byte_parts[OF c b]
  show ?case using b64_char_ok[OF p(1,2)] b64_char_ok[OF p(3,4)] b64_char_ok[OF q(15,16)] b64_char_ok[OF q(19,20)] r
    by (simp only: b64_encode.simps list.pred_inject)
qed simp

section \<open>Properties\<close>

text \<open>
  C21: A page of a log query holds at most a hundred records, and each is a row of the table that
  belongs to the service, lies in the interval, matches the search terms if there are any and,
  unless the query has fallen back to all levels, has one of the selected levels.
\<close>

theorem query_page_scoped:
  assumes "query_page E table sc q (page_limit lim) cursor = Inr p" and "scans E"
  shows "length (pg_records p) \<le> 100 \<and> (\<forall>r \<in> set (pg_records p). r \<in> set table
    \<and> lr_service r = s_service sc \<and> s_start sc \<le> lr_time r \<and> lr_time r \<le> s_end sc
    \<and> (q_terms q \<noteq> [] \<longrightarrow> fts_match E (fts_expression (q_terms q)) (json_extract (u ''message'') (lr_payload r)))
    \<and> (selected_levels q = [] \<or> falls_back q (pg_levels p) \<or> LEVEL E r \<in> set (selected_levels q)))"
proof -
  have "0 < page_limit lim" "page_limit lim \<le> 100" by (simp_all add: page_limit_def)
  with query_page_ok[OF assms] show ?thesis by (auto simp: in_query_def chosen_def)
qed

text \<open>
  C22: The summary counts what the query selects: the total is the number of rows of the query, a
  level's count the number of its rows, and the matches, for distinct levels and without a
  fallback, the rows the pages are drawn from.
\<close>

theorem query_page_counts:
  assumes "query_page E table sc q (page_limit lim) cursor = Inr p" and "scans E" and "distinct (q_levels q)"
  shows "pg_total p = length (filter (in_query E sc q) table)
    \<and> (\<forall>l. dict_get (pg_levels p) l 0 = length (filter (\<lambda>r. LEVEL E r = l) (filter (in_query E sc q) table)))
    \<and> (\<not> falls_back q (pg_levels p) \<longrightarrow>
         pg_matched p = length (filter (chosen E q (pg_levels p)) (filter (in_query E sc q) table)))"
proof -
  have "0 < page_limit lim" by (simp add: page_limit_def)
  note ok = query_page_ok[OF assms(1,2) this]
  show ?thesis
    using matched_count_rows[OF assms(3)] unfolding ok(3) ok(4) ok(5) histogram_get by simp
qed


text \<open>
  C23: A cursor that a page hands out is read back as the same positions, for every dict of positions
  with readable keys whose encoding stays within the size limit.
\<close>

theorem cursor_roundtrip:
  assumes "readable (float_repr E) (JObj d)" and "floats_ok (JObj d)"
    and "length (write_cursor d) \<le> 4096" and "write_cursor d \<noteq> []"
  shows "read_cursor E (Some (write_cursor d)) = Inr d"
proof -
  have p: "\<forall>c \<in> set (dumps True (JObj d)). printable c" by (rule dumps_ascii_printable[OF assms(2)])
  then have b: "list_all byte (dumps True (JObj d))" by (rule printable_bytes)
  have e: "encode (write_cursor d) = Inr (write_cursor d)"
    unfolding write_cursor_def using b64_encode_printable[OF b] by (intro encode_ascii) (simp only: list_all_iff)
  have l: "loads_bytes (float_repr E) (dumps True (JObj d)) = Inr (JObj d)"
    by (rule loads_bytes_dumps[OF assms(1,2) encode_ascii[OF p]])
  have "b64_decode (write_cursor d) = Some (dumps True (JObj d))"
    unfolding write_cursor_def by (rule b64_roundtrip[OF b])
  with e l assms(3,4) show ?thesis by (simp add: read_cursor_def del: dumps.simps)
qed

section \<open>Witnesses\<close>

definition sample_engine :: engine where
  "sample_engine = \<lparr>fts_match = \<lambda>e m. True, scan_order = id, json_text = \<lambda>j. [], utc_iso = Inr,
     float_repr = id\<rparr>"

definition sample_log :: "int \<Rightarrow> string \<Rightarrow> string \<Rightarrow> log_row" where
  "sample_log i t l = \<lparr>lr_id = i, lr_service = u ''db'', lr_time = u t,
     lr_payload = JObj [(u ''message'', JStr (u ''disk 7 full'')), (u ''level'', JStr (u l))]\<rparr>"

definition sample_table :: "log_row list" where
  "sample_table = [sample_log 1 ''2026-01-01'' ''ERROR'', sample_log 2 ''2026-01-02'' ''INFO'',
     sample_log 3 ''2026-01-03'' ''ERROR'']"

definition sample_log_scope :: log_scope where
  "sample_log_scope = \<lparr>s_service = u ''db'', s_start = u ''2026-01-01'', s_end = u ''2026-01-09''\<rparr>"

definition sample_spec :: log_spec where
  "sample_spec = \<lparr>q_terms = [u ''disk''], q_levels = [u ''ERROR''], q_mode = u ''anomalies''\<rparr>"

lemma sample_scans: "scans sample_engine" by (simp add: scans_def sample_engine_def)

lemma sample_page:
  "\<not> isl (query_page sample_engine sample_table sample_log_scope sample_spec (page_limit 1) None)"
  by code_simp

theorem query_page_scoped_witness:
  "\<exists>p. query_page sample_engine sample_table sample_log_scope sample_spec (page_limit 1) None = Inr p
     \<and> length (pg_records p) \<le> 100"
proof -
  obtain p where p: "query_page sample_engine sample_table sample_log_scope sample_spec (page_limit 1) None = Inr p"
    using sample_page by (cases "query_page sample_engine sample_table sample_log_scope sample_spec (page_limit 1) None") simp_all
  show ?thesis using query_page_scoped[OF p sample_scans] p by blast
qed

theorem query_page_counts_witness:
  "\<exists>p. query_page sample_engine sample_table sample_log_scope sample_spec (page_limit 1) None = Inr p
     \<and> dict_get (pg_levels p) (u ''ERROR'') 0 = 2"
proof -
  obtain p where p: "query_page sample_engine sample_table sample_log_scope sample_spec (page_limit 1) None = Inr p"
    using sample_page by (cases "query_page sample_engine sample_table sample_log_scope sample_spec (page_limit 1) None") simp_all
  have d: "distinct (q_levels sample_spec)" by (simp add: sample_spec_def)
  have n: "length (filter (\<lambda>r. LEVEL sample_engine r = u ''ERROR'')
      (filter (in_query sample_engine sample_log_scope sample_spec) sample_table)) = 2" by code_simp
  show ?thesis using query_page_counts[OF p sample_scans d] n p by auto
qed


theorem cursor_roundtrip_witness:
  "let d = [(u ''ERROR'', JList [JStr (u ''2026-01-01''), JInt 1])]
   in read_cursor sample_engine (Some (write_cursor d)) = Inr d"
  unfolding Let_def
proof (rule cursor_roundtrip)
  show "readable (float_repr sample_engine) (JObj [(u ''ERROR'', JList [JStr (u ''2026-01-01''), JInt 1])])"
    by (simp, intro conjI) code_simp+
  show "floats_ok (JObj [(u ''ERROR'', JList [JStr (u ''2026-01-01''), JInt 1])])" by code_simp
  show "length (write_cursor [(u ''ERROR'', JList [JStr (u ''2026-01-01''), JInt 1])]) \<le> 4096" by code_simp
  show "write_cursor [(u ''ERROR'', JList [JStr (u ''2026-01-01''), JInt 1])] \<noteq> []" by code_simp
qed

end
