(* ===== verification/Retrieval.thy ===== *)
theory Retrieval
  imports Complex_Main Json
begin

text \<open>
  \<^verbatim>\<open>query/app/core/retrieval.py\<close> and the entities of \<^verbatim>\<open>query/app/entities\<close>: the search terms of a
  question, the bounded concurrent map over them, and reciprocal-rank fusion of the result lists.
  The tasks of \<open>bounded_map\<close> are a step relation over their states, with the semaphore, the first
  error and the cancellation; the function \<open>bounded_map\<close> is what its finished runs return. The
  scores are Python floats: \<open>double\<close> rounds a positive rational to the nearest IEEE double, ties to
  even.
\<close>

section \<open>Entities\<close>

record ColumnInfo =
  ci_id :: str
  ci_name :: str
  ci_type :: str
  ci_role :: str
  ci_examples :: "json list"
  ci_description :: str
  ci_alias :: "str list"
  ci_table :: str

record MetricInfo =
  mi_id :: str
  mi_name :: str
  mi_description :: str
  mi_columns :: "str list"
  mi_alias :: "str list"

record TableInfo =
  ti_id :: str
  ti_name :: str
  ti_role :: str
  ti_description :: str

record ValueInfo =
  vi_id :: str
  vi_value :: str
  vi_column :: str

record ColumnMetric =
  cm_column :: str
  cm_metric :: str

section \<open>Search terms\<close>

definition MAX_TERMS :: nat where
  "MAX_TERMS = 24"

definition str_of :: "json \<Rightarrow> str option" where
  "str_of j = (case j of JStr t \<Rightarrow> Some t | _ \<Rightarrow> None)"

definition bad_terms :: exn where
  "bad_terms = ValueError
     ([26816, 32034, 35789, 25193, 23637, 26684, 24335, 26080, 25928, 65292, 35831, 37325,
      35797, 12290])"

definition retrieval_terms :: "str \<Rightarrow> str list \<Rightarrow> json \<Rightarrow> str list res" where
  "retrieval_terms query keywords expanded = (case expanded of
     JList xs \<Rightarrow>
       if list_ex (\<lambda>x. str_of x = None) xs then Inl bad_terms
       else Inr (take MAX_TERMS (uniq (map strip
         (filter (\<lambda>x. strip x \<noteq> []) (query # map (the \<circ> str_of) xs @ keywords)))))
   | _ \<Rightarrow> Inl bad_terms)"

lemma take_uniq_acc: "distinct (take n (uniq xs))"
  by simp

text \<open>At most 24 terms, distinct, none blank, and the question always comes first.\<close>

lemma retrieval_terms_ok:
  assumes "retrieval_terms query keywords expanded = Inr ts"
  shows "length ts \<le> 24" "distinct ts" "\<forall>t \<in> set ts. t \<noteq> [] \<and> strip t = t"
    "strip query \<noteq> [] \<Longrightarrow> ts \<noteq> [] \<and> hd ts = strip query"
proof -
  obtain xs where ts: "ts = take 24 (uniq (map strip
      (filter (\<lambda>x. strip x \<noteq> []) (query # map (the \<circ> str_of) xs @ keywords))))"
    using assms by (auto simp: retrieval_terms_def MAX_TERMS_def split: json.splits if_splits)
  show "length ts \<le> 24" "distinct ts" by (simp_all add: ts)
  show "\<forall>t \<in> set ts. t \<noteq> [] \<and> strip t = t"
    by (auto simp: ts dest!: in_set_takeD)
  show "ts \<noteq> [] \<and> hd ts = strip query" if q: "strip query \<noteq> []"
  proof -
    let ?l = "map strip (filter (\<lambda>x. strip x \<noteq> []) (query # map (the \<circ> str_of) xs @ keywords))"
    have l: "?l \<noteq> [] \<and> hd ?l = strip query" using q by simp
    then have "uniq ?l \<noteq> [] \<and> hd (uniq ?l) = strip query" using uniq_Cons_hd[of ?l] by metis
    then show ?thesis unfolding ts by (cases "uniq ?l") simp_all
  qed
qed

section \<open>The bounded map\<close>

text \<open>The asyncio tasks; the error is the one that made \<open>gather\<close> raise.\<close>

datatype 'b task = Waiting | Running | Done 'b | Failed exn | Cancelled

record 'b pool =
  tasks :: "'b task list"
  first_error :: "exn option"

definition running :: "'b pool \<Rightarrow> nat" where
  "running p = length (filter (\<lambda>t. t = Running) (tasks p))"

definition finished_task :: "'b task \<Rightarrow> bool" where
  "finished_task t \<longleftrightarrow> t \<noteq> Waiting \<and> t \<noteq> Running"

definition new_pool :: "'a list \<Rightarrow> 'b pool" where
  "new_pool xs = \<lparr>tasks = replicate (length xs) Waiting, first_error = None\<rparr>"

text \<open>
  One step: a waiting task enters the semaphore, a running one returns or raises, and once
  \<open>gather\<close> has raised, the \<open>finally\<close> block cancels what is not done.
\<close>

inductive pool_step :: "nat \<Rightarrow> ('a \<Rightarrow> 'b res) \<Rightarrow> 'a list \<Rightarrow> 'b pool \<Rightarrow> 'b pool \<Rightarrow> bool"
  for n op xs where
  enter: "\<lbrakk>i < length (tasks p); tasks p ! i = Waiting; running p < n\<rbrakk> \<Longrightarrow>
    pool_step n op xs p (p\<lparr>tasks := (tasks p)[i := Running]\<rparr>)"
| return: "\<lbrakk>i < length (tasks p); tasks p ! i = Running; op (xs ! i) = Inr y\<rbrakk> \<Longrightarrow>
    pool_step n op xs p (p\<lparr>tasks := (tasks p)[i := Done y]\<rparr>)"
| fail: "\<lbrakk>i < length (tasks p); tasks p ! i = Running; op (xs ! i) = Inl e\<rbrakk> \<Longrightarrow>
    pool_step n op xs p \<lparr>tasks = (tasks p)[i := Failed e],
      first_error = Some (case first_error p of None \<Rightarrow> e | Some e0 \<Rightarrow> e0)\<rparr>"
| cancel: "\<lbrakk>i < length (tasks p); \<not> finished_task (tasks p ! i); first_error p \<noteq> None\<rbrakk> \<Longrightarrow>
    pool_step n op xs p (p\<lparr>tasks := (tasks p)[i := Cancelled]\<rparr>)"

inductive_cases pool_stepE: "pool_step n op xs p q"

definition settled :: "'b pool \<Rightarrow> bool" where
  "settled p \<longleftrightarrow> list_all finished_task (tasks p)"

fun value_of :: "'b task \<Rightarrow> 'b option" where
  "value_of (Done y) = Some y"
| "value_of _ = None"

definition pool_result :: "'b pool \<Rightarrow> 'b list res" where
  "pool_result p = (case first_error p of Some e \<Rightarrow> Inl e
     | None \<Rightarrow> Inr (map (the \<circ> value_of) (tasks p)))"

text \<open>
  What a finished map returns: the results in the order of the items, or one of the errors; which
  one came first is up to the schedule and is the argument \<open>first\<close>.
\<close>

definition errors_of :: "('a \<Rightarrow> 'b res) \<Rightarrow> 'a list \<Rightarrow> exn list" where
  "errors_of op xs = concat (map (\<lambda>x. case op x of Inl e \<Rightarrow> [e] | Inr _ \<Rightarrow> []) xs)"

definition bounded_map :: "(exn list \<Rightarrow> exn) \<Rightarrow> ('a \<Rightarrow> 'b res) \<Rightarrow> 'a list \<Rightarrow> 'b list res" where
  "bounded_map first op xs =
     (if errors_of op xs = [] then rmap op xs else Inl (first (errors_of op xs)))"

text \<open>The invariant of every schedule.\<close>

definition task_ok :: "('a \<Rightarrow> 'b res) \<Rightarrow> 'a \<Rightarrow> 'b task \<Rightarrow> bool" where
  "task_ok op x t = (case t of Done y \<Rightarrow> op x = Inr y | Failed e \<Rightarrow> op x = Inl e | _ \<Rightarrow> True)"

definition pool_ok :: "nat \<Rightarrow> ('a \<Rightarrow> 'b res) \<Rightarrow> 'a list \<Rightarrow> 'b pool \<Rightarrow> bool" where
  "pool_ok n op xs p \<longleftrightarrow> running p \<le> n \<and> list_all2 (task_ok op) xs (tasks p)
     \<and> (case first_error p of None \<Rightarrow> (\<forall>t \<in> set (tasks p). t \<noteq> Cancelled \<and> (\<forall>e. t \<noteq> Failed e))
        | Some e \<Rightarrow> e \<in> set (errors_of op xs))"

lemma sum_fun_update:
  fixes w :: "'a \<Rightarrow> nat"
  assumes "i < length ts"
  shows "sum_list (map w (ts[i := t])) + w (ts ! i) = sum_list (map w ts) + w t"
  using assms
proof (induction ts arbitrary: i)
  case (Cons t' ts)
  show ?case
  proof (cases i)
    case (Suc j)
    then show ?thesis using Cons.IH[of j] Cons.prems by simp
  qed simp
qed simp

lemma length_filter_sum: "length (filter P ts) = sum_list (map (\<lambda>t. if P t then 1 else 0) ts)"
  by (induction ts) auto

lemma running_update:
  assumes "i < length (tasks p)"
  shows "running (p\<lparr>tasks := (tasks p)[i := t]\<rparr>) + (if tasks p ! i = Running then 1 else 0)
    = running p + (if t = Running then 1 else 0)"
  using sum_fun_update[OF assms, of "\<lambda>t. if t = Running then 1 else 0" t] by (simp add: running_def length_filter_sum)

lemma errors_of_mem: "e \<in> set (errors_of op xs) \<longleftrightarrow> (\<exists>x \<in> set xs. op x = Inl e)"
  by (auto simp: errors_of_def split: sum.splits) (metis (no_types) list.set_intros(1))

lemma pool_ok_new: "pool_ok n op xs (new_pool xs)"
  by (simp add: pool_ok_def new_pool_def running_def list_all2_conv_all_nth task_ok_def)

lemma list_all2_set:
  "list_all2 P xs ts \<Longrightarrow> P (xs ! i) t \<Longrightarrow> list_all2 P xs (ts[i := t])"
  by (metis list_all2_update_cong list_update_beyond list_update_id linorder_not_le)

lemma pool_ok_step:
  assumes "pool_step n op xs p q" and "pool_ok n op xs p"
  shows "pool_ok n op xs q"
proof -
  have r: "running p \<le> n" and all: "list_all2 (task_ok op) xs (tasks p)"
    and l: "length (tasks p) = length xs"
    using assms(2) by (auto simp: pool_ok_def dest: list_all2_lengthD)
  have upd: "set ((tasks p)[i := t]) \<subseteq> insert t (set (tasks p))" for i t by (rule set_update_subset_insert)
  show ?thesis using assms(1)
  proof cases
    case (enter i)
    have "list_all2 (task_ok op) xs ((tasks p)[i := Running])"
      by (rule list_all2_set[OF all]) (simp add: task_ok_def)
    then show ?thesis using assms(2) enter running_update[OF enter(2), of Running] upd[of i Running]
      by (auto simp: pool_ok_def split: option.splits)
  next
    case (return i y)
    have "list_all2 (task_ok op) xs ((tasks p)[i := Done y])"
      by (rule list_all2_set[OF all]) (simp add: task_ok_def return)
    then show ?thesis using assms(2) return running_update[OF return(2), of "Done y"] upd[of i "Done y"]
      by (auto simp: pool_ok_def split: option.splits)
  next
    case (fail i e)
    have "list_all2 (task_ok op) xs ((tasks p)[i := Failed e])"
      by (rule list_all2_set[OF all]) (simp add: task_ok_def fail)
    moreover have "e \<in> set (errors_of op xs)" unfolding errors_of_mem using fail l by (metis nth_mem)
    ultimately show ?thesis using assms(2) fail running_update[OF fail(2), of "Failed e"]
      by (auto simp: pool_ok_def running_def split: option.splits)
  next
    case (cancel i)
    have "list_all2 (task_ok op) xs ((tasks p)[i := Cancelled])"
      by (rule list_all2_set[OF all]) (simp add: task_ok_def)
    then show ?thesis using assms(2) cancel running_update[OF cancel(2), of Cancelled]
      by (auto simp: pool_ok_def split: option.splits)
  qed
qed

lemma pool_ok_reach:
  assumes "(pool_step n op xs)\<^sup>*\<^sup>* (new_pool xs) p"
  shows "pool_ok n op xs p"
  using assms by (induction rule: rtranclp_induct) (auto intro: pool_ok_new pool_ok_step)

text \<open>Every step finishes or starts a task: a run has at most two steps per item.\<close>

definition work :: "'b task \<Rightarrow> nat" where
  "work t = (if t = Waiting then 2 else if t = Running then 1 else 0)"

definition pool_work :: "'b pool \<Rightarrow> nat" where
  "pool_work p = sum_list (map work (tasks p))"

lemma pool_step_work:
  assumes "pool_step n op xs p q" shows "pool_work q < pool_work p"
  using assms
proof cases
  case (enter i)
  then show ?thesis using sum_fun_update[of _ _ work, OF enter(2), of Running] by (simp add: pool_work_def work_def)
next
  case (return i y)
  then show ?thesis using sum_fun_update[of _ _ work, OF return(2), of "Done y"] by (simp add: pool_work_def work_def)
next
  case (fail i e)
  then show ?thesis using sum_fun_update[of _ _ work, OF fail(2), of "Failed e"] by (simp add: pool_work_def work_def)
next
  case (cancel i)
  then show ?thesis using sum_fun_update[of _ _ work, OF cancel(2), of Cancelled]
    by (auto simp: pool_work_def work_def finished_task_def split: if_splits)
qed

lemma pool_progress:
  assumes "0 < n" and "length (tasks p) = length xs" and "\<not> settled p"
  shows "\<exists>q. pool_step n op xs p q"
proof -
  obtain i where i: "i < length (tasks p)" "\<not> finished_task (tasks p ! i)"
    using assms(3) by (auto simp: settled_def list_all_length)
  show ?thesis
  proof (cases "\<exists>j < length (tasks p). tasks p ! j = Running")
    case True
    then obtain j where "j < length (tasks p)" "tasks p ! j = Running" by blast
    then show ?thesis by (cases "op (xs ! j)") (auto intro: pool_step.return pool_step.fail)
  next
    case False
    then have "running p = 0" by (auto simp: running_def filter_empty_conv in_set_conv_nth)
    moreover have "tasks p ! i = Waiting" using i False by (auto simp: finished_task_def)
    ultimately show ?thesis using i(1) assms(1) using pool_step.enter[of i p n] by auto
  qed
qed

text \<open>A settled pool returns what the sequential map does, or an error one of the calls raised.\<close>

lemma rmap_errors: "errors_of op xs = [] \<Longrightarrow> \<exists>ys. rmap op xs = Inr ys"
proof (induction xs)
  case (Cons x xs)
  then show ?case by (cases "op x") (auto simp: errors_of_def)
qed (simp add: errors_of_def)

lemma rmap_no_errors: "rmap op xs = Inr ys \<Longrightarrow> errors_of op xs = []"
  by (induction xs arbitrary: ys) (auto simp: errors_of_def rbind_eq_Inr)

lemma settled_result:
  assumes ok: "pool_ok n op xs p" and "settled p"
  shows "\<exists>first. (errors_of op xs \<noteq> [] \<longrightarrow> first (errors_of op xs) \<in> set (errors_of op xs))
    \<and> pool_result p = bounded_map first op xs"
proof (cases "first_error p")
  case (Some e)
  then have e: "e \<in> set (errors_of op xs)" using ok by (simp add: pool_ok_def)
  then have "errors_of op xs \<noteq> []" by auto
  then show ?thesis using e Some by (intro exI[of _ "\<lambda>_. e"]) (simp add: bounded_map_def pool_result_def)
next
  case None
  have all: "list_all2 (task_ok op) xs (tasks p)"
    and no: "\<forall>t \<in> set (tasks p). t \<noteq> Cancelled \<and> (\<forall>e. t \<noteq> Failed e)"
    using ok None by (auto simp: pool_ok_def)
  have fin: "\<exists>y. t = Done y" if "t \<in> set (tasks p)" for t
  proof -
    have "finished_task t" using assms(2) that by (simp add: settled_def list_all_iff)
    moreover have "t \<noteq> Cancelled" "\<And>e. t \<noteq> Failed e" using no that by blast+
    ultimately show ?thesis by (cases t) (auto simp: finished_task_def)
  qed
  have "rmap op xs = Inr (map (the \<circ> value_of) (tasks p))"
    unfolding rmap_Inr_iff list_all2_conv_all_nth
  proof (intro conjI allI impI)
    show l: "length xs = length (map (the \<circ> value_of) (tasks p))" using all by (simp add: list_all2_lengthD)
    fix i assume i: "i < length xs"
    then obtain y where y: "tasks p ! i = Done y" using fin[of "tasks p ! i"] l by auto
    moreover have "task_ok op (xs ! i) (tasks p ! i)" using all i by (simp add: list_all2_conv_all_nth)
    ultimately show "op (xs ! i) = Inr (map (the \<circ> value_of) (tasks p) ! i)" using i l by (simp add: task_ok_def)
  qed
  then show ?thesis using rmap_no_errors[of op xs] None
    by (intro exI[of _ hd]) (simp add: bounded_map_def pool_result_def)
qed

section \<open>Scores\<close>

text \<open>
  \<open>scale\<close> counts the doublings that bring a positive number to 53 bits; 1074 reach down to the
  smallest double. Scores lie between \<open>2 ^ -53\<close> and \<open>2 ^ 53\<close>.
\<close>

primrec scale :: "nat \<Rightarrow> rat \<Rightarrow> nat" where
  "scale 0 x = 0"
| "scale (Suc n) x = (if 2 ^ 52 \<le> x then 0 else Suc (scale n (2 * x)))"

definition round_even :: "rat \<Rightarrow> int" where
  "round_even y = (let f = \<lfloor>y\<rfloor>; d = y - of_int f in
     if d < 1 / 2 then f else if 1 / 2 < d then f + 1 else if even f then f else f + 1)"

definition double :: "rat \<Rightarrow> rat" where
  "double x = (let k = scale 1074 x in of_int (round_even (x * 2 ^ k)) / 2 ^ k)"

lemma scale_bounds:
  "x < 2 ^ 53 \<Longrightarrow> 2 ^ 52 \<le> x * 2 ^ n \<Longrightarrow>
   2 ^ 52 \<le> x * 2 ^ scale n x \<and> x * 2 ^ scale n x < 2 ^ 53"
proof (induction n arbitrary: x)
  case (Suc n)
  show ?case
  proof (cases "2 ^ 52 \<le> x")
    case False
    have "2 * x < 2 ^ 53" "2 ^ 52 \<le> (2 * x) * 2 ^ n" using False Suc.prems by (simp_all add: mult.assoc mult.left_commute)
    from Suc.IH[OF this] False show ?thesis by (simp add: mult.assoc mult.left_commute)
  qed (use Suc.prems in simp)
qed simp

lemma round_even_mono: assumes "x \<le> y" shows "round_even x \<le> round_even y"
proof (cases "\<lfloor>x\<rfloor> = \<lfloor>y\<rfloor>")
  case True
  then show ?thesis using assms by (auto simp: round_even_def Let_def)
next
  case False
  then have "\<lfloor>x\<rfloor> + 1 \<le> \<lfloor>y\<rfloor>" using floor_mono[OF assms] by simp
  then show ?thesis by (auto simp: round_even_def Let_def)
qed

lemma round_even_int [simp]: "round_even (of_int z) = z"
  by (simp add: round_even_def)

text \<open>The positive numbers the fusion computes with.\<close>

definition in_range :: "rat \<Rightarrow> bool" where
  "in_range x \<longleftrightarrow> 2 ^ 52 \<le> x * 2 ^ 1074 \<and> x < 2 ^ 53"

lemma scale_antimono: "x \<le> y \<Longrightarrow> scale n y \<le> scale n x"
  by (induction n arbitrary: x y) auto

lemma double_mono:
  assumes "in_range x" and "in_range y" and "x \<le> y"
  shows "double x \<le> double y"
proof -
  let ?k = "scale 1074 x" and ?l = "scale 1074 y"
  have l: "?l \<le> ?k" by (rule scale_antimono[OF assms(3)])
  have bx: "2 ^ 52 \<le> x * 2 ^ ?k" "x * 2 ^ ?k < 2 ^ 53"
    and by': "2 ^ 52 \<le> y * 2 ^ ?l" "y * 2 ^ ?l < 2 ^ 53"
    using assms(1,2) scale_bounds by (auto simp: in_range_def)
  show ?thesis
  proof (cases "?k = ?l")
    case True
    have "x * 2 ^ ?k \<le> y * 2 ^ ?k" using assms(3) by simp
    then have "round_even (x * 2 ^ ?k) \<le> round_even (y * 2 ^ ?k)" by (rule round_even_mono)
    then show ?thesis using True by (simp add: double_def Let_def divide_right_mono)
  next
    case False
    then obtain d where d: "?k = ?l + Suc d" using l less_iff_Suc_add[of ?l ?k] by auto
    have "round_even (x * 2 ^ ?k) \<le> round_even (of_int (2 ^ 53))"
      using bx(2) by (intro round_even_mono) simp
    then have "(of_int (round_even (x * 2 ^ ?k)) :: rat) \<le> 2 ^ 53" by (simp only: round_even_int) (metis of_int_le_iff of_int_numeral of_int_power)
    then have "double x \<le> 2 ^ 53 / 2 ^ ?k" by (simp add: double_def Let_def divide_right_mono)
    also have "\<dots> = 2 ^ 52 / 2 ^ (?l + d)" by (simp add: d field_simps)
    also have "\<dots> \<le> 2 ^ 52 / 2 ^ ?l" by (intro divide_left_mono) (simp_all add: power_increasing)
    also have "\<dots> \<le> double y"
    proof -
      have "round_even (of_int (2 ^ 52)) \<le> round_even (y * 2 ^ ?l)"
        using by'(1) by (intro round_even_mono) simp
      then have "(2 ^ 52 :: rat) \<le> of_int (round_even (y * 2 ^ ?l))" by (simp only: round_even_int) (metis of_int_le_iff of_int_numeral of_int_power)
      then show ?thesis by (simp add: double_def Let_def divide_right_mono)
    qed
    finally show ?thesis .
  qed
qed

lemma scale_unique:
  "2 ^ 52 \<le> x * 2 ^ k \<Longrightarrow> x * 2 ^ k < 2 ^ 53 \<Longrightarrow> k \<le> n \<Longrightarrow> scale n x = k"
proof (induction n arbitrary: x k)
  case (Suc n)
  show ?case
  proof (cases k)
    case 0
    then show ?thesis using Suc.prems by simp
  next
    case (Suc j)
    have a: "2 ^ 52 \<le> (2 * x) * 2 ^ j" "(2 * x) * 2 ^ j < 2 ^ 53" "j \<le> n"
      using Suc.prems Suc by (simp_all add: mult.assoc mult.left_commute)
    have "1 \<le> (2 :: rat) ^ j" by simp
    have "0 \<le> x"
    proof (rule ccontr)
      assume "\<not> 0 \<le> x"
      then have "(2 * x) * 2 ^ j \<le> 0" using mult_nonpos_nonneg[of "2 * x" "2 ^ j"] by simp
      then show False using a(1) by simp
    qed
    then have "2 * x * 1 \<le> 2 * x * 2 ^ j" by (intro mult_left_mono) simp_all
    then have "\<not> 2 ^ 52 \<le> x" using a(2) by simp
    then show ?thesis using Suc.IH[OF a] Suc by simp
  qed
qed simp

lemma double_exact: "x * 2 ^ scale 1074 x = of_int z \<Longrightarrow> double x = x"
  unfolding double_def Let_def by (simp add: field_simps)

lemma double_int:
  assumes "1 \<le> z" and "z < 2 ^ 53" shows "double (of_int z) = of_int z"
  by (rule double_exact[of _ "z * 2 ^ scale 1074 (of_int z)"]) simp

lemma double_pow: "double (1 / 2 ^ 60) = 1 / 2 ^ 60"
proof -
  have "scale 1074 (1 / 2 ^ 60) = 112" by (rule scale_unique) simp_all
  then show ?thesis by (intro double_exact[of _ "2 ^ 52"]) simp
qed

lemma double_double: assumes "in_range x" and "x < 2 ^ 52" shows "double (double x) = double x"
proof -
  let ?k = "scale 1074 x"
  let ?m = "round_even (x * 2 ^ ?k)"
  have b: "2 ^ 52 \<le> x * 2 ^ ?k" "x * 2 ^ ?k < 2 ^ 53"
    using assms(1) scale_bounds by (auto simp: in_range_def)
  have k: "?k \<noteq> 0" 
  proof
    assume "?k = 0"
    then have "2 ^ 52 \<le> x" using b(1) by simp
    then show False using assms(2) by simp
  qed
  have k': "?k \<le> 1074"
  proof -
    have "scale n y \<le> n" for n y by (induction n arbitrary: y) auto
    then show ?thesis .
  qed
  have lo: "2 ^ 52 \<le> ?m"
    using round_even_mono[of "of_int (2 ^ 52)" "x * 2 ^ ?k"] b(1) unfolding round_even_int by simp
  have hi: "?m \<le> 2 ^ 53"
    using round_even_mono[of "x * 2 ^ ?k" "of_int (2 ^ 53)"] b(2) unfolding round_even_int by simp
  have d: "double x = of_int ?m / 2 ^ ?k" by (simp add: double_def Let_def)
  show ?thesis
  proof (cases "?m = 2 ^ 53")
    case True
    obtain j where j: "?k = Suc j" using k by (cases ?k) auto
    have e: "double x * 2 ^ j = 2 ^ 52" unfolding d True unfolding j by (simp add: field_simps)
    have "scale 1074 (double x) = j" using e k' j by (intro scale_unique) simp_all
    then show ?thesis using e by (intro double_exact[of _ "2 ^ 52"]) simp
  next
    case False
    have e: "double x * 2 ^ ?k = of_int ?m" unfolding d by simp
    have "(2 ^ 52 :: rat) \<le> of_int ?m" "(of_int ?m :: rat) < 2 ^ 53"
    proof -
      have "(of_int (2 ^ 52) :: rat) \<le> of_int ?m" "(of_int ?m :: rat) < of_int (2 ^ 53)"
        using lo hi False by (simp_all only: of_int_le_iff of_int_less_iff order_less_le of_int_eq_iff) simp_all
      then show "(2 ^ 52 :: rat) \<le> of_int ?m" "(of_int ?m :: rat) < 2 ^ 53" by simp_all
    qed
    then have "scale 1074 (double x) = ?k" using e k' by (intro scale_unique) simp_all
    then show ?thesis using e by (intro double_exact[of _ ?m]) simp
  qed
qed

section \<open>Rank fusion\<close>

text \<open>Descending order, for the sort key \<open>(-score, id)\<close>.\<close>

datatype 'a desc = Desc (undesc: 'a)

instantiation desc :: (linorder) linorder
begin

definition less_eq_desc :: "'a desc \<Rightarrow> 'a desc \<Rightarrow> bool" where
  "less_eq_desc a b \<longleftrightarrow> undesc b \<le> undesc a"

definition less_desc :: "'a desc \<Rightarrow> 'a desc \<Rightarrow> bool" where
  "less_desc a b \<longleftrightarrow> undesc b < undesc a"

instance
  by standard (auto simp: less_eq_desc_def less_desc_def desc.expand)

end

record 'a fusion =
  entities :: "(str \<times> 'a) list"
  scores :: "(str \<times> rat) list"

text \<open>The hits of one list that count: the first of each id.\<close>

fun unseen :: "('a \<Rightarrow> str) \<Rightarrow> str list \<Rightarrow> 'a list \<Rightarrow> 'a list" where
  "unseen ident seen [] = []"
| "unseen ident seen (h # hits) = (if ident h \<in> set seen then unseen ident seen hits
     else h # unseen ident (ident h # seen) hits)"

definition count_hit :: "('a \<Rightarrow> str) \<Rightarrow> nat \<Rightarrow> 'a \<Rightarrow> 'a fusion \<Rightarrow> 'a fusion" where
  "count_hit ident rank h fu =
     \<lparr>entities = (if map_of (entities fu) (ident h) = None then entities fu @ [(ident h, h)] else entities fu),
      scores = AList.update (ident h)
        (double (dict_get (scores fu) (ident h) 0 + double (1 / (60 + of_nat rank)))) (scores fu)\<rparr>"

fun count_hits :: "('a \<Rightarrow> str) \<Rightarrow> nat \<Rightarrow> 'a list \<Rightarrow> 'a fusion \<Rightarrow> 'a fusion" where
  "count_hits ident rank [] fu = fu"
| "count_hits ident rank (h # hs) fu = count_hits ident (Suc rank) hs (count_hit ident rank h fu)"

definition fuse_list :: "('a \<Rightarrow> str) \<Rightarrow> 'a list \<Rightarrow> 'a fusion \<Rightarrow> 'a fusion" where
  "fuse_list ident hits = count_hits ident 1 (unseen ident [] hits)"

definition fuse_ranked :: "('a \<Rightarrow> str) \<Rightarrow> 'a list list \<Rightarrow> 'a list" where
  "fuse_ranked ident ls =
     (let fu = fold (fuse_list ident) ls \<lparr>entities = [], scores = []\<rparr>
      in map (\<lambda>k. the (map_of (entities fu) k))
           (sort_key (\<lambda>k. (Desc (dict_get (scores fu) k 0), k)) (map fst (entities fu))))"

text \<open>The reference: the score of an id, summed list by list from its rank in each.\<close>

fun rank_from :: "('a \<Rightarrow> str) \<Rightarrow> nat \<Rightarrow> str \<Rightarrow> 'a list \<Rightarrow> nat option" where
  "rank_from ident n i [] = None"
| "rank_from ident n i (h # hs) = (if ident h = i then Some n else rank_from ident (Suc n) i hs)"

definition rank_in :: "('a \<Rightarrow> str) \<Rightarrow> str \<Rightarrow> 'a list \<Rightarrow> nat option" where
  "rank_in ident i hits = rank_from ident 1 i (unseen ident [] hits)"

definition add_rank :: "nat option \<Rightarrow> rat \<Rightarrow> rat" where
  "add_rank r s = (case r of None \<Rightarrow> s | Some n \<Rightarrow> double (s + double (1 / (60 + of_nat n))))"

definition rrf :: "('a \<Rightarrow> str) \<Rightarrow> 'a list list \<Rightarrow> str \<Rightarrow> rat" where
  "rrf ident ls i = fold (\<lambda>hits. add_rank (rank_in ident i hits)) ls 0"

lemma set_unseen: "ident ` set (unseen ident seen hits) = ident ` set hits - set seen"
  by (induction hits arbitrary: seen) auto

lemma distinct_unseen: "distinct (map ident (unseen ident seen hits))"
proof (induction hits arbitrary: seen)
  case (Cons h hits)
  have "ident h \<notin> ident ` set (unseen ident (ident h # seen) hits)" unfolding set_unseen by simp
  then show ?case using Cons by auto
qed simp

lemma count_hits_scores:
  assumes "distinct (map ident hs)"
  shows "dict_get (scores (count_hits ident n hs fu)) i 0 = add_rank (rank_from ident n i hs) (dict_get (scores fu) i 0)"
  using assms
proof (induction hs arbitrary: n fu)
  case (Cons h hs)
  have rest: "rank_from ident m (ident h) hs = None" for m
  proof -
    have "ident h \<notin> ident ` set hs" using Cons.prems by simp
    then show ?thesis by (induction hs arbitrary: m) auto
  qed
  have "dict_get (scores (count_hit ident n h fu)) i 0 = (if ident h = i
      then double (dict_get (scores fu) i 0 + double (1 / (60 + of_nat n))) else dict_get (scores fu) i 0)"
    by (auto simp: count_hit_def dict_get_def update_conv')
  then show ?case using Cons rest by (cases "ident h = i") (simp_all add: add_rank_def[of "Some _"] add_rank_def[of None])
qed (simp add: add_rank_def)

lemma count_hits_entities:
  "distinct (map fst (entities fu)) \<Longrightarrow> distinct (map fst (entities (count_hits ident n hs fu)))
   \<and> set (map fst (entities (count_hits ident n hs fu))) = set (map fst (entities fu)) \<union> ident ` set hs"
proof (induction hs arbitrary: n fu)
  case (Cons h hs)
  have "distinct (map fst (entities (count_hit ident n h fu)))"
    using Cons.prems by (auto simp: count_hit_def map_of_eq_None_iff)
  moreover have "set (map fst (entities (count_hit ident n h fu))) = insert (ident h) (set (map fst (entities fu)))"
    by (auto simp: count_hit_def map_of_eq_None_iff)
  ultimately show ?case using Cons.IH[of "count_hit ident n h fu" "Suc n"] by simp
qed simp

lemma count_hits_source:
  "\<forall>e \<in> set (entities fu). fst e = ident (snd e) \<and> snd e \<in> H \<Longrightarrow> set hs \<subseteq> H \<Longrightarrow>
   \<forall>e \<in> set (entities (count_hits ident n hs fu)). fst e = ident (snd e) \<and> snd e \<in> H"
proof (induction hs arbitrary: n fu)
  case (Cons h hs)
  have sub: "set (entities (count_hit ident n h fu)) \<subseteq> insert (ident h, h) (set (entities fu))"
    by (auto simp: count_hit_def)
  have h: "h \<in> H" and hs: "set hs \<subseteq> H" using Cons.prems(2) by simp_all
  have "\<forall>e \<in> set (entities (count_hit ident n h fu)). fst e = ident (snd e) \<and> snd e \<in> H"
  proof
    fix e assume "e \<in> set (entities (count_hit ident n h fu))"
    then consider "e = (ident h, h)" | "e \<in> set (entities fu)" using sub by blast
    then show "fst e = ident (snd e) \<and> snd e \<in> H"
    proof cases
      case 2
      then show ?thesis by (rule bspec[OF Cons.prems(1)])
    qed (simp add: h)
  qed
  from Cons.IH[OF this hs] show ?case unfolding count_hits.simps .
qed simp

definition fused :: "('a \<Rightarrow> str) \<Rightarrow> 'a list list \<Rightarrow> 'a fusion" where
  "fused ident ls = fold (fuse_list ident) ls \<lparr>entities = [], scores = []\<rparr>"

lemma fold_scores:
  "dict_get (scores (fold (fuse_list ident) ls fu)) i 0
    = fold (\<lambda>hits. add_rank (rank_in ident i hits)) ls (dict_get (scores fu) i 0)"
proof (induction ls arbitrary: fu)
  case (Cons hits ls)
  have "dict_get (scores (fuse_list ident hits fu)) i 0 = add_rank (rank_in ident i hits) (dict_get (scores fu) i 0)"
    unfolding fuse_list_def rank_in_def by (rule count_hits_scores[OF distinct_unseen])
  then show ?case by (simp add: Cons.IH)
qed simp

lemma fused_scores: "dict_get (scores (fused ident ls)) i 0 = rrf ident ls i"
  unfolding fused_def rrf_def fold_scores by (simp add: dict_get_def)

lemma fold_entities:
  "distinct (map fst (entities fu)) \<Longrightarrow> distinct (map fst (entities (fold (fuse_list ident) ls fu)))
   \<and> set (map fst (entities (fold (fuse_list ident) ls fu))) = set (map fst (entities fu)) \<union> ident ` set (concat ls)"
proof (induction ls arbitrary: fu)
  case (Cons hits ls)
  have "distinct (map fst (entities (fuse_list ident hits fu)))"
    "set (map fst (entities (fuse_list ident hits fu))) = set (map fst (entities fu)) \<union> ident ` set hits"
    unfolding fuse_list_def using count_hits_entities[OF Cons.prems, of ident 1 "unseen ident [] hits"]
    by (simp_all add: set_unseen)
  then show ?case using Cons.IH[of "fuse_list ident hits fu"] by (simp add: image_Un Un_assoc)
qed simp

lemma set_unseen_subset: "set (unseen ident seen hits) \<subseteq> set hits"
  by (induction hits arbitrary: seen) auto

lemma fold_source:
  "\<forall>e \<in> set (entities fu). fst e = ident (snd e) \<and> snd e \<in> H \<Longrightarrow> set (concat ls) \<subseteq> H \<Longrightarrow>
   \<forall>e \<in> set (entities (fold (fuse_list ident) ls fu)). fst e = ident (snd e) \<and> snd e \<in> H"
proof (induction ls arbitrary: fu)
  case (Cons hits ls)
  have "set (unseen ident [] hits) \<subseteq> H" using Cons.prems(2) set_unseen_subset[of ident "[]" hits] by auto
  from count_hits_source[OF Cons.prems(1) this]
  have step: "\<forall>e \<in> set (entities (fuse_list ident hits fu)). fst e = ident (snd e) \<and> snd e \<in> H"
    unfolding fuse_list_def .
  have "set (concat ls) \<subseteq> H" using Cons.prems(2) by simp
  from Cons.IH[OF step this] show ?case unfolding fold_simps .
qed simp

lemma fused_entities:
  "distinct (map fst (entities (fused ident ls)))"
  "set (map fst (entities (fused ident ls))) = ident ` set (concat ls)"
  "e \<in> set (entities (fused ident ls)) \<Longrightarrow> fst e = ident (snd e) \<and> snd e \<in> set (concat ls)"
  unfolding fused_def
  using fold_entities[of "\<lparr>entities = [], scores = []\<rparr>" ident ls]
    fold_source[of "\<lparr>entities = [], scores = []\<rparr>" ident "set (concat ls)" ls] by simp_all

lemma fuse_ranked_ids:
  "map ident (fuse_ranked ident ls)
    = sort_key (\<lambda>k. (Desc (rrf ident ls k), k)) (map fst (entities (fused ident ls)))"
proof -
  let ?ks = "sort_key (\<lambda>k. (Desc (rrf ident ls k), k)) (map fst (entities (fused ident ls)))"
  have "ident (the (map_of (entities (fused ident ls)) k)) = k" if "k \<in> set ?ks" for k
  proof -
    have "k \<in> set (map fst (entities (fused ident ls)))" using that by simp
    then obtain h where "map_of (entities (fused ident ls)) k = Some h"
      by (metis map_of_eq_None_iff not_None_eq list.set_map)
    then show ?thesis using fused_entities(3)[OF map_of_SomeD] by fastforce
  qed
  then have "map (\<lambda>k. ident (the (map_of (entities (fused ident ls)) k))) ?ks = ?ks"
    by (intro map_idI) simp
  then show ?thesis
    unfolding fuse_ranked_def Let_def fused_def[symmetric] fused_scores by (simp add: comp_def)
qed

lemma fuse_ranked_set: "set (fuse_ranked ident ls) \<subseteq> set (concat ls)"
proof
  fix h assume "h \<in> set (fuse_ranked ident ls)"
  then obtain k where k: "k \<in> set (map fst (entities (fused ident ls)))"
    and h: "h = the (map_of (entities (fused ident ls)) k)"
    by (auto simp: fuse_ranked_def Let_def fused_def)
  then obtain h' where "map_of (entities (fused ident ls)) k = Some h'"
    by (metis map_of_eq_None_iff not_None_eq list.set_map)
  then show "h \<in> set (concat ls)" using fused_entities(3)[OF map_of_SomeD] h by fastforce
qed

text \<open>Scores stay in the range where \<open>double\<close> is monotone; a sum of scores is a double itself.\<close>

definition score_ok :: "nat \<Rightarrow> rat \<Rightarrow> bool" where
  "score_ok n s \<longleftrightarrow> s = 0 \<or> 1 / 2 ^ 60 \<le> s \<and> s \<le> of_nat n \<and> double s = s"

lemma in_rangeI: "1 / 2 ^ 60 \<le> x \<Longrightarrow> x < 2 ^ 53 \<Longrightarrow> in_range x"
proof -
  assume x: "1 / 2 ^ 60 \<le> x" "x < 2 ^ 53"
  have "(2 :: rat) ^ 52 \<le> 1 / 2 ^ 60 * 2 ^ 1074" by simp
  also have "\<dots> \<le> x * 2 ^ 1074" using x(1) by (rule mult_right_mono) simp
  finally show ?thesis using x(2) by (simp add: in_range_def)
qed

lemma term_ok:
  assumes "1 \<le> r" and "r < 2 ^ 50"
  shows "1 / 2 ^ 60 \<le> double (1 / (60 + of_nat r))" "double (1 / (60 + of_nat r)) \<le> 1"
    "in_range (1 / (60 + of_nat r))"
proof -
  let ?x = "1 / (60 + of_nat r) :: rat"
  have "(of_nat r :: rat) < of_nat (2 ^ 50)" using assms(2) by (simp only: of_nat_less_iff)
  then have r: "(of_nat r :: rat) < 2 ^ 50" by simp
  have lo: "1 / 2 ^ 60 \<le> ?x" using r by (intro divide_left_mono) simp_all
  have hi: "?x \<le> 1" using assms(1) by (simp add: field_simps)
  have "?x < 2 ^ 53" by (rule le_less_trans[OF hi]) simp
  then show rg: "in_range ?x" using lo by (intro in_rangeI)
  have one: "double 1 = 1" using double_int[of 1] by simp
  have "in_range (1 / 2 ^ 60)" "in_range 1" by (intro in_rangeI; simp)+
  then show "1 / 2 ^ 60 \<le> double ?x" "double ?x \<le> 1"
    using double_mono[of "1 / 2 ^ 60" ?x] double_mono[of ?x 1] rg lo hi unfolding double_pow one by simp_all
qed

lemma score_add:
  assumes "score_ok n s" and "n < 2 ^ 50" and "1 / 2 ^ 60 \<le> t" and "t \<le> 1"
  shows "score_ok (Suc n) (double (s + t))" "s \<le> double (s + t)" "in_range (s + t)"
proof -
  have n: "(of_nat n :: rat) < 2 ^ 50"
  proof -
    have "(of_nat n :: rat) < of_nat (2 ^ 50)" using assms(2) by (simp only: of_nat_less_iff)
    then show ?thesis by simp
  qed
  have s: "0 \<le> s" "s \<le> of_nat n" using assms(1) by (auto simp: score_ok_def intro: order_trans[of _ "1 / 2 ^ 60"])
  have lo: "1 / 2 ^ 60 \<le> s + t" and hi: "s + t \<le> of_nat (Suc n)" using s assms(3,4) by simp_all
  have lt: "s + t < 2 ^ 52" using hi n by simp
  show rg: "in_range (s + t)" using lo lt by (intro in_rangeI) simp_all
  have b: "in_range (1 / 2 ^ 60)" "in_range (of_int (int (Suc n)))"
    using n by (auto intro!: in_rangeI) 
  have "double (of_int (int (Suc n))) = of_int (int (Suc n))" using assms(2) by (intro double_int) simp_all
  then have "1 / 2 ^ 60 \<le> double (s + t)" "double (s + t) \<le> of_nat (Suc n)"
    using double_mono[OF b(1) rg lo] double_mono[OF rg b(2)] hi double_pow by simp_all
  moreover have "double (double (s + t)) = double (s + t)" using double_double[OF rg lt] .
  ultimately show "score_ok (Suc n) (double (s + t))" by (simp add: score_ok_def)
  show "s \<le> double (s + t)"
  proof (cases "s = 0")
    case True
    then show ?thesis using \<open>1 / 2 ^ 60 \<le> double (s + t)\<close> by (intro order_trans[OF _ \<open>1 / 2 ^ 60 \<le> double (s + t)\<close>]) simp
  next
    case False
    then have "double s = s" "1 / 2 ^ 60 \<le> s" using assms(1) by (simp_all add: score_ok_def)
    moreover have "in_range s" using calculation(2) s(2) n by (intro in_rangeI) simp_all
    ultimately show ?thesis using double_mono[OF _ rg, of s] assms(3) by (simp add: order_trans[of 0 "1 / 2 ^ 60" t])
  qed
qed

text \<open>An id that is ranked at least as well as another in every list scores at least as high.\<close>

definition ranked_as_well :: "('a \<Rightarrow> str) \<Rightarrow> 'a list list \<Rightarrow> str \<Rightarrow> str \<Rightarrow> bool" where
  "ranked_as_well ident ls x y \<longleftrightarrow> (\<forall>hits \<in> set ls. case rank_in ident y hits of None \<Rightarrow> True
     | Some r \<Rightarrow> (case rank_in ident x hits of None \<Rightarrow> False | Some r' \<Rightarrow> r' \<le> r))"

lemma rank_from_bounds: "rank_from ident n i hs = Some r \<Longrightarrow> n \<le> r \<and> r < n + length hs"
  by (induction hs arbitrary: n) (auto split: if_splits, fastforce+)

lemma rank_in_bounds: "rank_in ident i hits = Some r \<Longrightarrow> 1 \<le> r \<and> r \<le> length hits"
proof -
  assume "rank_in ident i hits = Some r"
  then have "1 \<le> r \<and> r < 1 + length (unseen ident [] hits)" unfolding rank_in_def by (rule rank_from_bounds)
  moreover have len: "length (unseen ident seen hits) \<le> length hits" for seen
    by (induction hits arbitrary: seen) (auto intro: le_SucI)
  ultimately show ?thesis using le_trans[OF _ len[of "[]"], of r] by simp
qed

lemma fold_add_rank:
  assumes "\<forall>hits \<in> set ls. length hits < 2 ^ 50" and "n + length ls < 2 ^ 50"
    and "score_ok n sx" "score_ok n sy" "sy \<le> sx" and "ranked_as_well ident ls x y"
  shows "fold (\<lambda>hits. add_rank (rank_in ident y hits)) ls sy \<le> fold (\<lambda>hits. add_rank (rank_in ident x hits)) ls sx"
  using assms
proof (induction ls arbitrary: n sx sy)
  case (Cons hits ls)
  have n: "n < 2 ^ 50" using Cons.prems(2) by simp
  have keep: "score_ok (Suc n) s" if "score_ok n s" for s using that by (auto simp: score_ok_def)
  have tm: "1 \<le> r \<and> r < 2 ^ 50" if "rank_in ident i hits = Some r" for i r
    using rank_in_bounds[OF that] Cons.prems(1) by simp
  have ok: "score_ok (Suc n) (add_rank (rank_in ident i hits) s)" if "score_ok n s" for i s
    using that keep tm score_add(1)[OF that n] term_ok by (auto simp: add_rank_def split: option.split)
  have "add_rank (rank_in ident y hits) sy \<le> add_rank (rank_in ident x hits) sx"
  proof (cases "rank_in ident y hits")
    case None
    then show ?thesis
    proof (cases "rank_in ident x hits")
      case (Some r)
      have "sx \<le> double (sx + double (1 / (60 + of_nat r)))"
        using score_add(2)[OF Cons.prems(3) n] term_ok tm[OF Some] by blast
      then show ?thesis using None Some Cons.prems(5) by (simp add: add_rank_def)
    qed (simp add: add_rank_def Cons.prems(5))
  next
    case (Some r)
    then obtain r' where r': "rank_in ident x hits = Some r'" "r' \<le> r"
      using Cons.prems(6) by (auto simp: ranked_as_well_def split: option.splits)
    have "double (1 / (60 + of_nat r)) \<le> double (1 / (60 + of_nat r'))"
      using term_ok(3) tm[OF Some] tm[OF r'(1)] r'(2) by (intro double_mono) (auto intro!: divide_left_mono)
    then have le: "sy + double (1 / (60 + of_nat r)) \<le> sx + double (1 / (60 + of_nat r'))" using Cons.prems(5) by simp
    have "double (sy + double (1 / (60 + of_nat r))) \<le> double (sx + double (1 / (60 + of_nat r')))"
      using score_add(3)[OF Cons.prems(4) n] score_add(3)[OF Cons.prems(3) n] term_ok tm[OF Some] tm[OF r'(1)]
      by (intro double_mono le) blast+
    then show ?thesis using Some r' by (simp add: add_rank_def)
  qed
  then show ?case using Cons.prems ok by (auto intro!: Cons.IH[of "Suc n"] simp: ranked_as_well_def)
qed simp

lemma rrf_mono:
  assumes "\<forall>hits \<in> set ls. length hits < 2 ^ 50" and "length ls < 2 ^ 50" and "ranked_as_well ident ls x y"
  shows "rrf ident ls y \<le> rrf ident ls x"
  unfolding rrf_def by (rule fold_add_rank[of _ 0]) (use assms in \<open>simp_all add: score_ok_def\<close>)

text \<open>The recalls: the deadline of thirty seconds is \<open>late\<close>.\<close>

definition timeout_error :: exn where
  "timeout_error = OtherError (u ''TimeoutError'') []"

definition vector_recall ::
    "(exn list \<Rightarrow> exn) \<Rightarrow> bool \<Rightarrow> (str list \<Rightarrow> 'v list res) \<Rightarrow> ('v \<Rightarrow> 'a list res) \<Rightarrow> ('a \<Rightarrow> str) \<Rightarrow>
     str list \<Rightarrow> 'a list res" where
  "vector_recall first late embed_docs search' ident ts =
     (if late then Inl timeout_error else
      rbind (embed_docs ts) (\<lambda>vectors.
      if length vectors \<noteq> length ts then Inl (ValueError (u ''Embedding '' @ [36820, 22238, 25968, 37327, 19982, 26816, 32034, 35789, 19981,
      19968, 33268]))
      else rbind (bounded_map first search' vectors) (\<lambda>ls. Inr (fuse_ranked ident ls))))"

definition value_recall ::
    "(exn list \<Rightarrow> exn) \<Rightarrow> bool \<Rightarrow> (str \<Rightarrow> 'a list res) \<Rightarrow> ('a \<Rightarrow> str) \<Rightarrow> str list \<Rightarrow> 'a list res" where
  "value_recall first late search' ident ts =
     (if late then Inl timeout_error else
      rbind (bounded_map first search' ts) (\<lambda>ls. Inr (fuse_ranked ident ls)))"

section \<open>Properties\<close>

lemma sorted_wrt_distinct: "sorted_wrt P xs \<Longrightarrow> distinct xs \<Longrightarrow> sorted_wrt (\<lambda>a b. a \<noteq> b \<and> P a b) xs"
  by (induction xs) auto

lemma pool_work_bound: "pool_work p \<le> 2 * length (tasks p)"
proof -
  have "sum_list (map work ts) \<le> 2 * length ts" for ts :: "'c task list"
    by (induction ts) (auto simp: work_def)
  then show ?thesis by (simp add: pool_work_def)
qed

text \<open>
  C28: However the event loop schedules the tasks of a bounded map, at most \<open>n\<close> of them run at a time
  and no run has more than two steps per item; a state in which not all tasks are done always has a
  next step, and in one where they are the map returns what the sequential map does, in the order of
  the items, or raises an error that one of the calls raised.
\<close>

theorem bounded_map_refines:
  assumes "(pool_step n op xs)\<^sup>*\<^sup>* (new_pool xs) p" and "0 < n"
  shows "running p \<le> n \<and> pool_work p \<le> 2 * length xs
    \<and> (\<forall>q. pool_step n op xs p q \<longrightarrow> pool_work q < pool_work p)
    \<and> (\<not> settled p \<longrightarrow> (\<exists>q. pool_step n op xs p q))
    \<and> (settled p \<longrightarrow> (\<exists>first. (errors_of op xs \<noteq> [] \<longrightarrow> first (errors_of op xs) \<in> set (errors_of op xs))
         \<and> pool_result p = bounded_map first op xs))"
proof -
  have ok: "pool_ok n op xs p" by (rule pool_ok_reach[OF assms(1)])
  then have l: "length (tasks p) = length xs" by (auto simp: pool_ok_def dest: list_all2_lengthD)
  have "pool_work p \<le> 2 * length xs" using pool_work_bound[of p] l by simp
  then show ?thesis
    using ok pool_progress[OF assms(2) l] settled_result[OF ok] pool_step_work[of n op xs p]
    by (auto simp: pool_ok_def)
qed

theorem bounded_map_refines_witness:
  "\<exists>p :: int pool. (pool_step 1 (\<lambda>x. Inr (x * x)) [2, 3])\<^sup>*\<^sup>* (new_pool [2, 3]) p \<and> running p = 1 \<and> running p \<le> 1"
proof -
  let ?p = "\<lparr>tasks = [Running, Waiting], first_error = None\<rparr> :: int pool"
  have s: "pool_step 1 (\<lambda>x. Inr (x * x)) [2, 3 :: int] (new_pool [2, 3]) ?p"
    using pool_step.enter[of 0 "new_pool [2, 3 :: int] :: int pool" 1 "\<lambda>x. Inr (x * x)" "[2, 3]"]
    by (simp add: new_pool_def running_def)
  then have r: "(pool_step 1 (\<lambda>x. Inr (x * x)) [2, 3 :: int])\<^sup>*\<^sup>* (new_pool [2, 3]) ?p" by blast
  have "running ?p \<le> 1" using bounded_map_refines[OF r] by simp
  then show ?thesis using r by (intro exI[of _ ?p]) (simp add: running_def)
qed

text \<open>
  C29: Rank fusion returns every id that any list has exactly once, each with a hit from the lists,
  ordered by score and then by id; and an id that stands at least as high as another in every list
  scores at least as high, rounding included.
\<close>

theorem fuse_ranked_order:
  shows "distinct (map ident (fuse_ranked ident ls))
    \<and> set (map ident (fuse_ranked ident ls)) = ident ` set (concat ls)
    \<and> set (fuse_ranked ident ls) \<subseteq> set (concat ls)
    \<and> sorted_wrt (\<lambda>a b. rrf ident ls b < rrf ident ls a \<or> rrf ident ls a = rrf ident ls b \<and> a < b)
        (map ident (fuse_ranked ident ls))
    \<and> (\<forall>x y. ranked_as_well ident ls x y \<and> length ls < 2 ^ 50 \<and> (\<forall>hits \<in> set ls. length hits < 2 ^ 50)
         \<longrightarrow> rrf ident ls y \<le> rrf ident ls x)"
proof -
  let ?f = "\<lambda>k. (Desc (rrf ident ls k), k)"
  let ?ids = "map ident (fuse_ranked ident ls)"
  have d: "distinct ?ids" unfolding fuse_ranked_ids by (simp add: fused_entities(1))
  have "sorted (map ?f ?ids)" unfolding fuse_ranked_ids by simp
  then have "sorted_wrt (\<lambda>a b. ?f a \<le> ?f b) ?ids" by (simp only: sorted_map)
  then have "sorted_wrt (\<lambda>a b. a \<noteq> b \<and> ?f a \<le> ?f b) ?ids"
    using d by (rule sorted_wrt_distinct)
  then have "sorted_wrt (\<lambda>a b. rrf ident ls b < rrf ident ls a \<or> rrf ident ls a = rrf ident ls b \<and> a < b) ?ids"
    by (rule sorted_wrt_mono_rel[rotated]) (auto simp: less_eq_prod_def less_desc_def less_eq_desc_def)
  moreover have "set ?ids = ident ` set (concat ls)"
    unfolding fuse_ranked_ids set_sort by (rule fused_entities(2))
  ultimately show ?thesis using d rrf_mono[of ls ident] fuse_ranked_set[of ident ls] by blast
qed

theorem fuse_ranked_order_witness:
  "id ` set (fuse_ranked id [[u ''b'', u ''a''], [u ''b'']]) = id ` {u ''a'', u ''b''}
   \<and> rrf id [[u ''b'', u ''a''], [u ''b'']] (u ''a'') \<le> rrf id [[u ''b'', u ''a''], [u ''b'']] (u ''b'')"
proof -
  let ?ls = "[[u ''b'', u ''a''], [u ''b'']]"
  have "ranked_as_well id ?ls (u ''b'') (u ''a'')" by code_simp
  then show ?thesis using fuse_ranked_order[of id ?ls] by auto
qed
end
