(* ===== verification/Calendar.thy ===== *)
theory Calendar
  imports Prelude
begin

text \<open>
  The part of Python's \<open>datetime\<close> and \<open>calendar\<close> that the program computes with: valid dates and,
  for times of day, the number of microseconds since the start of year 1.
\<close>

type_synonym day = "int \<times> int \<times> int"

definition leap :: "int \<Rightarrow> bool" where
  "leap y \<longleftrightarrow> y mod 4 = 0 \<and> (y mod 100 \<noteq> 0 \<or> y mod 400 = 0)"

text \<open>\<open>calendar.monthrange(y, m)[1]\<close>.\<close>

definition month_days :: "int \<Rightarrow> int \<Rightarrow> int" where
  "month_days y m = (if m = 2 then (if leap y then 29 else 28) else if m \<in> {4, 6, 9, 11} then 30 else 31)"

text \<open>\<open>date(y, m, d)\<close>, \<open>None\<close> where it raises \<open>ValueError\<close>.\<close>

definition valid_day :: "day \<Rightarrow> bool" where
  "valid_day t = (case t of (y, m, d) \<Rightarrow> 1 \<le> y \<and> y \<le> 9999 \<and> 1 \<le> m \<and> m \<le> 12 \<and> 1 \<le> d \<and> d \<le> month_days y m)"

definition make_date :: "int \<Rightarrow> int \<Rightarrow> int \<Rightarrow> day option" where
  "make_date y m d = (if valid_day (y, m, d) then Some (y, m, d) else None)"

text \<open>Days before a year and before a month of it.\<close>

definition days_before_year :: "int \<Rightarrow> int" where
  "days_before_year y = (y - 1) * 365 + (y - 1) div 4 - (y - 1) div 100 + (y - 1) div 400"

definition days_before_month :: "int \<Rightarrow> int \<Rightarrow> int" where
  "days_before_month y m = sum_list (map (\<lambda>i. month_days y (int i)) [1..<nat m])"

definition micros :: int where
  "micros = 1000000"

definition day_micros :: int where
  "day_micros = 86400 * micros"

text \<open>The wall clock of \<open>datetime(y, m, d, h, mi, s)\<close>, \<open>None\<close> where it raises \<open>ValueError\<close>.\<close>

definition wall_of :: "int \<Rightarrow> int \<Rightarrow> int \<Rightarrow> int \<Rightarrow> int \<Rightarrow> int \<Rightarrow> int option" where
  "wall_of y m d h mi s =
     (if valid_day (y, m, d) \<and> 0 \<le> h \<and> h \<le> 23 \<and> 0 \<le> mi \<and> mi \<le> 59 \<and> 0 \<le> s \<and> s \<le> 59
      then Some ((((days_before_year y + days_before_month y m + d - 1) * 24 + h) * 60 + mi) * 60 * micros + s * micros)
      else None)"

text \<open>The end of year 9999: arithmetic that leaves the range raises \<open>OverflowError\<close>.\<close>

definition max_wall :: int where
  "max_wall = days_before_year 10000 * day_micros"

definition in_calendar :: "int \<Rightarrow> bool" where
  "in_calendar w \<longleftrightarrow> 0 \<le> w \<and> w < max_wall"

lemma wall_of_2000: "wall_of 2000 1 1 0 0 0 = Some (730119 * day_micros)"
  by code_simp

section \<open>Seconds and ISO texts\<close>

text \<open>Years and months are searched upwards from one that is not too late.\<close>

lemma div_before: "0 < n \<Longrightarrow> y div n = (y - 1) div n + (if n dvd y then 1 else 0)" for y n :: int
proof -
  assume n: "0 < n"
  have y: "y = n * (y div n) + y mod n" by simp
  show ?thesis
  proof (cases "n dvd y")
    case True
    then have "(y - 1) div n = y div n - 1"
      using n by (intro int_div_pos_eq[of _ _ _ "n - 1"]) (auto simp: algebra_simps)
    with True show ?thesis by simp
  next
    case False
    then have "0 < y mod n" using n by (simp add: dvd_eq_mod_eq_0 order.not_eq_order_implies_strict)
    then have "(y - 1) div n = y div n"
      using n y pos_mod_bound[OF n, of y] by (intro int_div_pos_eq[of _ _ _ "y mod n - 1"]) simp_all
    with False show ?thesis by simp
  qed
qed

lemma days_before_year_leap: "days_before_year (y + 1) = days_before_year y + (if leap y then 366 else 365)"
proof -
  have l: "leap y \<longleftrightarrow> 4 dvd y \<and> (\<not> 100 dvd y \<or> 400 dvd y)" by (simp add: leap_def dvd_eq_mod_eq_0)
  have d: "(100::int) dvd y \<Longrightarrow> 4 dvd y" "(400::int) dvd y \<Longrightarrow> 100 dvd y"
    by (rule dvd_trans[of _ 100], simp, assumption) (rule dvd_trans[of _ 400], simp, assumption)
  have y: "days_before_year (y + 1) = y * 365 + y div 4 - y div 100 + y div 400"
    "days_before_year y = (y - 1) * 365 + (y - 1) div 4 - (y - 1) div 100 + (y - 1) div 400"
    by (simp_all add: days_before_year_def)
  have e: "y div 4 = (y - 1) div 4 + (if 4 dvd y then 1 else 0)" "y div 100 = (y - 1) div 100 + (if 100 dvd y then 1 else 0)"
    "y div 400 = (y - 1) div 400 + (if 400 dvd y then 1 else 0)" by (rule div_before, simp)+
  have g: "y * 365 + (a + i) - (b + j) + (c + k) = (y - 1) * 365 + a - b + c + (365 + i - j + k)" for a b c i j k :: int
    by (simp add: algebra_simps)
  have "(b \<longrightarrow> a) \<Longrightarrow> (c \<longrightarrow> b) \<Longrightarrow> 365 + (if a then 1 else 0) - (if b then 1 else 0) + (if c then 1 else 0)
      = (if a \<and> (\<not> b \<or> c) then 366 else (365::int))" for a b c
    by (cases a; cases b; cases c) simp_all
  note k = this[of "100 dvd y" "4 dvd y" "400 dvd y"]
  have "365 + (if 4 dvd y then 1 else 0) - (if 100 dvd y then 1 else 0) + (if 400 dvd y then 1 else 0)
      = (if leap y then 366 else (365::int))"
    unfolding l by (rule k) (use d in blast)+
  then show ?thesis unfolding y e g by (simp only:)
qed

lemma days_before_year_Suc: "days_before_year y + 365 \<le> days_before_year (y + 1)"
  by (simp add: days_before_year_leap)

function year_from :: "int \<Rightarrow> int \<Rightarrow> int" where
  "year_from y n = (if n < days_before_year (y + 1) then y else year_from (y + 1) n)"
  by pat_completeness auto
termination
proof (relation "measure (\<lambda>(y, n). nat (n - days_before_year y))")
  fix y n :: int assume "\<not> n < days_before_year (y + 1)"
  then show "((y + 1, n), (y, n)) \<in> measure (\<lambda>(y, n). nat (n - days_before_year y))"
    using days_before_year_Suc[of y] by simp
qed simp

declare year_from.simps [simp del]

function month_from :: "int \<Rightarrow> int \<Rightarrow> int \<Rightarrow> int" where
  "month_from y m r = (if 12 \<le> m \<or> r < days_before_month y (m + 1) then m else month_from y (m + 1) r)"
  by pat_completeness auto
termination
  by (relation "measure (\<lambda>(y, m, r). nat (12 - m))") auto

declare month_from.simps [simp del]

text \<open>The date of a day counted from the first of year 1.\<close>

definition civil :: "int \<Rightarrow> day" where
  "civil n = (let y = year_from (n div 366 + 1) n; r = n - days_before_year y; m = month_from y 1 r
     in (y, m, r - days_before_month y m + 1))"

definition pad2 :: "int \<Rightarrow> str" where
  "pad2 n = [48 + n div 10 mod 10, 48 + n mod 10]"

definition pad4 :: "int \<Rightarrow> str" where
  "pad4 n = [48 + n div 1000 mod 10, 48 + n div 100 mod 10, 48 + n div 10 mod 10, 48 + n mod 10]"

definition iso_date :: "day \<Rightarrow> str" where
  "iso_date t = (case t of (y, m, d) \<Rightarrow> pad4 y @ [45] @ pad2 m @ [45] @ pad2 d)"

definition iso_clock :: "int \<Rightarrow> int \<Rightarrow> int \<Rightarrow> str" where
  "iso_clock h mi s = [84] @ pad2 h @ [58] @ pad2 mi @ [58] @ pad2 s @ u ''+00:00''"

text \<open>\<open>isoformat\<close> of a UTC time of whole seconds, counted from the start of year 1.\<close>

definition iso_text :: "int \<Rightarrow> str" where
  "iso_text w = (let t = w mod 86400 in iso_date (civil (w div 86400)) @ iso_clock (t div 3600) (t div 60 mod 60) (t mod 60))"

definition max_second :: int where
  "max_second = days_before_year 10000 * 86400"

text \<open>\<open>datetime.fromtimestamp(s, timezone.utc)\<close>, \<open>None\<close> outside the years 1 to 9999.\<close>

definition from_epoch :: "int \<Rightarrow> int option" where
  "from_epoch s = (let w = s + days_before_year 1970 * 86400 in if 0 \<le> w \<and> w < max_second then Some w else None)"

text \<open>\<open>fromisoformat\<close> of a text with the separators of \<open>iso_text\<close>.\<close>

definition number :: "str \<Rightarrow> int option" where
  "number s = (if list_all is_digit s then Some (foldl (\<lambda>n c. 10 * n + (c - 48)) 0 s) else None)"

definition second_of :: "int \<Rightarrow> int \<Rightarrow> int \<Rightarrow> int \<Rightarrow> int \<Rightarrow> int \<Rightarrow> int" where
  "second_of y m d h mi s = (days_before_year y + days_before_month y m + d - 1) * 86400 + (h * 60 + mi) * 60 + s"

definition valid_clock :: "int \<Rightarrow> int \<Rightarrow> int \<Rightarrow> bool" where
  "valid_clock h mi s \<longleftrightarrow> 0 \<le> h \<and> h \<le> 23 \<and> 0 \<le> mi \<and> mi \<le> 59 \<and> 0 \<le> s \<and> s \<le> 59"

definition iso_parse :: "str \<Rightarrow> int option" where
  "iso_parse t = (if length t \<noteq> 25 \<or> t ! 4 \<noteq> 45 \<or> t ! 7 \<noteq> 45 \<or> t ! 10 \<noteq> 84 \<or> t ! 13 \<noteq> 58 \<or> t ! 16 \<noteq> 58
        \<or> drop 19 t \<noteq> u ''+00:00'' then None
     else case (number (take 4 t), number (take 2 (drop 5 t)), number (take 2 (drop 8 t)),
                number (take 2 (drop 11 t)), number (take 2 (drop 14 t)), number (take 2 (drop 17 t))) of
       (Some y, Some m, Some d, Some h, Some mi, Some s) \<Rightarrow>
         if valid_day (y, m, d) \<and> valid_clock h mi s then Some (second_of y m d h mi s) else None
     | _ \<Rightarrow> None)"

lemma month_days_range: "28 \<le> month_days y m" "month_days y m \<le> 31"
  by (auto simp: month_days_def)

lemma days_before_month_Suc: "1 \<le> m \<Longrightarrow> days_before_month y (m + 1) = days_before_month y m + month_days y m"
proof -
  assume "1 \<le> m"
  then have "[1..<nat (m + 1)] = [1..<nat m] @ [nat m]" by (simp add: nat_add_distrib)
  with \<open>1 \<le> m\<close> show ?thesis by (simp add: days_before_month_def)
qed

lemma days_before_month_1 [simp]: "days_before_month y 1 = 0"
  by (simp add: days_before_month_def)

lemma days_before_month_mono:
  assumes "1 \<le> m" "m \<le> k"
  shows "days_before_month y m \<le> days_before_month y k"
  using assms(2)
proof (induction k rule: int_ge_induct)
  case (step i)
  then show ?case using days_before_month_Suc[of i y] month_days_range(1)[of y i] assms(1) by simp
qed simp

lemma days_before_13: "days_before_month y 13 = (if leap y then 366 else 365)"
  by (simp add: days_before_month_def month_days_def upt_conv_Cons)

lemma days_before_year_mono: "y \<le> k \<Longrightarrow> days_before_year y \<le> days_before_year k"
proof (induction k rule: int_ge_induct)
  case (step i)
  then show ?case using days_before_year_Suc[of i] by simp
qed simp

lemma year_from_found:
  assumes "y0 \<le> y" "days_before_year y \<le> n" "n < days_before_year (y + 1)"
  shows "year_from y0 n = y"
  using assms
proof (induction y0 n rule: year_from.induct)
  case (1 y0 n)
  show ?case
  proof (cases "y0 = y")
    case True
    with 1 show ?thesis by (subst year_from.simps) simp
  next
    case False
    with 1 have "days_before_year (y0 + 1) \<le> n" using days_before_year_mono[of "y0 + 1" y] by simp
    with 1 False show ?thesis by (simp add: year_from.simps[of y0 n])
  qed
qed

lemma month_from_found:
  assumes "1 \<le> m0" "m0 \<le> m" "m \<le> 12" "days_before_month y m \<le> r" "r < days_before_month y (m + 1)"
  shows "month_from y m0 r = m"
  using assms
proof (induction y m0 r rule: month_from.induct)
  case (1 y m0 r)
  show ?case
  proof (cases "m0 = m")
    case True
    with 1 show ?thesis by (subst month_from.simps) simp
  next
    case False
    with 1 have "days_before_month y (m0 + 1) \<le> r" using days_before_month_mono[of "m0 + 1" m y] by simp
    with 1 False show ?thesis by (simp add: month_from.simps[of y m0 r])
  qed
qed

lemma days_before_year_366: "1 \<le> y \<Longrightarrow> days_before_year y \<le> 366 * (y - 1)"
  by (simp add: days_before_year_def)

lemma year_guess: "n < 366 * y \<Longrightarrow> n div 366 + 1 \<le> y" for n y :: int
  by linarith

lemma civil_day:
  assumes "valid_day (y, m, d)"
  shows "civil (days_before_year y + days_before_month y m + d - 1) = (y, m, d)"
proof -
  let ?r = "days_before_month y m + d - 1" and ?n = "days_before_year y + days_before_month y m + d - 1"
  from assms have v: "1 \<le> y" "1 \<le> m" "m \<le> 12" "1 \<le> d" "d \<le> month_days y m" by (auto simp: valid_day_def)
  have r: "0 \<le> ?r" "?r < days_before_month y (m + 1)" "days_before_month y m \<le> ?r"
    using v days_before_month_mono[of 1 m y] days_before_month_Suc[of m y] by auto
  have "?r < days_before_month y 13" using r(2) days_before_month_mono[of "m + 1" 13 y] v by simp
  then have n: "days_before_year y \<le> ?n" "?n < days_before_year (y + 1)"
    using r(1) v days_before_year_leap[of y] by (simp_all add: days_before_13 split: if_splits)
  have "?n < 366 * y" using n(2) days_before_year_366[of "y + 1"] v(1) by simp
  then have "?n div 366 + 1 \<le> y" by (rule year_guess)
  from year_from_found[OF this n] have y: "year_from (?n div 366 + 1) ?n = y" .
  have "month_from y 1 ?r = m" using month_from_found[of 1 m y ?r] v r by simp
  then show ?thesis using y by (simp add: civil_def Let_def algebra_simps)
qed

lemma pad4_digits:
  assumes "0 \<le> a" "0 \<le> b" "b \<le> 9" "0 \<le> c" "c \<le> 9" "0 \<le> d" "d \<le> 9" "a \<le> 9"
  shows "pad4 (10 * (10 * (10 * a + b) + c) + d) = [48 + a, 48 + b, 48 + c, 48 + d]"
proof -
  let ?n = "10 * (10 * (10 * a + b) + c) + d"
  have "?n div 10 = 10 * (10 * a + b) + c" "?n div 100 = 10 * a + b" "?n div 1000 = a"
    using assms by (auto intro!: int_div_pos_eq[of _ 10 _ d] int_div_pos_eq[of _ 100 _ "10 * c + d"]
        int_div_pos_eq[of _ 1000 _ "100 * b + 10 * c + d"] simp: algebra_simps)
  moreover have "?n mod 10 = d" "(10 * (10 * a + b) + c) mod 10 = c" "(10 * a + b) mod 10 = b" "a mod 10 = a"
    using assms by (simp_all only: mod_mult_self4 mod_pos_pos_trivial)
  ultimately show ?thesis by (simp only: pad4_def)
qed

lemma pad2_digits:
  assumes "0 \<le> a" "a \<le> 9" "0 \<le> b" "b \<le> 9"
  shows "pad2 (10 * a + b) = [48 + a, 48 + b]"
proof -
  have "(10 * a + b) div 10 = a" using assms by (intro int_div_pos_eq[of _ 10 a b]) simp_all
  moreover have "(10 * a + b) mod 10 = b" "a mod 10 = a" using assms by simp_all
  ultimately show ?thesis by (simp only: pad2_def)
qed

lemma number_pad:
  "length t = 2 \<Longrightarrow> number t = Some n \<Longrightarrow> pad2 n = t \<and> 0 \<le> n"
  "length t = 4 \<Longrightarrow> number t = Some n \<Longrightarrow> pad4 n = t \<and> 0 \<le> n"
proof -
  assume "length t = 2" "number t = Some n"
  then obtain a b where "t = [a, b]" "is_digit a" "is_digit b" "n = 10 * (a - 48) + (b - 48)"
    by (auto simp: number_def numeral_2_eq_2 length_Suc_conv split: if_splits)
  then have n: "n = 10 * (a - 48) + (b - 48)" and t: "t = [a, b]"
    and dg: "0 \<le> a - 48" "a - 48 \<le> 9" "0 \<le> b - 48" "b - 48 \<le> 9" by (simp_all add: is_digit_def)
  have "pad2 n = t" unfolding n t by (subst pad2_digits) (use dg in simp_all)
  moreover have "0 \<le> n" unfolding n using dg by (intro add_nonneg_nonneg mult_nonneg_nonneg) simp_all
  ultimately show "pad2 n = t \<and> 0 \<le> n" ..
next
  assume "length t = 4" "number t = Some n"
  then obtain a b c d where "t = [a, b, c, d]" "is_digit a" "is_digit b" "is_digit c" "is_digit d"
    "n = 10 * (10 * (10 * (a - 48) + (b - 48)) + (c - 48)) + (d - 48)"
    by (auto simp: number_def numeral_eq_Suc length_Suc_conv split: if_splits)
  then have n: "n = 10 * (10 * (10 * (a - 48) + (b - 48)) + (c - 48)) + (d - 48)" and t: "t = [a, b, c, d]"
    and dg: "0 \<le> a - 48" "a - 48 \<le> 9" "0 \<le> b - 48" "b - 48 \<le> 9" "0 \<le> c - 48" "c - 48 \<le> 9" "0 \<le> d - 48" "d - 48 \<le> 9"
    by (simp_all add: is_digit_def)
  have "pad4 n = t" unfolding n t by (subst pad4_digits) (use dg in simp_all)
  moreover have "0 \<le> n" unfolding n using dg by (intro add_nonneg_nonneg mult_nonneg_nonneg) simp_all
  ultimately show "pad4 n = t \<and> 0 \<le> n" ..
qed

lemma div60: "0 \<le> s \<Longrightarrow> s \<le> 59 \<Longrightarrow> (a * 60 + s) div 60 = a" "0 \<le> s \<Longrightarrow> s \<le> 59 \<Longrightarrow> (a * 60 + s) mod 60 = s" for s a :: int
  by simp_all

lemma iso_text_second:
  assumes "valid_day (y, m, d)" "valid_clock h mi s"
  shows "iso_text (second_of y m d h mi s) = iso_date (y, m, d) @ iso_clock h mi s"
proof -
  let ?n = "days_before_year y + days_before_month y m + d - 1" and ?t = "(h * 60 + mi) * 60 + s"
  from assms(2) have b: "0 \<le> h" "h \<le> 23" "0 \<le> mi" "mi \<le> 59" "0 \<le> s" "s \<le> 59" by (auto simp: valid_clock_def)
  have t: "0 \<le> ?t" using b by simp
  have "?t = 3600 * h + 60 * mi + s" by simp
  moreover have "3600 * h + 60 * mi + s < 86400" using b by linarith
  ultimately have t': "?t < 86400" by (simp only:)
  have "?t div 3600 = h"
  proof (rule int_div_pos_eq[of _ 3600 _ "mi * 60 + s"])
    show "?t = 3600 * h + (mi * 60 + s)" by simp
    show "0 \<le> mi * 60 + s" using b by simp
    show "mi * 60 + s < 3600" using b by linarith
  qed
  moreover have "?t div 60 = h * 60 + mi" "?t mod 60 = s" using b div60[of s "h * 60 + mi"] by simp_all
  moreover have "(h * 60 + mi) mod 60 = mi" using b div60(2)[of mi h] by simp
  ultimately have c: "0 \<le> ?t" "?t < 86400" "?t div 3600 = h" "?t div 60 mod 60 = mi" "?t mod 60 = s" using t t' by (simp_all only:)
  have "second_of y m d h mi s = ?n * 86400 + ?t" by (simp add: second_of_def)
  moreover have "(n * 86400 + t) div 86400 = n" "(n * 86400 + t) mod 86400 = t" if "0 \<le> t" "t < 86400" for n t :: int
    using that by simp_all
  ultimately have "second_of y m d h mi s div 86400 = ?n" "second_of y m d h mi s mod 86400 = ?t"
    using c(1,2) by (simp_all only:)
  then show ?thesis unfolding iso_text_def Let_def by (simp only: c civil_day[OF assms(1)])
qed

lemma iso_parse_shape:
  assumes "iso_parse t = Some w"
  shows "\<exists>y m d h mi s. valid_day (y, m, d) \<and> valid_clock h mi s \<and> w = second_of y m d h mi s
    \<and> t = iso_date (y, m, d) @ iso_clock h mi s"
proof -
  from assms have l: "length t = 25" "t ! 4 = 45" "t ! 7 = 45" "t ! 10 = 84" "t ! 13 = 58" "t ! 16 = 58" "drop 19 t = u ''+00:00''"
    by (auto simp: iso_parse_def split: if_splits)
  from assms l obtain y m d h mi s where n: "number (take 4 t) = Some y" "number (take 2 (drop 5 t)) = Some m"
    "number (take 2 (drop 8 t)) = Some d" "number (take 2 (drop 11 t)) = Some h" "number (take 2 (drop 14 t)) = Some mi"
    "number (take 2 (drop 17 t)) = Some s" and v: "valid_day (y, m, d)" "valid_clock h mi s" "w = second_of y m d h mi s"
    by (auto simp: iso_parse_def split: if_splits option.splits)
  obtain a0 a1 a2 a3 a4 a5 a6 a7 a8 a9 a10 a11 a12 a13 a14 a15 a16 a17 a18 r
    where t: "t = [a0, a1, a2, a3, a4, a5, a6, a7, a8, a9, a10, a11, a12, a13, a14, a15, a16, a17, a18] @ r"
    using l(1) by (auto simp: numeral_eq_Suc length_Suc_conv)
  have "pad4 y = [a0, a1, a2, a3]" "pad2 m = [a5, a6]" "pad2 d = [a8, a9]" "pad2 h = [a11, a12]" "pad2 mi = [a14, a15]"
    "pad2 s = [a17, a18]"
    using n unfolding t by (simp_all add: number_pad)
  then have "t = iso_date (y, m, d) @ iso_clock h mi s"
    using l(2-) unfolding t by (simp add: iso_date_def iso_clock_def)
  with v show ?thesis by blast
qed

end
