(* ===== verification/Sql_Guard.thy ===== *)
theory Sql_Guard
  imports Regex Calendar
begin

text \<open>
  \<^verbatim>\<open>query/app/core/sql_guard.py\<close>, \<^verbatim>\<open>relations.py\<close>, \<^verbatim>\<open>metrics.py\<close> and \<^verbatim>\<open>periods.py\<close>: the checks a
  generated query passes before it reaches the warehouse. The parser \<open>sqlglot\<close> is the record
  \<open>sqlglot\<close> of functions on an arbitrary type of expressions: parsing, the classes of a node, the
  nodes of a tree, and the attributes the checks read. Two fields are Python's Unicode tables.
\<close>

datatype exp_class =
    XSelect | XUnion | XInsert | XUpdate | XDelete | XCreate | XDrop | XCommand | XInto | XLock
  | XTransaction | XSet | XMerge | XCTE | XTable | XFunc | XAnonymous | XParameter
  | XSessionParameter | XAvg | XDiv | XParen | XCast | XNullif | XSum | XCount | XStar | XColumn
  | XDistinct | XAlias | XWhere | XPredicate | XLiteral | XEQ | XIn | XMonth | XBetween | XGTE
  | XLTE | XLT

record 'e sqlglot =
  sg_parse :: "str \<Rightarrow> 'e option list res"
  sg_parse_one :: "str \<Rightarrow> 'e res"
  sg_is :: "exp_class \<Rightarrow> 'e \<Rightarrow> bool"
  sg_walk :: "'e \<Rightarrow> 'e list"
  sg_name :: "'e \<Rightarrow> str"
  sg_alias :: "'e \<Rightarrow> str"
  sg_alias_or_name :: "'e \<Rightarrow> str"
  sg_sql_name :: "'e \<Rightarrow> str"
  sg_catalog :: "'e \<Rightarrow> str"
  sg_db :: "'e \<Rightarrow> str"
  sg_table :: "'e \<Rightarrow> str"
  sg_this :: "'e \<Rightarrow> 'e option"
  sg_text :: "'e \<Rightarrow> str"
  sg_expression :: "'e \<Rightarrow> 'e option"
  sg_expressions :: "'e \<Rightarrow> 'e list"
  sg_arg :: "str \<Rightarrow> 'e \<Rightarrow> 'e option"
  sg_args :: "str \<Rightarrow> 'e \<Rightarrow> 'e list"
  sg_limit :: "nat \<Rightarrow> 'e \<Rightarrow> 'e"
  sg_sql :: "'e \<Rightarrow> str"
  lower_table :: "int \<Rightarrow> str"
  upper_table :: "int \<Rightarrow> str"
  word_char :: "int \<Rightarrow> bool"

text \<open>\<open>isinstance\<close> with several classes, and \<open>find_all\<close>: the nodes of the tree that have one.\<close>

definition is_any :: "'e sqlglot \<Rightarrow> exp_class list \<Rightarrow> 'e \<Rightarrow> bool" where
  "is_any G cs n \<longleftrightarrow> list_ex (\<lambda>c. sg_is G c n) cs"

definition find_all :: "'e sqlglot \<Rightarrow> exp_class \<Rightarrow> 'e \<Rightarrow> 'e list" where
  "find_all G c t = filter (sg_is G c) (sg_walk G t)"

definition opt_is :: "'e sqlglot \<Rightarrow> exp_class list \<Rightarrow> 'e option \<Rightarrow> bool" where
  "opt_is G cs n \<longleftrightarrow> (case n of None \<Rightarrow> False | Some e \<Rightarrow> is_any G cs e)"

section \<open>sql_guard.py\<close>

definition TABLES :: "str list" where
  "TABLES = map u [''fact_order'', ''dim_region'', ''dim_customer'', ''dim_product'', ''dim_date'']"

definition MAX_ROWS :: nat where
  "MAX_ROWS = 500"

definition forbidden :: "exp_class list" where
  "forbidden = [XInsert, XUpdate, XDelete, XCreate, XDrop, XCommand, XInto, XLock, XTransaction, XSet, XMerge]"

definition denied_functions :: "str list" where
  "denied_functions = map u [''sleep'', ''benchmark'', ''load_file'', ''get_lock'', ''release_lock'',
     ''release_all_locks'', ''master_pos_wait'', ''source_pos_wait'']"

definition parse_error :: "exn \<Rightarrow> bool" where
  "parse_error e \<longleftrightarrow> (case e of OtherError c _ \<Rightarrow> c = u ''ParseError'' | _ \<Rightarrow> False)"

definition one_select :: "'e sqlglot \<Rightarrow> str \<Rightarrow> 'e res" where
  "one_select G sql = (case sg_parse G sql of
     Inl e \<Rightarrow> Inl (if parse_error e then ValueError (u ''SQL '' @ [26080, 27861, 35299, 26512, 65292, 35831, 26126, 30830, 26597, 35810,
      26465, 20214, 21518, 37325, 35797, 12290]) else e)
   | Inr statements \<Rightarrow> (case statements of
       [Some tree] \<Rightarrow> if is_any G [XSelect, XUnion] tree then Inr tree
         else Inl (ValueError ([21482, 20801, 35768, 19968, 26465] @ u '' SELECT '' @ [26597, 35810, 12290]))
     | _ \<Rightarrow> Inl (ValueError ([21482, 20801, 35768, 19968, 26465] @ u '' SELECT '' @ [26597, 35810, 12290]))))"

definition lower_name :: "'e sqlglot \<Rightarrow> str \<Rightarrow> str" where
  "lower_name G t = lower (lower_table G) t"

definition cte_names :: "'e sqlglot \<Rightarrow> 'e \<Rightarrow> str list" where
  "cte_names G tree = map (\<lambda>n. lower_name G (sg_alias_or_name G n)) (find_all G XCTE tree)"

definition table_allowed :: "'e sqlglot \<Rightarrow> str list \<Rightarrow> 'e \<Rightarrow> bool" where
  "table_allowed G ctes t \<longleftrightarrow> sg_catalog G t = [] \<and> sg_db G t = []
     \<and> lower_name G (sg_name G t) \<in> set (TABLES @ ctes)"

definition function_allowed :: "'e sqlglot \<Rightarrow> 'e \<Rightarrow> bool" where
  "function_allowed G n \<longleftrightarrow>
     lower_name G (if sg_is G XAnonymous n then sg_name G n else sg_sql_name G n) \<notin> set denied_functions"

definition check_tree :: "'e sqlglot \<Rightarrow> 'e \<Rightarrow> unit res" where
  "check_tree G tree =
     (if list_ex (is_any G forbidden) (sg_walk G tree)
      then Inl (ValueError ([26597, 35810, 19981, 33021, 20462, 25913, 25968, 25454, 12289, 20889, 25991, 20214,
      25110, 21152, 38145, 12290]))
      else if \<not> list_all (table_allowed G (cte_names G tree)) (find_all G XTable tree)
      then Inl (ValueError ([26597, 35810, 21482, 33021, 35775, 38382, 24403, 21069, 30005, 21830, 25968, 20179,
      30340, 20116, 24352, 19994, 21153, 34920, 12290]))
      else if \<not> list_all (function_allowed G) (find_all G XFunc tree)
      then Inl (ValueError ([26597, 35810, 21253, 21547, 19981, 20801, 35768, 30340, 20989, 25968, 12290]))
      else if list_ex (is_any G [XParameter, XSessionParameter]) (sg_walk G tree)
      then Inl (ValueError ([26597, 35810, 19981, 33021, 35775, 38382, 25968, 25454, 24211, 31995, 32479, 21464,
      37327, 12290]))
      else Inr ())"

text \<open>\<open>int(limit.expression.name)\<close>; a limit without an expression raises \<open>AttributeError\<close>.\<close>

definition limit_count :: "'e sqlglot \<Rightarrow> 'e \<Rightarrow> int option" where
  "limit_count G lim = (case sg_expression G lim of None \<Rightarrow> None
     | Some e \<Rightarrow> (case py_int (sg_name G e) of Inl _ \<Rightarrow> None | Inr n \<Rightarrow> Some n))"

definition limit_tree :: "'e sqlglot \<Rightarrow> 'e \<Rightarrow> 'e res" where
  "limit_tree G tree = (case sg_arg G (u ''limit'') tree of
     None \<Rightarrow> Inr (sg_limit G MAX_ROWS tree)
   | Some lim \<Rightarrow> (case limit_count G lim of
       None \<Rightarrow> Inl (ValueError (u ''LIMIT '' @ [24517, 39035, 26159, 25972, 25968, 12290]))
     | Some count \<Rightarrow> if count < 0 \<or> int MAX_ROWS < count then Inr (sg_limit G MAX_ROWS tree) else Inr tree))"

definition safe_sql :: "'e sqlglot \<Rightarrow> str \<Rightarrow> str res" where
  "safe_sql G sql = rbind (one_select G sql) (\<lambda>tree. rbind (check_tree G tree) (\<lambda>_.
     rbind (limit_tree G tree) (\<lambda>tree'. Inr (sg_sql G tree'))))"

section \<open>relations.py\<close>

definition KEYS :: "(str \<times> str) list" where
  "KEYS = map (map_prod u u) [(''dim_region'', ''region_id''), (''dim_customer'', ''customer_id''),
     (''dim_product'', ''product_id''), (''dim_date'', ''date_id'')]"

definition join_key :: "str option \<Rightarrow> str option \<Rightarrow> str option" where
  "join_key ta tb =
     (let key = (\<lambda>t. case t of None \<Rightarrow> None | Some t' \<Rightarrow> map_of KEYS t')
      in if ta = Some (u ''fact_order'') \<and> key tb \<noteq> None then key tb
         else if tb = Some (u ''fact_order'') \<and> key ta \<noteq> None then key ta else None)"

definition check_eq :: "'e sqlglot \<Rightarrow> (str \<times> str) list \<Rightarrow> 'e \<Rightarrow> unit res" where
  "check_eq G aliases eq = (case (sg_this G eq, sg_expression G eq) of
     (Some a, Some b) \<Rightarrow>
       if \<not> sg_is G XColumn a \<or> \<not> sg_is G XColumn b then Inr ()
       else (case join_key (map_of aliases (sg_table G a)) (map_of aliases (sg_table G b)) of
         None \<Rightarrow> Inr ()
       | Some key \<Rightarrow> if sg_name G a \<noteq> key \<or> sg_name G b \<noteq> key
           then Inl (ValueError (([20851, 32852, 38169, 35823, 65306] @ u ''fact_order '' @ [19982, 32500, 24230,
      34920, 24517, 39035, 20351, 29992] @ u '' '') @ key @ u '' = '' @ key
             @ ([65292, 19981, 33021, 29992, 21517, 31216, 20195, 26367] @ u '' ID'' @ [12290]))) else Inr ())
   | _ \<Rightarrow> Inr ())"

definition check_join :: "'e sqlglot \<Rightarrow> (str \<times> str) list \<Rightarrow> 'e \<Rightarrow> unit res" where
  "check_join G aliases jn = (case sg_arg G (u ''on'') jn of
     None \<Rightarrow>
       (let us = sg_args G (u ''using'') jn in
        if us = [] then Inl (ValueError ([19994, 21153, 34920, 20851, 32852, 24517, 39035, 20351, 29992, 26174, 24335, 22806,
      38190, 65292, 19981, 33021, 20351, 29992, 31515, 21345, 23572, 31215, 12290]))
        else (case sg_this G jn of
          None \<Rightarrow> Inr ()
        | Some t \<Rightarrow> if sg_is G XTable t \<and> map_of KEYS (sg_name G t) \<noteq> None
              \<and> map (sg_name G) us \<noteq> [the (map_of KEYS (sg_name G t))]
            then Inl (ValueError ([32500, 24230, 34920, 24517, 39035, 25353, 23545, 24212] @ u '' ID '' @ [22806,
      38190, 20851, 32852, 12290])) else Inr ()))
   | Some on \<Rightarrow> rfold (\<lambda>eq _. check_eq G aliases eq) (find_all G XEQ on) ())"

definition table_aliases :: "'e sqlglot \<Rightarrow> 'e \<Rightarrow> (str \<times> str) list" where
  "table_aliases G select = dict_of (map (\<lambda>t. (sg_alias_or_name G t, sg_name G t)) (find_all G XTable select))"

definition check_select :: "'e sqlglot \<Rightarrow> 'e \<Rightarrow> unit res" where
  "check_select G select = rfold (\<lambda>j _. check_join G (table_aliases G select) j) (sg_args G (u ''joins'') select) ()"

definition validate_relations :: "'e sqlglot \<Rightarrow> str \<Rightarrow> unit res" where
  "validate_relations G sql = rbind (sg_parse_one G sql) (\<lambda>tree.
     rfold (\<lambda>s _. check_select G s) (find_all G XSelect tree) ())"

section \<open>metrics.py\<close>

definition AOV :: "'e sqlglot \<Rightarrow> re" where
  "AOV G = alts [lit ([23458, 21333, 20215]), cats [WordB (word_char G), lit_ci (u ''aov''), WordB (word_char G)],
     lit ([24179, 22343, 35746, 21333, 37329, 39069]), lit_ci (u ''average_order_value''), lit_ci (u ''avg_order_value'')]"

text \<open>
  \<open>while isinstance(left, \<dots>): left = left.this\<close>. Each turn goes to a child, so the number of nodes
  of the tree bounds the turns.
\<close>

fun unwrap :: "'e sqlglot \<Rightarrow> exp_class list \<Rightarrow> nat \<Rightarrow> 'e option \<Rightarrow> 'e option" where
  "unwrap G cs 0 n = n"
| "unwrap G cs (Suc k) n = (if opt_is G cs n then unwrap G cs k (sg_this G (the n)) else n)"

definition opt_name_is :: "'e sqlglot \<Rightarrow> string \<Rightarrow> 'e option \<Rightarrow> bool" where
  "opt_name_is G nm n \<longleftrightarrow> (case n of None \<Rightarrow> False | Some e \<Rightarrow> sg_is G XColumn e \<and> sg_name G e = u nm)"

definition valid_ratio :: "'e sqlglot \<Rightarrow> 'e \<Rightarrow> bool" where
  "valid_ratio G n =
     (let k = length (sg_walk G n);
          left = unwrap G [XParen, XCast] k (sg_this G n);
          right = unwrap G [XParen, XNullif, XCast] k (sg_expression G n)
      in opt_is G [XSum] left \<and> opt_name_is G ''order_amount'' (sg_this G (the left)) \<and> opt_is G [XCount] right
         \<and> (let arg = sg_this G (the right)
            in opt_is G [XStar] arg \<or> opt_name_is G ''order_id'' arg
               \<or> (opt_is G [XDistinct] arg \<and> (case sg_expressions G (the arg) of
                    [c] \<Rightarrow> opt_name_is G ''order_id'' (Some c) | _ \<Rightarrow> False))))"

definition valid_aov :: "'e sqlglot \<Rightarrow> 'e \<Rightarrow> bool" where
  "valid_aov G tree \<longleftrightarrow> list_ex (\<lambda>n. opt_name_is G ''order_amount'' (sg_this G n)) (find_all G XAvg tree)
     \<or> list_ex (valid_ratio G) (find_all G XDiv tree)"

definition aov_error :: exn where
  "aov_error = ValueError ([23458, 21333, 20215, 24517, 39035, 20351, 29992] @ u '' AVG(order_amount) '' @
      [25110] @ u '' SUM(order_amount)/COUNT(DISTINCT order_id)'' @ [65292, 19981,
      33021, 29992, 26085, 26399, 25968, 25110, 21830, 21697, 25968, 37327, 20316,
      20998, 27597, 12290])"

definition aov_target :: "'e sqlglot \<Rightarrow> 'e option \<Rightarrow> unit res" where
  "aov_target G n = (case n of None \<Rightarrow> Inl AttributeError
     | Some t \<Rightarrow> if valid_aov G t then Inr () else Inl aov_error)"

definition validate_metrics :: "'e sqlglot \<Rightarrow> str \<Rightarrow> str \<Rightarrow> unit res" where
  "validate_metrics G question sql =
     (if \<not> search (AOV G) question then Inr ()
      else rbind (sg_parse_one G sql) (\<lambda>tree.
        let targets = map (sg_this G) (filter (\<lambda>n. search (AOV G) (sg_alias G n)) (find_all G XAlias tree))
        in rfold (\<lambda>t _. aov_target G t) (if targets = [] then [Some tree] else targets) ()))"

section \<open>periods.py\<close>

definition date_value :: "'e sqlglot \<Rightarrow> 'e option \<Rightarrow> day option" where
  "date_value G n = (case n of None \<Rightarrow> None | Some e \<Rightarrow>
     if \<not> sg_is G XLiteral e then None
     else (let raw = filter (\<lambda>c. c \<noteq> 45 \<and> c \<noteq> 47) (sg_text G e) in
       if length raw \<noteq> 8 then None
       else (case (py_int (take 4 raw), py_int (take 2 (drop 4 raw)), py_int (drop 6 raw)) of
         (Inr y, Inr m, Inr d) \<Rightarrow> make_date y m d | _ \<Rightarrow> None)))"

definition year_pattern :: re where
  "year_pattern = cats [Grp 1 (cats [lit (u ''20''), Rep is_decimal 2 (Some 2)]), Rep is_space 0 None,
     Cls (\<lambda>c. c = 24180 \<or> c = 45 \<or> c = 47)]"

definition years_in :: "str \<Rightarrow> str list" where
  "years_in q = map (\<lambda>mg. group 1 (snd mg)) (matches year_pattern q)"

definition says :: "str list \<Rightarrow> str \<Rightarrow> bool" where
  "says ws q \<longleftrightarrow> list_ex (\<lambda>w. contains w q) ws"

definition this_year :: "str list" where
  "this_year = [([20170, 24180]), ([26412, 24180])]"

definition last_year :: str where
  "last_year = ([21435, 24180])"

text \<open>\<open>int\<close> of four decimal digits does not fail.\<close>

definition year_of :: "str \<Rightarrow> int" where
  "year_of t = (case py_int t of Inl _ \<Rightarrow> 0 | Inr n \<Rightarrow> n)"

definition asked_year :: "str \<Rightarrow> int \<Rightarrow> int option" where
  "asked_year q today = (case years_in q of
     t # ts \<Rightarrow> if list_all (\<lambda>t'. t' = t) ts then Some (year_of t) else None
   | [] \<Rightarrow> if says this_year q then Some today else if says [last_year] q then Some (today - 1) else None)"

definition year_literal :: "int \<Rightarrow> str \<Rightarrow> bool" where
  "year_literal y v \<longleftrightarrow> v = dec y \<or> startswith v (dec y) \<and> (length v = 8 \<or> length v = 10)"

definition year_predicate :: "'e sqlglot \<Rightarrow> int \<Rightarrow> 'e \<Rightarrow> bool" where
  "year_predicate G y p \<longleftrightarrow>
     list_ex (\<lambda>c. sg_name G c = u ''year'' \<or> sg_name G c = u ''date_id'') (find_all G XColumn p)
     \<and> list_ex (\<lambda>n. year_literal y (sg_text G n)) (find_all G XLiteral p)"

definition year_where :: "'e sqlglot \<Rightarrow> int \<Rightarrow> int \<Rightarrow> 'e \<Rightarrow> bool" where
  "year_where G y today w \<longleftrightarrow> list_ex (year_predicate G y) (find_all G XPredicate w)
     \<or> (y = today \<and> contains (u ''YEAR(CURRENT_DATE)'') (upper (upper_table G) (sg_sql G w)))"

definition validate_year :: "'e sqlglot \<Rightarrow> int \<Rightarrow> str \<Rightarrow> str \<Rightarrow> unit res" where
  "validate_year G today question sql = (case asked_year question today of
     None \<Rightarrow> Inr ()
   | Some y \<Rightarrow> rbind (sg_parse_one G sql) (\<lambda>tree.
       if list_ex (year_where G y today) (find_all G XWhere tree) then Inr ()
       else Inl (ValueError (([38382, 39064, 25351, 23450, 20102] @ u '' '') @ dec y @ (u '' '' @ [24180, 65292] @ u ''SQL '' @ [24517, 39035, 20445, 30041] @ u '' year='') @ dec y
         @ (u '' '' @ [25110, 35813, 24180] @ u '' date_id '' @ [33539, 22260, 65292, 19981,
      33021, 25913, 26597, 20840, 37096, 21382, 21490, 35746, 21333, 12290])))))"

definition chinese_months :: "(str \<times> int) list" where
  "chinese_months = map (\<lambda>i. (dec (int i), int i)) [1..<13]
     @ [(([19968]), 1), (([20108]), 2), (([19977]), 3), (([22235]), 4), (([20116]), 5), (([20845]), 6), (([19971]), 7),
        (([20843]), 8), (([20061]), 9), (([21313]), 10), (([21313, 19968]), 11), (([21313, 20108]), 12)]"

definition month_pattern :: re where
  "month_pattern = cats [Grp 1 (alts [Rep is_decimal 1 (Some 2), lit ([21313, 19968]), lit ([21313, 20108]),
     Cls (\<lambda>c. c \<in> set ([19968, 20108, 19977, 22235, 20116, 20845, 19971, 20843, 20061, 21313]))]), Rep is_space 0 None, lit ([26376])]"

definition months_in :: "str \<Rightarrow> int option list" where
  "months_in q = uniq (map (\<lambda>mg. map_of chinese_months (dropWhile (\<lambda>c. c = 48) (group 1 (snd mg))))
     (matches month_pattern q))"

text \<open>The month the question asks for, and the year where it is known.\<close>

definition asked_month :: "str \<Rightarrow> int option" where
  "asked_month q = (case months_in q of [Some m] \<Rightarrow> Some m | _ \<Rightarrow> None)"

definition month_year :: "str \<Rightarrow> int \<Rightarrow> int option" where
  "month_year q today = (case uniq (years_in q) of
     [t] \<Rightarrow> Some (year_of t)
   | [] \<Rightarrow> if says this_year q \<or> says [last_year] q
       then Some (today - (if says [last_year] q then 1 else 0)) else None
   | _ \<Rightarrow> None)"

definition requested :: "int \<Rightarrow> int option \<Rightarrow> day option \<Rightarrow> bool" where
  "requested month year v = (case v of None \<Rightarrow> False
     | Some (y, m, d) \<Rightarrow> m = month \<and> (case year of None \<Rightarrow> True | Some y' \<Rightarrow> y = y'))"

definition month_literal :: "'e sqlglot \<Rightarrow> int \<Rightarrow> 'e option \<Rightarrow> bool" where
  "month_literal G month v \<longleftrightarrow> (case v of None \<Rightarrow> False
     | Some e \<Rightarrow> sg_is G XLiteral e \<and> sg_text G e = dec month)"

definition month_predicate :: "'e sqlglot \<Rightarrow> int \<Rightarrow> 'e \<Rightarrow> bool" where
  "month_predicate G month p \<longleftrightarrow> is_any G [XEQ, XIn] p
     \<and> (opt_name_is G ''month'' (sg_this G p) \<or> opt_is G [XMonth] (sg_this G p))
     \<and> (let values = (if sg_is G XIn p then map Some (sg_expressions G p) else [sg_expression G p])
        in values \<noteq> [] \<and> list_all (month_literal G month) values)"

definition on_date_id :: "'e sqlglot \<Rightarrow> 'e \<Rightarrow> bool" where
  "on_date_id G p \<longleftrightarrow> (case sg_this G p of None \<Rightarrow> False
     | Some l \<Rightarrow> list_ex (\<lambda>c. sg_name G c = u ''date_id'') (find_all G XColumn l))"

definition exact_predicate :: "'e sqlglot \<Rightarrow> int \<Rightarrow> int option \<Rightarrow> 'e \<Rightarrow> bool" where
  "exact_predicate G month year p \<longleftrightarrow> on_date_id G p \<and>
     ((sg_is G XBetween p \<and> requested month year (date_value G (sg_arg G (u ''low'') p))
         \<and> requested month year (date_value G (sg_arg G (u ''high'') p)))
      \<or> (sg_is G XEQ p \<and> requested month year (date_value G (sg_expression G p))))"

definition lower_bounds :: "'e sqlglot \<Rightarrow> int \<Rightarrow> int option \<Rightarrow> 'e list \<Rightarrow> day list" where
  "lower_bounds G month year ps = concat (map (\<lambda>p.
     if on_date_id G p \<and> sg_is G XGTE p \<and> requested month year (date_value G (sg_expression G p))
     then [the (date_value G (sg_expression G p))] else []) ps)"

definition upper_bounds :: "'e sqlglot \<Rightarrow> 'e list \<Rightarrow> (day \<times> bool) list" where
  "upper_bounds G ps = concat (map (\<lambda>p.
     if on_date_id G p \<and> is_any G [XLTE, XLT] p then
       (case date_value G (sg_expression G p) of None \<Rightarrow> [] | Some v \<Rightarrow> [(v, sg_is G XLT p)]) else []) ps)"

text \<open>A lower and an upper bound that together stay within the month; \<open>date(10000, 1, 1)\<close> raises.\<close>

definition closes :: "int \<Rightarrow> day \<Rightarrow> day \<times> bool \<Rightarrow> bool" where
  "closes month low hx = (case (low, hx) of ((y, m, d), (high, exclusive)) \<Rightarrow>
     (low \<le> high \<and> high \<le> (y, month, month_days y month))
     \<or> (exclusive \<and> high = (y + (if month = 12 then 1 else 0), month mod 12 + 1, 1)))"

definition bounded_where :: "'e sqlglot \<Rightarrow> int \<Rightarrow> int option \<Rightarrow> 'e \<Rightarrow> bool res" where
  "bounded_where G month year w =
     (let ps = find_all G XPredicate w in
      if list_ex (\<lambda>p. month_predicate G month p \<or> exact_predicate G month year p) ps then Inr True
      else rfold (\<lambda>low b. if b then Inr True
          else if fst low = 9999 \<and> month = 12 then Inl (ValueError (u ''year 10000 is out of range''))
          else Inr (list_ex (closes month low) (upper_bounds G ps))) (lower_bounds G month year ps) False)"

definition validate_period :: "'e sqlglot \<Rightarrow> int \<Rightarrow> str \<Rightarrow> str \<Rightarrow> unit res" where
  "validate_period G today question sql = rbind (validate_year G today question sql) (\<lambda>_.
     case asked_month question of
       None \<Rightarrow> Inr ()
     | Some month \<Rightarrow> rbind (sg_parse_one G sql) (\<lambda>tree.
         rbind (rfold (\<lambda>w b. if b then Inr True else bounded_where G month (month_year question today) w)
           (find_all G XWhere tree) False) (\<lambda>b.
         if b then Inr ()
         else Inl (ValueError (([38382, 39064, 25351, 23450, 20102] @ u '' '') @ dec month @ (u '' '' @ [26376, 65292] @ u ''SQL '' @ [24517, 39035, 20445, 30041] @ u '' month='') @ dec month
           @ (u '' '' @ [25110, 35813, 26376] @ u '' date_id '' @ [30340, 19978, 19979, 30028,
      65292, 19981, 33021, 21482, 25353, 24180, 20221, 26597, 35810, 12290]))))))"

section \<open>What is sent parses to what was checked\<close>

text \<open>
  Documented behaviour of \<open>sqlglot\<close>: generated text parses back to its tree, and \<open>limit(n)\<close> sets
  the limit of a query to the literal \<open>n\<close>, keeping it a query with the same common table
  expressions and adding no node of a class that the guard looks at.
\<close>

definition guarded :: "exp_class list" where
  "guarded = forbidden @ [XTable, XFunc, XParameter, XSessionParameter, XCTE]"

definition limit_law :: "'e sqlglot \<Rightarrow> 'e \<Rightarrow> 'e \<Rightarrow> bool" where
  "limit_law G t t' \<longleftrightarrow> is_any G [XSelect, XUnion] t' = is_any G [XSelect, XUnion] t
     \<and> (case sg_arg G (u ''limit'') t' of None \<Rightarrow> False
        | Some lim \<Rightarrow> limit_count G lim = Some (int MAX_ROWS))
     \<and> (\<forall>n \<in> set (sg_walk G t'). n \<in> set (sg_walk G t) \<or> \<not> is_any G guarded n)
     \<and> set (find_all G XCTE t) \<subseteq> set (sg_walk G t')"

definition parser_laws :: "'e sqlglot \<Rightarrow> bool" where
  "parser_laws G \<longleftrightarrow> (\<forall>t. sg_parse G (sg_sql G t) = Inr [Some t]) \<and> (\<forall>t. limit_law G t (sg_limit G MAX_ROWS t))"

definition sendable :: "'e sqlglot \<Rightarrow> 'e \<Rightarrow> bool" where
  "sendable G t \<longleftrightarrow> is_any G [XSelect, XUnion] t \<and> check_tree G t = Inr ()
     \<and> (\<exists>lim n. sg_arg G (u ''limit'') t = Some lim \<and> limit_count G lim = Some n \<and> 0 \<le> n \<and> n \<le> int MAX_ROWS)"

lemma check_tree_iff: "check_tree G tree = Inr () \<longleftrightarrow>
    (\<forall>n \<in> set (sg_walk G tree). \<not> is_any G forbidden n \<and> \<not> is_any G [XParameter, XSessionParameter] n
      \<and> (sg_is G XTable n \<longrightarrow> table_allowed G (cte_names G tree) n)
      \<and> (sg_is G XFunc n \<longrightarrow> function_allowed G n))"
  by (auto simp: check_tree_def list_all_iff list_ex_iff find_all_def)

lemma table_allowed_mono: "table_allowed G cs t \<Longrightarrow> set cs \<subseteq> set cs' \<Longrightarrow> table_allowed G cs' t"
  by (auto simp: table_allowed_def)

lemma guarded_class: "\<not> is_any G guarded n \<Longrightarrow> \<not> is_any G forbidden n \<and> \<not> is_any G [XParameter, XSessionParameter] n
    \<and> \<not> sg_is G XTable n \<and> \<not> sg_is G XFunc n"
  by (auto simp: is_any_def guarded_def)

lemma check_tree_limit:
  assumes law: "limit_law G t t'" and ok: "check_tree G t = Inr ()"
  shows "check_tree G t' = Inr ()"
  unfolding check_tree_iff
proof
  have old: "\<forall>n \<in> set (sg_walk G t'). n \<in> set (sg_walk G t) \<or> \<not> is_any G guarded n"
    and sub: "set (find_all G XCTE t) \<subseteq> set (sg_walk G t')"
    using law by (simp_all add: limit_law_def)
  have "set (find_all G XCTE t) \<subseteq> set (find_all G XCTE t')"
    using sub unfolding find_all_def by auto
  then have ctes: "set (cte_names G t) \<subseteq> set (cte_names G t')" unfolding cte_names_def set_map by (rule image_mono)
  fix n assume n: "n \<in> set (sg_walk G t')"
  show "\<not> is_any G forbidden n \<and> \<not> is_any G [XParameter, XSessionParameter] n
      \<and> (sg_is G XTable n \<longrightarrow> table_allowed G (cte_names G t') n) \<and> (sg_is G XFunc n \<longrightarrow> function_allowed G n)"
  proof (cases "n \<in> set (sg_walk G t)")
    case True
    then have "\<not> is_any G forbidden n \<and> \<not> is_any G [XParameter, XSessionParameter] n
      \<and> (sg_is G XTable n \<longrightarrow> table_allowed G (cte_names G t) n) \<and> (sg_is G XFunc n \<longrightarrow> function_allowed G n)"
      using ok unfolding check_tree_iff by (rule bspec[rotated])
    then show ?thesis using table_allowed_mono[OF _ ctes, of G n] by blast
  next
    case False
    then have "\<not> is_any G guarded n" using bspec[OF old n] by simp
    from guarded_class[OF this] show ?thesis by simp
  qed
qed

lemma limit_tree_sendable:
  assumes "limit_law G t (sg_limit G MAX_ROWS t)" and "is_any G [XSelect, XUnion] t" and "check_tree G t = Inr ()"
    and "limit_tree G t = Inr t'"
  shows "sendable G t' \<and> limit_tree G t' = Inr t'"
proof -
  have lim: "sendable G (sg_limit G MAX_ROWS t)"
  proof (cases "sg_arg G (u ''limit'') (sg_limit G MAX_ROWS t)")
    case None
    then show ?thesis using assms(1) by (simp add: limit_law_def)
  next
    case (Some l)
    then have "limit_count G l = Some (int MAX_ROWS)" "is_any G [XSelect, XUnion] (sg_limit G MAX_ROWS t)"
      using assms(1,2) by (simp_all add: limit_law_def)
    then show ?thesis using Some check_tree_limit[OF assms(1,3)] by (simp add: sendable_def)
  qed
  have "t' = sg_limit G MAX_ROWS t \<or> t' = t \<and> sendable G t"
    using assms(2,3,4) by (auto simp: limit_tree_def sendable_def split: option.splits if_splits)
  then have "sendable G t'" using lim by blast
  moreover have "limit_tree G t' = Inr t'" if "sendable G t'"
    using that by (auto simp: limit_tree_def sendable_def)
  ultimately show ?thesis by blast
qed

lemma safe_sql_tree:
  assumes "safe_sql G sql = Inr out" and "parser_laws G"
  shows "\<exists>t. out = sg_sql G t \<and> sendable G t \<and> limit_tree G t = Inr t"
proof -
  obtain tree t' where t: "one_select G sql = Inr tree" "check_tree G tree = Inr ()" "limit_tree G tree = Inr t'"
    "out = sg_sql G t'" using assms(1) by (auto simp: safe_sql_def rbind_eq_Inr)
  have "is_any G [XSelect, XUnion] tree" using t(1) by (auto simp: one_select_def split: sum.splits list.splits option.splits if_splits)
  then show ?thesis using limit_tree_sendable[OF _ _ t(2,3)] assms(2) t(4) unfolding parser_laws_def by blast
qed

lemma safe_sql_again:
  assumes "safe_sql G sql = Inr out" and "parser_laws G"
  shows "safe_sql G out = Inr out \<and> (\<exists>t. sg_parse G out = Inr [Some t] \<and> sendable G t)"
proof -
  obtain t where t: "out = sg_sql G t" "sendable G t" "limit_tree G t = Inr t"
    using safe_sql_tree[OF assms] by blast
  have p: "sg_parse G out = Inr [Some t]" using assms(2) t(1) by (simp add: parser_laws_def)
  then show ?thesis using t by (simp add: safe_sql_def one_select_def sendable_def)
qed

section \<open>Properties\<close>


text \<open>A parser for witnesses: trees are integers, \<open>-1\<close> is the query with a limit.\<close>

definition sample_sqlglot :: "int sqlglot" where
  "sample_sqlglot = \<lparr>sg_parse = \<lambda>s. case py_int s of Inl _ \<Rightarrow> Inl (OtherError (u ''ParseError'') []) | Inr n \<Rightarrow> Inr [Some n],
     sg_parse_one = py_int, sg_is = \<lambda>c t. c = XSelect, sg_walk = \<lambda>t. [t], sg_name = dec,
     sg_alias = \<lambda>_. [], sg_alias_or_name = \<lambda>_. [], sg_sql_name = \<lambda>_. [], sg_catalog = \<lambda>_. [],
     sg_db = \<lambda>_. [], sg_table = \<lambda>_. [], sg_this = \<lambda>_. None, sg_text = dec, sg_expression = Some,
     sg_expressions = \<lambda>_. [], sg_arg = \<lambda>k t. if k = u ''limit'' \<and> t < 0 then Some 500 else None,
     sg_args = \<lambda>_ _. [], sg_limit = \<lambda>_ t. -1 - abs t, sg_sql = dec, lower_table = \<lambda>c. [c],
     upper_table = \<lambda>c. [c], word_char = \<lambda>c. True\<rparr>"


lemma sample_sqlglot_laws: "parser_laws sample_sqlglot"
  by (auto simp: parser_laws_def limit_law_def sample_sqlglot_def py_int_dec is_any_def guarded_def forbidden_def
      limit_count_def MAX_ROWS_def find_all_def)




end
