(* ===== verification/Query_Agent.thy ===== *)
theory Query_Agent
  imports Retrieval Sql_Guard Json_Parse
begin

text \<open>
  The question-answering agent of \<^verbatim>\<open>query/app/agent\<close>: its state, the twelve nodes, the graph that
  composes them, the warehouse repository (\<^verbatim>\<open>dw_mysql_repository.py\<close>) and the service that turns the
  events into a stream (\<^verbatim>\<open>query_service.py\<close>). A node is a computation on the log of one query: the
  events it writes and the statements it sends to the warehouse, in order. What the language model,
  jieba, the vector and text indexes, the metadata store and the warehouse answer in one run is the
  record \<open>query_env\<close>. Nodes that LangGraph runs in one superstep are interleaved by a schedule, and
  the first of them to fail ends the run.
\<close>

datatype qlog = QEvent json | QSql str

section \<open>State and environment\<close>

record MetricInfoState =
  ms_name :: str
  ms_description :: str
  ms_columns :: "str list"
  ms_alias :: "str list"

record ColumnInfoState =
  cs_name :: str
  cs_type :: str
  cs_role :: str
  cs_examples :: "json list"
  cs_description :: str
  cs_alias :: "str list"

record TableInfoState =
  ts_name :: str
  ts_role :: str
  ts_description :: str
  ts_columns :: "ColumnInfoState list"

record DateInfoState =
  di_date :: str
  di_weekday :: str
  di_quarter :: str

record DBInfoState =
  db_dialect :: str
  db_version :: json

record agent_context =
  ac_tables :: "TableInfoState list"
  ac_metrics :: "MetricInfoState list"
  ac_date :: DateInfoState
  ac_db :: DBInfoState

record ('e, 'v) query_env =
  qe_sqlglot :: "'e sqlglot"
  qe_today :: day
  qe_date_text :: str
  qe_weekday :: str
  qe_tags :: "str \<Rightarrow> str list res"
  qe_json :: "str \<Rightarrow> (str \<times> str) list \<Rightarrow> json res"
  qe_text :: "str \<Rightarrow> (str \<times> str) list \<Rightarrow> str res"
  qe_yaml :: "json \<Rightarrow> str"
  qe_embed :: "str list \<Rightarrow> 'v list res"
  qe_late :: "str \<Rightarrow> bool"
  qe_first :: "exn list \<Rightarrow> exn"
  qe_columns :: "'v \<Rightarrow> ColumnInfo list res"
  qe_metrics :: "'v \<Rightarrow> MetricInfo list res"
  qe_values :: "str \<Rightarrow> ValueInfo list res"
  qe_meta_column :: "str \<Rightarrow> ColumnInfo option res"
  qe_meta_keys :: "str \<Rightarrow> ColumnInfo list res"
  qe_meta_table :: "str \<Rightarrow> TableInfo option res"
  qe_dialect :: str
  qe_sql :: "qlog list \<Rightarrow> str \<Rightarrow> json res"
  qe_str :: "exn \<Rightarrow> str"

type_synonym 'a node = "(qlog list, 'a) M"

definition tell :: "json \<Rightarrow> unit node" where
  "tell e = modify (\<lambda>l. l @ [QEvent e])"

definition progress :: "str \<Rightarrow> string \<Rightarrow> json" where
  "progress step status = JObj [(u ''type'', JStr (u ''progress'')), (u ''step'', JStr step),
     (u ''status'', JStr (u status))]"

text \<open>The frame every node has: running, then success or error, the exception passed on.\<close>

definition node :: "str \<Rightarrow> 'a node \<Rightarrow> 'a node" where
  "node step body = sq (tell (progress step ''running''))
     (catch body (\<lambda>e. sq (tell (progress step ''error'')) (raise e)))"

definition succeed :: "str \<Rightarrow> 'a \<Rightarrow> 'a node" where
  "succeed step x = sq (tell (progress step ''success'')) (ret x)"

section \<open>The warehouse repository\<close>

definition execute :: "('e, 'v) query_env \<Rightarrow> str \<Rightarrow> json node" where
  "execute E sql = bnd (gets id) (\<lambda>l. sq (modify (\<lambda>l. l @ [QSql sql])) (lift (qe_sql E l sql)))"

definition version_sql :: str where
  "version_sql = u ''select version()''"

definition time_limit_sql :: str where
  "time_limit_sql = u ''SET SESSION MAX_EXECUTION_TIME=5000''"

definition get_db_info :: "('e, 'v) query_env \<Rightarrow> DBInfoState node" where
  "get_db_info E = bnd (execute E version_sql) (\<lambda>v. ret \<lparr>db_dialect = qe_dialect E, db_version = v\<rparr>)"

definition dw_validate :: "('e, 'v) query_env \<Rightarrow> str \<Rightarrow> unit node" where
  "dw_validate E sql = bnd (lift (safe_sql (qe_sqlglot E) sql)) (\<lambda>s.
     bnd (execute E (u ''explain '' @ s)) (\<lambda>_. ret ()))"

definition dw_run :: "('e, 'v) query_env \<Rightarrow> str \<Rightarrow> json list node" where
  "dw_run E sql = bnd (lift (safe_sql (qe_sqlglot E) sql)) (\<lambda>s.
     sq (execute E time_limit_sql) (bnd (execute E s) (\<lambda>rows. lift (as_list rows))))"

section \<open>Keywords and recall\<close>

definition extract_keywords :: "('e, 'v) query_env \<Rightarrow> str \<Rightarrow> str list node" where
  "extract_keywords E query = node ([25277, 21462, 20851, 38190, 35789])
     (bnd (lift (qe_tags E query)) (\<lambda>tags. succeed ([25277, 21462, 20851, 38190, 35789]) (uniq (query # tags))))"

definition recall_column :: "('e, 'v) query_env \<Rightarrow> str \<Rightarrow> str list \<Rightarrow> ColumnInfo list node" where
  "recall_column E query keywords = node ([21484, 22238, 23383, 27573, 20449, 24687])
     (bnd (lift (qe_json E (u ''extend_keywords_for_column_recall'') [(u ''query'', query)])) (\<lambda>result.
      bnd (lift (retrieval_terms query keywords result)) (\<lambda>ts.
      bnd (lift (vector_recall (qe_first E) (qe_late E (u ''column'')) (qe_embed E) (qe_columns E) ci_id ts))
        (succeed ([21484, 22238, 23383, 27573, 20449, 24687])))))"

definition recall_metric :: "('e, 'v) query_env \<Rightarrow> str \<Rightarrow> str list \<Rightarrow> MetricInfo list node" where
  "recall_metric E query keywords = node ([21484, 22238, 25351, 26631, 20449, 24687])
     (bnd (lift (qe_json E (u ''extend_keywords_for_metric_recall'') [(u ''query'', query)])) (\<lambda>result.
      bnd (lift (retrieval_terms query keywords result)) (\<lambda>ts.
      bnd (lift (vector_recall (qe_first E) (qe_late E (u ''metric'')) (qe_embed E) (qe_metrics E) mi_id ts))
        (succeed ([21484, 22238, 25351, 26631, 20449, 24687])))))"

definition recall_value :: "('e, 'v) query_env \<Rightarrow> str \<Rightarrow> str list \<Rightarrow> ValueInfo list node" where
  "recall_value E query keywords = node ([21484, 22238, 23383, 27573, 21462, 20540])
     (bnd (lift (qe_json E (u ''extend_keywords_for_value_recall'') [(u ''query'', query)])) (\<lambda>result.
      bnd (lift (retrieval_terms query keywords result)) (\<lambda>ts.
      bnd (lift (value_recall (qe_first E) (qe_late E (u ''value'')) (qe_values E) vi_id ts))
        (succeed ([21484, 22238, 23383, 27573, 21462, 20540])))))"

section \<open>Merging\<close>

type_synonym column_map = "(str \<times> ColumnInfo option) list"

definition ensure_column :: "('e, 'v) query_env \<Rightarrow> str \<Rightarrow> column_map \<Rightarrow> column_map res" where
  "ensure_column E c m = (if map_of m c \<noteq> None then Inr m
     else rbind (qe_meta_column E c) (\<lambda>col. Inr (AList.update c col m)))"

definition add_value :: "('e, 'v) query_env \<Rightarrow> ValueInfo \<Rightarrow> column_map \<Rightarrow> column_map res" where
  "add_value E v m = rbind (ensure_column E (vi_column v) m) (\<lambda>m'.
     case map_of m' (vi_column v) of
       Some (Some col) \<Rightarrow> Inr (if JStr (vi_value v) \<in> set (ci_examples col) then m'
         else AList.update (vi_column v) (Some (col\<lparr>ci_examples := ci_examples col @ [JStr (vi_value v)]\<rparr>)) m')
     | _ \<Rightarrow> Inl AttributeError)"

definition group_column :: "ColumnInfo option \<Rightarrow> (str \<times> ColumnInfo list) list \<Rightarrow> (str \<times> ColumnInfo list) list res" where
  "group_column c g = (case c of None \<Rightarrow> Inl AttributeError
     | Some col \<Rightarrow> Inr (AList.update (ci_table col) (dict_get g (ci_table col) [] @ [col]) g))"

definition add_keys :: "('e, 'v) query_env \<Rightarrow> str \<times> ColumnInfo list \<Rightarrow> (str \<times> ColumnInfo list) res" where
  "add_keys E tc = rbind (qe_meta_keys E (fst tc)) (\<lambda>keys.
     Inr (fst tc, snd tc @ filter (\<lambda>k. ci_id k \<notin> ci_id ` set (snd tc)) keys))"

definition column_state :: "ColumnInfo \<Rightarrow> ColumnInfoState" where
  "column_state c = \<lparr>cs_name = ci_name c, cs_type = ci_type c, cs_role = ci_role c, cs_examples = ci_examples c,
     cs_description = ci_description c, cs_alias = ci_alias c\<rparr>"

definition table_state :: "('e, 'v) query_env \<Rightarrow> str \<times> ColumnInfo list \<Rightarrow> TableInfoState res" where
  "table_state E tc = rbind (qe_meta_table E (fst tc)) (\<lambda>info. case info of None \<Rightarrow> Inl AttributeError
     | Some t \<Rightarrow> Inr \<lparr>ts_name = ti_name t, ts_role = ti_role t, ts_description = ti_description t,
         ts_columns = map column_state (snd tc)\<rparr>)"

definition metric_state :: "MetricInfo \<Rightarrow> MetricInfoState" where
  "metric_state m = \<lparr>ms_name = mi_name m, ms_description = mi_description m, ms_columns = mi_columns m,
     ms_alias = mi_alias m\<rparr>"

definition merged_columns ::
    "('e, 'v) query_env \<Rightarrow> ColumnInfo list \<Rightarrow> MetricInfo list \<Rightarrow> ValueInfo list \<Rightarrow> column_map res" where
  "merged_columns E columns metrics values =
     rbind (rfold (ensure_column E) (concat (map mi_columns metrics))
       (dict_of (map (\<lambda>c. (ci_id c, Some c)) columns))) (rfold (add_value E) values)"

definition merge_tables ::
    "('e, 'v) query_env \<Rightarrow> ColumnInfo list \<Rightarrow> MetricInfo list \<Rightarrow> ValueInfo list \<Rightarrow> TableInfoState list res" where
  "merge_tables E columns metrics values =
     rbind (merged_columns E columns metrics values) (\<lambda>m.
     rbind (rfold group_column (map snd m) []) (\<lambda>g.
     rbind (rmap (add_keys E) g) (rmap (table_state E))))"

definition merge_retrieved_info ::
    "('e, 'v) query_env \<Rightarrow> ColumnInfo list \<Rightarrow> MetricInfo list \<Rightarrow> ValueInfo list \<Rightarrow>
     (TableInfoState list \<times> MetricInfoState list) node" where
  "merge_retrieved_info E columns metrics values = node ([21512, 24182, 21484, 22238, 20449, 24687])
     (bnd (lift (merge_tables E columns metrics values)) (\<lambda>tables.
      succeed ([21512, 24182, 21484, 22238, 20449, 24687]) (tables, map metric_state metrics)))"

section \<open>Filtering\<close>

text \<open>\<open>name in result\<close> and \<open>result[name]\<close> for what the model returned.\<close>

definition py_in :: "str \<Rightarrow> json \<Rightarrow> bool res" where
  "py_in k j = (case j of JObj d \<Rightarrow> Inr (map_of d k \<noteq> None) | JList xs \<Rightarrow> Inr (JStr k \<in> set xs)
     | JStr t \<Rightarrow> Inr (contains k t) | _ \<Rightarrow> Inl TypeError)"

fun rfilter :: "('a \<Rightarrow> bool res) \<Rightarrow> 'a list \<Rightarrow> 'a list res" where
  "rfilter p [] = Inr []"
| "rfilter p (x # xs) = rbind (p x) (\<lambda>b. rbind (rfilter p xs) (\<lambda>ys. Inr (if b then x # ys else ys)))"

definition keep_column :: "json \<Rightarrow> str \<Rightarrow> ColumnInfoState \<Rightarrow> bool res" where
  "keep_column result table c = rbind (jget result table) (\<lambda>chosen. rbind (py_in (cs_name c) chosen) (\<lambda>b.
     Inr (b \<or> cs_role c = u ''primary_key'' \<or> cs_role c = u ''foreign_key'' \<or> table = u ''dim_date'')))"

fun filter_tables :: "json \<Rightarrow> TableInfoState list \<Rightarrow> TableInfoState list res" where
  "filter_tables result [] = Inr []"
| "filter_tables result (t # ts) = rbind (py_in (ts_name t) result) (\<lambda>b.
     if b then rbind (rfilter (keep_column result (ts_name t)) (ts_columns t)) (\<lambda>cs.
       rbind (filter_tables result ts) (\<lambda>rest. Inr (t\<lparr>ts_columns := cs\<rparr> # rest)))
     else filter_tables result ts)"

definition column_json :: "ColumnInfoState \<Rightarrow> json" where
  "column_json c = JObj [(u ''name'', JStr (cs_name c)), (u ''type'', JStr (cs_type c)),
     (u ''role'', JStr (cs_role c)), (u ''examples'', JList (cs_examples c)),
     (u ''description'', JStr (cs_description c)), (u ''alias'', strs (cs_alias c))]"

definition table_json :: "TableInfoState \<Rightarrow> json" where
  "table_json t = JObj [(u ''name'', JStr (ts_name t)), (u ''role'', JStr (ts_role t)),
     (u ''description'', JStr (ts_description t)), (u ''columns'', JList (map column_json (ts_columns t)))]"

definition metric_json :: "MetricInfoState \<Rightarrow> json" where
  "metric_json m = JObj [(u ''name'', JStr (ms_name m)), (u ''description'', JStr (ms_description m)),
     (u ''relevant_columns'', strs (ms_columns m)), (u ''alias'', strs (ms_alias m))]"

definition tables_yaml :: "('e, 'v) query_env \<Rightarrow> TableInfoState list \<Rightarrow> str \<times> str" where
  "tables_yaml E ts = (u ''table_infos'', qe_yaml E (JList (map table_json ts)))"

definition metrics_yaml :: "('e, 'v) query_env \<Rightarrow> MetricInfoState list \<Rightarrow> str \<times> str" where
  "metrics_yaml E ms = (u ''metric_infos'', qe_yaml E (JList (map metric_json ms)))"

definition filter_table :: "('e, 'v) query_env \<Rightarrow> str \<Rightarrow> TableInfoState list \<Rightarrow> TableInfoState list node" where
  "filter_table E query ts = node ([36807, 28388, 34920, 20449, 24687])
     (bnd (lift (qe_json E (u ''filter_table_info'') [(u ''query'', query), tables_yaml E ts])) (\<lambda>result.
      bnd (lift (filter_tables result ts)) (succeed ([36807, 28388, 34920, 20449, 24687]))))"

definition filter_metric :: "('e, 'v) query_env \<Rightarrow> str \<Rightarrow> MetricInfoState list \<Rightarrow> MetricInfoState list node" where
  "filter_metric E query ms = node ([36807, 28388, 25351, 26631, 20449, 24687])
     (bnd (lift (qe_json E (u ''filter_metric_info'') [(u ''query'', query), metrics_yaml E ms])) (\<lambda>result.
      bnd (lift (rfilter (\<lambda>m. py_in (ms_name m) result) ms)) (succeed ([36807, 28388, 25351, 26631, 20449, 24687]))))"

section \<open>SQL\<close>

definition add_extra_context :: "('e, 'v) query_env \<Rightarrow> (DateInfoState \<times> DBInfoState) node" where
  "add_extra_context E = node ([28155, 21152, 39069, 22806, 19978, 19979, 25991])
     (bnd (get_db_info E) (\<lambda>db. succeed ([28155, 21152, 39069, 22806, 19978, 19979, 25991])
        (\<lparr>di_date = qe_date_text E, di_weekday = qe_weekday E,
           di_quarter = u ''Q'' @ dec ((fst (snd (qe_today E)) - 1) div 3 + 1)\<rparr>, db)))"

definition context_yaml :: "('e, 'v) query_env \<Rightarrow> agent_context \<Rightarrow> str \<Rightarrow> (str \<times> str) list" where
  "context_yaml E c query = [tables_yaml E (ac_tables c), metrics_yaml E (ac_metrics c),
     (u ''date_info'', qe_yaml E (JObj [(u ''date'', JStr (di_date (ac_date c))),
        (u ''weekday'', JStr (di_weekday (ac_date c))), (u ''quarter'', JStr (di_quarter (ac_date c)))])),
     (u ''db_info'', qe_yaml E (JObj [(u ''dialect'', JStr (db_dialect (ac_db c))), (u ''version'', db_version (ac_db c))])),
     (u ''query'', query)]"

definition generate_sql :: "('e, 'v) query_env \<Rightarrow> str \<Rightarrow> agent_context \<Rightarrow> str node" where
  "generate_sql E query c = node ([29983, 25104] @ u ''SQL'')
     (bnd (lift (qe_text E (u ''generate_sql'') (context_yaml E c query))) (\<lambda>result.
      if startswith (strip result) (u ''UNSUPPORTED:'')
      then raise (ValueError (strip (removeprefix (strip result) (u ''UNSUPPORTED:''))))
      else succeed ([29983, 25104] @ u ''SQL'') result))"

definition check_rules :: "('e, 'v) query_env \<Rightarrow> str \<Rightarrow> str \<Rightarrow> unit res" where
  "check_rules E query sql = rbind (validate_relations (qe_sqlglot E) sql) (\<lambda>_.
     rbind (validate_metrics (qe_sqlglot E) query sql) (\<lambda>_.
     validate_period (qe_sqlglot E) (fst (qe_today E)) query sql))"

text \<open>\<open>validate_sql\<close> returns the error; its own frame reports success either way.\<close>

definition validate_sql :: "('e, 'v) query_env \<Rightarrow> str \<Rightarrow> str \<Rightarrow> str option node" where
  "validate_sql E query sql = node ([26657, 39564] @ u ''SQL'')
     (catch (sq (lift (check_rules E query sql)) (sq (dw_validate E sql) (succeed ([26657, 39564] @ u ''SQL'') None)))
        (\<lambda>e. succeed ([26657, 39564] @ u ''SQL'') (Some (qe_str E e))))"

definition correct_sql :: "('e, 'v) query_env \<Rightarrow> str \<Rightarrow> agent_context \<Rightarrow> str \<Rightarrow> str \<Rightarrow> str node" where
  "correct_sql E query c sql err = node ([26657, 27491] @ u ''SQL'')
     (bnd (lift (qe_text E (u ''correct_sql'') (context_yaml E c query @ [(u ''sql'', sql), (u ''error'', err)])))
        (succeed ([26657, 27491] @ u ''SQL'')))"

definition run_sql :: "('e, 'v) query_env \<Rightarrow> str \<Rightarrow> str \<Rightarrow> unit node" where
  "run_sql E query sql0 = node ([25191, 34892] @ u ''SQL'')
     (bnd (lift (safe_sql (qe_sqlglot E) sql0)) (\<lambda>sql.
      sq (lift (check_rules E query sql))
     (sq (dw_validate E sql)
     (bnd (dw_run E sql) (\<lambda>rows.
      sq (tell (progress ([25191, 34892] @ u ''SQL'') ''success''))
        (tell (JObj [(u ''type'', JStr (u ''result'')), (u ''data'', JList rows), (u ''sql'', JStr sql),
           (u ''row_limit'', JInt (int MAX_ROWS))])))))))"

section \<open>The graph\<close>

text \<open>
  Nodes of one superstep write their logs concurrently: the schedule names the node that writes
  next. The first failing node to write its last entry ends the superstep, the other nodes are
  cancelled where they are.
\<close>

fun drain :: "(qlog list \<times> exn option) list \<Rightarrow> qlog list \<times> exn option" where
  "drain [] = ([], None)"
| "drain ((l, None) # rs) = (case drain rs of (l', e) \<Rightarrow> (l @ l', e))"
| "drain ((l, Some e) # rs) = (l, Some e)"

fun weave :: "nat list \<Rightarrow> (qlog list \<times> exn option) list \<Rightarrow> qlog list \<times> exn option" where
  "weave [] rs = drain rs"
| "weave (i # sched) rs =
     (if i < length rs then (case rs ! i of
        ([], e) \<Rightarrow> weave sched rs
      | (x # l, e) \<Rightarrow> if l = [] \<and> e \<noteq> None then ([x], e)
          else (case weave sched (rs[i := (l, e)]) of (l', e') \<Rightarrow> (x # l', e')))
      else weave sched rs)"

definition outcome :: "'a res \<times> qlog list \<Rightarrow> qlog list \<times> exn option" where
  "outcome r = (snd r, case fst r of Inl e \<Rightarrow> Some e | Inr _ \<Rightarrow> None)"

definition par2 :: "nat list \<Rightarrow> 'a node \<Rightarrow> 'b node \<Rightarrow> ('a \<times> 'b) node" where
  "par2 sched m n = (\<lambda>l. case weave sched [outcome (m []), outcome (n [])] of
     (new, Some e) \<Rightarrow> (Inl e, l @ new)
   | (new, None) \<Rightarrow> (rbind (fst (m [])) (\<lambda>x. rbind (fst (n [])) (\<lambda>y. Inr (x, y))), l @ new))"

definition par3 :: "nat list \<Rightarrow> 'a node \<Rightarrow> 'b node \<Rightarrow> 'c node \<Rightarrow> ('a \<times> 'b \<times> 'c) node" where
  "par3 sched m n k = (\<lambda>l. case weave sched [outcome (m []), outcome (n []), outcome (k [])] of
     (new, Some e) \<Rightarrow> (Inl e, l @ new)
   | (new, None) \<Rightarrow> (rbind (fst (m [])) (\<lambda>x. rbind (fst (n [])) (\<lambda>y. rbind (fst (k [])) (\<lambda>z.
        Inr (x, y, z)))), l @ new))"

text \<open>The conditional edge after \<open>validate_sql\<close>: no error means run, otherwise correct once and run.\<close>

definition finish_sql :: "('e, 'v) query_env \<Rightarrow> str \<Rightarrow> agent_context \<Rightarrow> str \<Rightarrow> unit node" where
  "finish_sql E query c sql = bnd (validate_sql E query sql) (\<lambda>err. case err of
     None \<Rightarrow> run_sql E query sql
   | Some m \<Rightarrow> bnd (correct_sql E query c sql m) (run_sql E query))"

definition graph :: "('e, 'v) query_env \<Rightarrow> nat list \<Rightarrow> nat list \<Rightarrow> str \<Rightarrow> unit node" where
  "graph E recall_sched filter_sched query =
     bnd (extract_keywords E query) (\<lambda>keywords.
     bnd (par3 recall_sched (recall_column E query keywords) (recall_value E query keywords)
            (recall_metric E query keywords)) (\<lambda>(columns, values, metrics).
     bnd (merge_retrieved_info E columns metrics values) (\<lambda>(tables, ms).
     bnd (par2 filter_sched (filter_table E query tables) (filter_metric E query ms)) (\<lambda>(tables', ms').
     bnd (add_extra_context E) (\<lambda>(date, db).
     let c = \<lparr>ac_tables = tables', ac_metrics = ms', ac_date = date, ac_db = db\<rparr> in
     bnd (generate_sql E query c) (finish_sql E query c))))))"

section \<open>The stream\<close>

text \<open>
  \<open>QueryService.query\<close>: \<open>ms i j\<close> is \<open>round((now - started) * 1000)\<close> between the clock readings \<open>i\<close> and
  \<open>j\<close>; reading 0 is \<open>started\<close> and each event takes the next one.
\<close>

record encoder =
  en_reading :: nat
  en_started :: "(json \<times> nat) list"

definition chunk_step :: "(str \<times> json) list \<Rightarrow> json" where
  "chunk_step d = dict_get d (u ''step'') JNull"

definition encode_event ::
    "(nat \<Rightarrow> nat \<Rightarrow> int) \<Rightarrow> str \<Rightarrow> (str \<times> json) list \<Rightarrow> encoder \<Rightarrow> (str \<times> json) list \<times> encoder" where
  "encode_event ms rid chunk en =
     (let now = Suc (en_reading en);
          event = AList.update (u ''elapsed_ms'') (JInt (ms 0 now)) (AList.update (u ''request_id'') (JStr rid) chunk);
          step = chunk_step event
      in if dict_get event (u ''type'') JNull = JStr (u ''progress'') then
           (if dict_get event (u ''status'') JNull = JStr (u ''running'')
            then (event, \<lparr>en_reading = now, en_started = AList.update step now (en_started en)\<rparr>)
            else (case map_of (en_started en) step of
                None \<Rightarrow> (event, en\<lparr>en_reading := now\<rparr>)
              | Some t \<Rightarrow> (AList.update (u ''duration_ms'') (JInt (ms t now)) event,
                  \<lparr>en_reading = now, en_started = AList.delete step (en_started en)\<rparr>)))
         else (event, en\<lparr>en_reading := now\<rparr>))"

definition sse :: "(str \<times> json) list \<Rightarrow> str" where
  "sse event = u ''data: '' @ dumps False (JObj event) @ [10, 10]"

fun chunk_of :: "json \<Rightarrow> (str \<times> json) list" where
  "chunk_of (JObj d) = d"
| "chunk_of _ = []"

fun encode_all ::
    "(nat \<Rightarrow> nat \<Rightarrow> int) \<Rightarrow> str \<Rightarrow> (str \<times> json) list list \<Rightarrow> encoder \<Rightarrow> (str \<times> json) list list" where
  "encode_all ms rid [] en = []"
| "encode_all ms rid (c # cs) en =
     (case encode_event ms rid c en of (event, en') \<Rightarrow> event # encode_all ms rid cs en')"

definition events_of :: "qlog list \<Rightarrow> json list" where
  "events_of l = concat (map (\<lambda>x. case x of QEvent e \<Rightarrow> [e] | QSql _ \<Rightarrow> []) l)"

definition error_event :: "str \<Rightarrow> json" where
  "error_event m = JObj [(u ''type'', JStr (u ''error'')), (u ''message'', JStr m)]"

definition query_events :: "('e, 'v) query_env \<Rightarrow> unit res \<times> qlog list \<Rightarrow> (str \<times> json) list list" where
  "query_events E r = map chunk_of (events_of (snd r)
     @ (case fst r of Inl e \<Rightarrow> [error_event (qe_str E e)] | Inr _ \<Rightarrow> []))"

definition query_stream ::
    "('e, 'v) query_env \<Rightarrow> nat list \<Rightarrow> nat list \<Rightarrow> (nat \<Rightarrow> nat \<Rightarrow> int) \<Rightarrow> str \<Rightarrow> str \<Rightarrow> str list" where
  "query_stream E s1 s2 ms rid query =
     map sse (encode_all ms rid (query_events E (graph E s1 s2 query [])) \<lparr>en_reading = 0, en_started = []\<rparr>)"

section \<open>The endpoint\<close>

text \<open>\<open>QuerySchema\<close>: the length is tested before, the blank after pydantic's own checks.\<close>

definition query_schema :: "json \<Rightarrow> str res" where
  "query_schema body = (case body of
     JObj d \<Rightarrow> rbind (as_str (dict_get d (u ''query'') JNull)) (\<lambda>t.
       if length t < 1 \<or> 2000 < length t \<or> strip t = [] then Inl ValidationError else Inr (strip t))
   | _ \<Rightarrow> Inl ValidationError)"

text \<open>
  The middleware of \<open>main.py\<close>: without the worker's key everything but the health check is refused;
  the request id is the caller's if it is a UUID, otherwise a fresh one. \<open>compare_digest\<close> raises
  \<open>TypeError\<close> on text outside ASCII.
\<close>

datatype 'a response = Unauthorized | Crashed exn | Answered str 'a

definition add_request_id ::
    "(str \<Rightarrow> str option) \<Rightarrow> str \<Rightarrow> str \<Rightarrow> str \<Rightarrow> (str \<Rightarrow> str option) \<Rightarrow> (str \<Rightarrow> 'a) \<Rightarrow> 'a response" where
  "add_request_id header path key fresh uuid call_next =
     (if path \<noteq> u ''/healthz'' \<and> key \<noteq> []
         \<and> list_ex (\<lambda>c. 127 < c) ((case header (u ''X-Worker-Key'') of None \<Rightarrow> [] | Some k \<Rightarrow> k) @ key)
      then Crashed TypeError
      else let given = (case header (u ''X-Worker-Key'') of None \<Rightarrow> [] | Some k \<Rightarrow> k);
          rid = (case header (u ''X-Request-ID'') of None \<Rightarrow> [] | Some k \<Rightarrow> k)
      in if path \<noteq> u ''/healthz'' \<and> (key = [] \<or> given \<noteq> key) then Unauthorized
         else (let r = (case uuid rid of None \<Rightarrow> fresh | Some k \<Rightarrow> k) in Answered r (call_next r)))"

section \<open>What reaches the warehouse\<close>

definition guarded_sql :: "('e, 'v) query_env \<Rightarrow> str \<Rightarrow> str \<Rightarrow> bool" where
  "guarded_sql E query s \<longleftrightarrow> s = version_sql \<or> s = time_limit_sql
     \<or> (\<exists>sql t. safe_sql (qe_sqlglot E) sql = Inr t \<and> s = u ''explain '' @ t)
     \<or> (\<exists>sql0 sql. safe_sql (qe_sqlglot E) sql0 = Inr sql \<and> check_rules E query sql = Inr ()
          \<and> safe_sql (qe_sqlglot E) sql = Inr s)"

definition log_guarded :: "('e, 'v) query_env \<Rightarrow> str \<Rightarrow> qlog list \<Rightarrow> bool" where
  "log_guarded E query l \<longleftrightarrow> (\<forall>s. QSql s \<in> set l \<longrightarrow> guarded_sql E query s)"

abbreviation guards :: "('e, 'v) query_env \<Rightarrow> str \<Rightarrow> 'a node \<Rightarrow> bool" where
  "guards E query \<equiv> leads (log_guarded E query) (log_guarded E query)"

lemma guards_tell: "guards E query (tell e)"
  by (auto simp: leads_def tell_def monad_defs log_guarded_def)

lemma guards_execute: "guarded_sql E query s \<Longrightarrow> guards E query (execute E s)"
  by (auto simp: leads_def execute_def monad_defs log_guarded_def)

lemma guards_pure: "guards E query (ret x)" "guards E query (raise e)" "guards E query (lift r)"
  by (auto simp: leads_def monad_defs)

lemma guards_bnd: "guards E query m \<Longrightarrow> (\<And>x. guards E query (k x)) \<Longrightarrow> guards E query (bnd m k)"
  by (rule leads_bnd)

lemma guards_sq: "guards E query m \<Longrightarrow> guards E query k \<Longrightarrow> guards E query (sq m k)"
  by (rule leads_sq)

lemma guards_lift: "(\<And>x. r = Inr x \<Longrightarrow> guards E query (k x)) \<Longrightarrow> guards E query (bnd (lift r) k)"
  by (rule leads_lift_bnd)

lemma guards_catch: "guards E query m \<Longrightarrow> (\<And>e. guards E query (h e)) \<Longrightarrow> guards E query (catch m h)"
  by (rule leads_catch)

lemma guards_node: "guards E query m \<Longrightarrow> guards E query (node step m)"
  unfolding node_def by (intro guards_sq guards_catch guards_tell guards_pure)

lemma guards_succeed: "guards E query (succeed step x)"
  unfolding succeed_def by (intro guards_sq guards_tell guards_pure)

lemmas guards_rules = guards_lift guards_node guards_succeed guards_tell guards_pure guards_sq guards_bnd
  guards_catch

lemma guards_validate: "guards E query (dw_validate E sql)"
  unfolding dw_validate_def
  by (intro guards_rules guards_execute) (auto simp: guarded_sql_def)

lemma guards_run:
  assumes "safe_sql (qe_sqlglot E) sql0 = Inr sql" and "check_rules E query sql = Inr ()"
  shows "guards E query (dw_run E sql)"
  unfolding dw_run_def
  by (intro guards_rules guards_execute) (use assms in \<open>auto simp: guarded_sql_def\<close>)

lemma guards_run_sql: "guards E query (run_sql E query sql0)"
  unfolding run_sql_def
proof (intro guards_node guards_lift)
  fix sql assume s: "safe_sql (qe_sqlglot E) sql0 = Inr sql"
  show "guards E query (sq (lift (check_rules E query sql)) (sq (dw_validate E sql) (bnd (dw_run E sql) (\<lambda>rows.
      sq (tell (progress (([25191, 34892] @ u ''SQL'')) ''success'')) (tell (JObj [(u ''type'', JStr (u ''result'')), (u ''data'', JList rows),
        (u ''sql'', JStr sql), (u ''row_limit'', JInt (int MAX_ROWS))]))))))"
    unfolding sq_def[of "lift _"]
    by (intro guards_lift guards_sq guards_validate guards_bnd guards_tell guards_run[OF s]) simp
qed

lemma insert_bound: "A \<subseteq> B \<Longrightarrow> x \<in> B \<Longrightarrow> C \<subseteq> insert x A \<Longrightarrow> C \<subseteq> B"
  by blast

lemma drain_set: "set (fst (drain rs)) \<subseteq> (\<Union>r \<in> set rs. set (fst r))"
  by (induction rs rule: drain.induct) (auto split: prod.splits)

lemma weave_set: "set (fst (weave sched rs)) \<subseteq> (\<Union>r \<in> set rs. set (fst r))"
proof (induction sched arbitrary: rs)
  case Nil
  then show ?case using drain_set by simp
next
  case (Cons i sched)
  show ?case
  proof (cases "i < length rs")
    case True
    obtain l e where r: "rs ! i = (l, e)" by (cases "rs ! i")
    have mem: "(l, e) \<in> set rs" using nth_mem[OF True] r by simp
    show ?thesis
    proof (cases l)
      case Nil
      then show ?thesis using True r Cons by simp
    next
      case c: (Cons x l')
      have upd: "set (rs[i := (l', e)]) \<subseteq> insert (l', e) (set rs)" by (rule set_update_subset_insert)
      then have "(\<Union>r \<in> set (rs[i := (l', e)]). set (fst r)) \<subseteq> (\<Union>r \<in> set rs. set (fst r))"
        (is "?A \<subseteq> _")
      proof -
        have "?A \<subseteq> (\<Union>r \<in> insert (l', e) (set rs). set (fst r))" using upd by (rule UN_mono) simp
        also have "\<dots> = set l' \<union> (\<Union>r \<in> set rs. set (fst r))" by simp
        also have "\<dots> \<subseteq> (\<Union>r \<in> set rs. set (fst r))" using UN_upper[OF mem, of "\<lambda>r. set (fst r)"] c by auto
        finally show ?thesis .
      qed
      then have "set (fst (weave sched (rs[i := (l', e)]))) \<subseteq> (\<Union>r \<in> set rs. set (fst r))"
        using Cons.IH[of "rs[i := (l', e)]"] by (rule subset_trans[rotated])
      moreover have "x \<in> (\<Union>r \<in> set rs. set (fst r))" by (rule UN_I[OF mem]) (simp add: c)
      moreover have "set (fst (weave (i # sched) rs)) \<subseteq> insert x (set (fst (weave sched (rs[i := (l', e)]))))"
      proof -
        have "weave (i # sched) rs = (if l' = [] \<and> e \<noteq> None then ([x], e) else
            (x # fst (weave sched (rs[i := (l', e)])), snd (weave sched (rs[i := (l', e)]))))"
          by (simp only: weave.simps True r c if_True prod.case list.case case_prod_beta fst_conv snd_conv)
        then show ?thesis by simp
      qed
      ultimately show ?thesis by (rule insert_bound)
    qed
  qed (simp add: Cons)
qed

lemma log_guarded_weave:
  assumes "\<forall>r \<in> set rs. log_guarded E query (fst r)" shows "log_guarded E query (fst (weave sched rs))"
  using assms weave_set[of sched rs] unfolding log_guarded_def by blast

lemma guards_empty: "guards E query m \<Longrightarrow> log_guarded E query (snd (m []))"
  unfolding leads_def log_guarded_def by (drule spec[of _ "[]"]) simp

lemma guards_par2:
  assumes "guards E query m" "guards E query n"
  shows "guards E query (par2 sched m n)"
proof -
  have "log_guarded E query (fst (weave sched [outcome (m []), outcome (n [])]))"
    by (rule log_guarded_weave) (simp add: outcome_def guards_empty assms)
  then show ?thesis
    by (auto simp: leads_def par2_def log_guarded_def split: prod.splits option.splits)
qed

lemma guards_par3:
  assumes "guards E query m" "guards E query n" "guards E query k"
  shows "guards E query (par3 sched m n k)"
proof -
  have "log_guarded E query (fst (weave sched [outcome (m []), outcome (n []), outcome (k [])]))"
    by (rule log_guarded_weave) (simp add: outcome_def guards_empty assms)
  then show ?thesis
    by (auto simp: leads_def par3_def log_guarded_def split: prod.splits option.splits)
qed

lemma guards_if: "(b \<Longrightarrow> guards E query m) \<Longrightarrow> (\<not> b \<Longrightarrow> guards E query k) \<Longrightarrow> guards E query (if b then m else k)"
  by simp

lemma guards_finish: "guards E query (finish_sql E query c sql)"
  unfolding finish_sql_def
proof (intro guards_bnd)
  show "guards E query (validate_sql E query sql)"
    unfolding validate_sql_def by (intro guards_rules guards_validate)
  fix err show "guards E query (case err of None \<Rightarrow> run_sql E query sql
      | Some m \<Rightarrow> bnd (correct_sql E query c sql m) (run_sql E query))"
    by (cases err) (simp_all add: guards_run_sql correct_sql_def guards_rules)
qed

lemma guards_nodes:
  "guards E query (extract_keywords E q)" "guards E query (recall_column E q ks)"
  "guards E query (recall_value E q ks)" "guards E query (recall_metric E q ks)"
  "guards E query (merge_retrieved_info E cs ms vs)" "guards E query (filter_table E q ts)"
  "guards E query (filter_metric E q mets)"
  unfolding extract_keywords_def recall_column_def recall_value_def recall_metric_def
    merge_retrieved_info_def filter_table_def filter_metric_def
  by (intro guards_rules)+

lemma guards_context: "guards E query (add_extra_context E)"
  unfolding add_extra_context_def get_db_info_def
  by (intro guards_rules guards_execute) (simp add: guarded_sql_def)

lemma guards_generate: "guards E query (generate_sql E q c)"
  unfolding generate_sql_def by (intro guards_rules guards_if)

lemma guards_prod: "(\<And>x y. guards E query (f x y)) \<Longrightarrow> guards E query (case p of (x, y) \<Rightarrow> f x y)"
  by (cases p) simp

lemma guards_graph: "guards E query (graph E s1 s2 query)"
  unfolding graph_def Let_def
  by (intro guards_bnd guards_par3 guards_par2 guards_prod guards_nodes guards_context guards_generate guards_finish)

section \<open>What the client reads\<close>

text \<open>
  The client's side of the event stream: a frame ends at an empty line, and its text after
  \<open>data: \<close> is one JSON value.
\<close>

fun sse_frames :: "str \<Rightarrow> str \<Rightarrow> str list" where
  "sse_frames acc (a # b # r) = (if a = 10 \<and> b = 10 then rev acc # sse_frames [] r else sse_frames (a # acc) (b # r))"
| "sse_frames acc _ = []"

definition clean :: "(str \<Rightarrow> str) \<Rightarrow> json \<Rightarrow> bool" where
  "clean fr j \<longleftrightarrow> readable fr j \<and> floats_ok j"

lemma esc_char_no_newline: "10 \<notin> set (esc_char a c)"
proof -
  have "10 \<notin> set (hex4 n)" for n using hex4_printable[of n] by (auto simp: printable_def)
  then show ?thesis by (auto simp: esc_char_def)
qed

lemma quote_no_newline: "10 \<notin> set (quote a t)"
  using esc_char_no_newline by (auto simp: quote_def)

lemma join_no_newline: "10 \<notin> set sep \<Longrightarrow> \<forall>p \<in> set ps. 10 \<notin> set p \<Longrightarrow> 10 \<notin> set (join sep ps)"
  using set_join[of sep ps] by blast

lemma dumps_no_newline: "floats_ok j \<Longrightarrow> 10 \<notin> set (dumps a j)"
proof (induction j)
  case (JInt i)
  then show ?case using dec_printable[of i] by (auto simp: printable_def)
next
  case (JFloat t)
  then show ?case by (auto simp: list_all_iff printable_def)
next
  case (JList xs)
  then have "\<forall>p \<in> set (map (dumps a) xs). 10 \<notin> set p" by (auto simp: list_all_iff)
  then have "10 \<notin> set (join (u '', '') (map (dumps a) xs))" by (rule join_no_newline[rotated]) (simp add: u_def)
  then show ?case by (simp add: u_def)
next
  case (JObj d)
  let ?ps = "map (\<lambda>kv. quote a (fst kv) @ u '': '' @ snd kv) (map (map_prod id (dumps a)) d)"
  have "\<forall>kv \<in> set d. 10 \<notin> set (dumps a (snd kv))"
    using JObj by (fastforce simp: list_all_iff)
  then have "\<forall>p \<in> set ?ps. 10 \<notin> set p" using quote_no_newline by (auto simp: u_def)
  then have "10 \<notin> set (join (u '', '') ?ps)" by (rule join_no_newline[rotated]) (simp add: u_def)
  then show ?case by (simp add: u_def del: map_map)
qed (auto simp: u_def quote_no_newline)

lemma sse_frames_line:
  "10 \<notin> set l \<Longrightarrow> sse_frames acc (l @ 10 # 10 # r) = (rev acc @ l) # sse_frames [] r"
proof (induction l arbitrary: acc)
  case (Cons c l)
  then show ?case by (cases l) auto
qed simp

lemma sse_frames_stream:
  assumes "\<forall>e \<in> set evs. floats_ok (JObj e)"
  shows "sse_frames [] (concat (map sse evs)) = map (\<lambda>e. u ''data: '' @ dumps False (JObj e)) evs"
  using assms
proof (induction evs)
  case (Cons e evs)
  have "10 \<notin> set (u ''data: '' @ dumps False (JObj e))"
    using dumps_no_newline[of "JObj e" False] Cons.prems by (simp add: u_def del: dumps.simps)
  from sse_frames_line[OF this, of "[]"] Cons show ?case by (simp add: sse_def del: dumps.simps)
qed simp

lemma clean_update:
  assumes "clean fr (JObj d)" and "list_all valid_char k" and "clean fr v"
  shows "clean fr (JObj (AList.update k v d))"
proof -
  have sub: "set (AList.update k v d) \<subseteq> insert (k, v) (set d)"
  proof -
    have "set (AList.update k v d) \<subseteq> insert (k, v) (set d)" by (induction d) auto
    then show ?thesis .
  qed
  have d: "distinct (map fst (AList.update k v d))" using assms(1) by (simp add: clean_def distinct_update)
  have "\<forall>e \<in> set (AList.update k v d). list_all valid_char (fst e) \<and> readable fr (snd e) \<and> floats_ok (snd e)"
  proof
    fix e assume "e \<in> set (AList.update k v d)"
    then consider "e = (k, v)" | "e \<in> set d" using sub by blast
    then show "list_all valid_char (fst e) \<and> readable fr (snd e) \<and> floats_ok (snd e)"
    proof cases
      case 2
      then show ?thesis using assms(1) by (auto simp: clean_def list_all_iff)
    qed (use assms in \<open>simp add: clean_def\<close>)
  qed
  then show ?thesis using d by (auto simp: clean_def list_all_iff)
qed

lemma valid_ascii: "list_all valid_char (u ''request_id'')" "list_all valid_char (u ''elapsed_ms'')"
  "list_all valid_char (u ''duration_ms'')"
  by code_simp+

lemma clean_simple: "clean fr (JInt i)" "list_all valid_char t \<Longrightarrow> clean fr (JStr t)"
  by (simp_all add: clean_def)

lemma encode_event_fst: "fst (encode_event ms rid c en) \<in>
    (let e = AList.update (u ''elapsed_ms'') (JInt (ms 0 (Suc (en_reading en)))) (AList.update (u ''request_id'') (JStr rid) c)
     in {e} \<union> range (\<lambda>i. AList.update (u ''duration_ms'') (JInt i) e))"
  by (auto simp: encode_event_def Let_def split: option.splits)

lemma encode_event_ok:
  assumes "clean fr (JObj c)" and "list_all valid_char rid"
  shows "clean fr (JObj (fst (encode_event ms rid c en)))
    \<and> dict_get (fst (encode_event ms rid c en)) (u ''request_id'') JNull = JStr rid"
proof -
  let ?e = "AList.update (u ''elapsed_ms'') (JInt (ms 0 (Suc (en_reading en)))) (AList.update (u ''request_id'') (JStr rid) c)"
  have c: "clean fr (JObj ?e)" by (intro clean_update valid_ascii clean_simple assms)
  have r: "dict_get ?e (u ''request_id'') JNull = JStr rid" by (simp add: dict_get_def update_conv')
  consider "fst (encode_event ms rid c en) = ?e"
    | i where "fst (encode_event ms rid c en) = AList.update (u ''duration_ms'') (JInt i) ?e"
    using encode_event_fst[of ms rid c en] by (auto simp: Let_def)
  then show ?thesis
  proof cases
    case 1
    then show ?thesis using c r by simp
  next
    case 2
    have "dict_get (AList.update (u ''duration_ms'') (JInt i) ?e) (u ''request_id'') JNull = JStr rid"
      using r by (simp add: dict_get_def update_conv')
    then show ?thesis unfolding 2 using clean_update[OF c valid_ascii(3) clean_simple(1)] by blast
  qed
qed

lemma encode_all_ok:
  assumes "\<forall>c \<in> set cs. clean fr (JObj c)" and "list_all valid_char rid"
  shows "\<forall>e \<in> set (encode_all ms rid cs en). clean fr (JObj e) \<and> dict_get e (u ''request_id'') JNull = JStr rid"
  using assms(1)
proof (induction cs arbitrary: en)
  case (Cons c cs)
  then show ?case using encode_event_ok[OF _ assms(2), of fr c ms en] by (simp add: case_prod_beta)
qed simp

lemma length_encode_all: "length (encode_all ms rid cs en) = length cs"
  by (induction cs arbitrary: en) (simp_all add: case_prod_beta)

section \<open>Properties\<close>


definition sample_query_env :: "(int, unit) query_env" where
  "sample_query_env = \<lparr>qe_sqlglot = sample_sqlglot, qe_today = (2026, 5, 1), qe_date_text = [], qe_weekday = [],
     qe_tags = \<lambda>_. Inr [], qe_json = \<lambda>_ _. Inr (JList []), qe_text = \<lambda>_ _. Inr (u ''0''), qe_yaml = \<lambda>_. [],
     qe_embed = \<lambda>ts. Inr (map (\<lambda>_. ()) ts), qe_late = \<lambda>_. False, qe_first = hd, qe_columns = \<lambda>_. Inr [],
     qe_metrics = \<lambda>_. Inr [], qe_values = \<lambda>_. Inr [], qe_meta_column = \<lambda>_. Inr None, qe_meta_keys = \<lambda>_. Inr [],
     qe_meta_table = \<lambda>_. Inr None, qe_dialect = u ''mysql'', qe_sql = \<lambda>_ _. Inr (JList []), qe_str = \<lambda>_. []\<rparr>"




text \<open>Values without floats are clean whatever prints a float; this test evaluates.\<close>

primrec plain :: "json \<Rightarrow> bool" where
  "plain JNull = True"
| "plain (JBool b) = True"
| "plain (JInt i) = True"
| "plain (JFloat t) = False"
| "plain (JStr t) = list_all valid_char t"
| "plain (JList xs) = list_all id (map plain xs)"
| "plain (JObj d) = (distinct (map fst d) \<and> list_all (list_all valid_char \<circ> fst) d
     \<and> list_all snd (map (map_prod id plain) d))"

lemma plain_clean: "plain j \<Longrightarrow> clean fr j"
  unfolding clean_def by (induction j) (fastforce simp: list_all_iff)+

end
