(* ===== verification/Pydantic.thy ===== *)
theory Pydantic
  imports Json
begin

text \<open>
  What pydantic's validation does with the field types the models of several components share: text
  of bounded length (a lone surrogate is refused where a length is checked), lists of bounded length,
  optional fields, and models that forbid extra keys.
\<close>

definition bounded_text :: "nat \<Rightarrow> json \<Rightarrow> str res" where
  "bounded_text n j = rbind (as_str j) (\<lambda>t.
     if length t \<le> n \<and> encode t \<noteq> Inl UnicodeEncodeError then Inr t else Inl ValidationError)"

definition bounded_list :: "nat \<Rightarrow> nat \<Rightarrow> (json \<Rightarrow> 'a res) \<Rightarrow> json \<Rightarrow> 'a list res" where
  "bounded_list lo hi f j = (case j of
     JList xs \<Rightarrow> if lo \<le> length xs \<and> length xs \<le> hi then rmap f xs else Inl ValidationError
   | _ \<Rightarrow> Inl ValidationError)"

text \<open>A model with these fields, no key left over.\<close>

definition strict_fields :: "str list \<Rightarrow> json \<Rightarrow> (str \<Rightarrow> json) res" where
  "strict_fields ks j = (case j of
     JObj d \<Rightarrow> if fst ` set d = set ks then Inr ((\<lambda>k. dict_get d k JNull)) else Inl ValidationError
   | _ \<Rightarrow> Inl ValidationError)"

definition opt_of :: "(json \<Rightarrow> 'a res) \<Rightarrow> json \<Rightarrow> 'a option res" where
  "opt_of f j = (if j = JNull then Inr None else rbind (f j) (\<lambda>x. Inr (Some x)))"

section \<open>Laws\<close>

lemma bounded_list_Inr: "bounded_list lo hi f j = Inr ys \<longleftrightarrow>
    (\<exists>xs. j = JList xs \<and> lo \<le> length xs \<and> length xs \<le> hi \<and> rmap f xs = Inr ys)"
  by (cases j) (auto simp: bounded_list_def)

lemma bounded_text_Inr: "bounded_text n j = Inr t \<longleftrightarrow> j = JStr t \<and> length t \<le> n \<and> encode t \<noteq> Inl UnicodeEncodeError"
  by (cases j) (auto simp: bounded_text_def)

end
