(* ===== verification/Mistral.thy ===== *)
theory Mistral
  imports Context Json_Parse Pydantic
begin

text \<open>
  \<^verbatim>\<open>worker/incident_worker/mistral.py\<close>: one structured completion, and the investigation that puts
  bounded evidence before the model, fits it into the token budget and publishes only claims that
  cite it. The environment variables (empty when unset), the provider's answers, the pydantic
  schema of the answer and the clock are the record \<open>mistral_env\<close>.
\<close>

record mistral_env =
  mistral_api_key :: str
  model_api_key :: str
  mistral_model :: str
  model_name :: str
  mistral_base_url :: str
  model_base_url :: str
  provider :: "effect list \<Rightarrow> reply"
  milliseconds :: "effect list \<Rightarrow> json"
  answer_schema :: json
  float_repr :: "str \<Rightarrow> str"
  iso_of :: "QueryPlan \<Rightarrow> str \<times> str"

definition configured :: "mistral_env \<Rightarrow> bool" where
  "configured V \<longleftrightarrow> mistral_api_key V \<noteq> [] \<or> model_api_key V \<noteq> []"

text \<open>\<open>a or b\<close> on strings.\<close>

definition str_or :: "str \<Rightarrow> str \<Rightarrow> str" where
  "str_or a b = (if a = [] then b else a)"

definition rstrip_slash :: "str \<Rightarrow> str" where
  "rstrip_slash t = rev (dropWhile (\<lambda>c. c = 47) (rev t))"

definition chat_model :: "mistral_env \<Rightarrow> str" where
  "chat_model V = str_or (mistral_model V) (str_or (model_name V) (u ''mistral-small-latest''))"

definition chat_url :: "mistral_env \<Rightarrow> str" where
  "chat_url V = rstrip_slash (str_or (mistral_base_url V) (str_or (model_base_url V) (u ''https://api.mistral.ai/v1'')))
     @ u ''/chat/completions''"

definition chat_request :: "mistral_env \<Rightarrow> json \<Rightarrow> json \<Rightarrow> str \<Rightarrow> int \<Rightarrow> json" where
  "chat_request V schema messages name max_tokens = JObj [(u ''model'', JStr (chat_model V)), (u ''messages'', messages),
     (u ''temperature'', JInt 0), (u ''max_tokens'', JInt max_tokens),
     (u ''response_format'', JObj [(u ''type'', JStr (u ''json_schema'')),
        (u ''json_schema'', JObj [(u ''name'', JStr name), (u ''schema'', schema), (u ''strict'', JBool True)])])]"

text \<open>\<open>v[0]\<close>.\<close>

definition first_item :: "json \<Rightarrow> json res" where
  "first_item j = (case j of JList (x # _) \<Rightarrow> Inr x | JList [] \<Rightarrow> Inl IndexError
     | JStr (c # _) \<Rightarrow> Inr (JStr [c]) | JStr [] \<Rightarrow> Inl IndexError
     | JObj _ \<Rightarrow> Inl (KeyError (u ''0'')) | _ \<Rightarrow> Inl TypeError)"

definition loads_json :: "mistral_env \<Rightarrow> json \<Rightarrow> json res" where
  "loads_json V j = (case j of JStr t \<Rightarrow> loads (float_repr V) t | _ \<Rightarrow> Inl TypeError)"

definition chat_value :: "mistral_env \<Rightarrow> json \<Rightarrow> json res" where
  "chat_value V payload =
     rbind (rbind (jget payload (u ''choices'')) first_item) (\<lambda>choice.
     rbind (jget_opt choice (u ''finish_reason'')) (\<lambda>why.
     if why = JStr (u ''length'') then Inl (RuntimeError (u ''mistral_output_truncated''))
     else rbind (rbind (jget choice (u ''message'')) (\<lambda>m. jget m (u ''content''))) (loads_json V)))"

definition usage_json :: "mistral_env \<Rightarrow> json \<Rightarrow> json \<Rightarrow> json res" where
  "usage_json V payload ms =
     rbind (jget_def payload (u ''model'') (JStr (chat_model V))) (\<lambda>m.
     rbind (jget_def payload (u ''usage'') (JObj [])) (\<lambda>us.
     Inr (JObj [(u ''provider'', JStr (u ''mistral'')), (u ''model'', m), (u ''usage'', us), (u ''milliseconds'', ms)])))"

definition complete :: "mistral_env \<Rightarrow> json \<Rightarrow> json \<Rightarrow> str \<Rightarrow> int \<Rightarrow> (json \<times> json) W" where
  "complete V schema messages name max_tokens =
     (if \<not> configured V then raise (RuntimeError (u ''mistral_not_configured''))
      else sq (emit (ModelCall (chat_request V schema messages name max_tokens)))
        (bnd (bnd (gets (\<lambda>s. provider V (trace s))) received) (\<lambda>resp. case resp of
           Status c \<Rightarrow> raise (RuntimeError (u ''mistral_http_'' @ dec c))
         | _ \<Rightarrow> bnd (json_of resp) (\<lambda>payload.
             bnd (lift (chat_value V payload)) (\<lambda>value.
             bnd (gets (\<lambda>s. milliseconds V (trace s))) (\<lambda>ms.
             bnd (lift (usage_json V payload ms)) (\<lambda>usage. ret (value, usage))))))))"

section \<open>The evidence before the model\<close>

definition clip_limit :: "str \<Rightarrow> nat" where
  "clip_limit k = dict_get [(u ''message'', 500), (u ''diff'', 500), (u ''config'', 1200), (u ''markdown'', 1500)] k 400"

definition clip_field :: "str \<times> json \<Rightarrow> str \<times> json" where
  "clip_field kv = (fst kv, case snd kv of JStr t \<Rightarrow> JStr (take (clip_limit (fst kv)) t) | v \<Rightarrow> v)"

definition clip_content :: "outside \<Rightarrow> json \<Rightarrow> json" where
  "clip_content O' j = (case j of
     JObj d \<Rightarrow> JObj (map clip_field (filter (\<lambda>kv. fst kv \<notin> {u ''service_name'', u ''original_line''}) d))
   | _ \<Rightarrow> JStr (take 1500 (py_str O' j)))"

definition allowed_evidence :: "ContextBundle \<Rightarrow> Evidence list" where
  "allowed_evidence b = take 10 (filter (\<lambda>e. ev_source e \<noteq> Logs) (evidence b))
     @ take 30 (filter (\<lambda>e. ev_source e = Logs) (evidence b))"

definition shown :: "outside \<Rightarrow> str \<Rightarrow> Evidence \<Rightarrow> json" where
  "shown O' svc e = JObj [(u ''id'', JStr (ev_id e)), (u ''source'', JStr (source_name (ev_source e))),
     (u ''time'', JStr (event_time e)), (u ''service'', JStr svc), (u ''locator'', JStr (locator e)),
     (u ''content'', clip_content O' (snippet e))]"

text \<open>The counts per source; a Python set iterates in any order, here that of the evidence.\<close>

definition source_counts :: "Evidence list \<Rightarrow> json" where
  "source_counts es = JObj (map (\<lambda>s. (source_name s, JInt (int (length (filter (\<lambda>e. ev_source e = s) es)))))
     (uniq (map ev_source es)))"

definition model_data :: "outside \<Rightarrow> mistral_env \<Rightarrow> rt \<Rightarrow> ContextBundle \<Rightarrow> str \<Rightarrow> nat \<Rightarrow> json" where
  "model_data O' V r b svc n = JObj
     [(u ''question'', JStr (symptom (rt_run r))),
      (u ''scope'', JObj (AList.update (u ''end'') (JStr (snd (iso_of V (plan b))))
         (AList.update (u ''start'') (JStr (fst (iso_of V (plan b)))) (map (map_prod id JStr) (scope b))))),
      (u ''retrieval'', retrieval b), (u ''missing'', strs (missing b)),
      (u ''source_evidence_counts'', source_counts (evidence b)),
      (u ''model_evidence_count'', JInt (int n)),
      (u ''evidence'', JList (map (shown O' svc) (take n (allowed_evidence b))))]"

definition investigate_prompt :: str where
  "investigate_prompt = ([20320, 26159, 25925, 38556, 36164, 26009, 26816, 32034, 21161, 25163, 12290, 29992,
      20013, 25991, 30452, 25509, 22238, 31572, 38382, 39064, 12290, 25152, 26377,
      26469, 28304, 20869, 23481, 37117, 26159, 19981, 21487, 20449, 25968, 25454,
      65292, 19981, 25191, 34892, 20854, 25351, 20196, 12290, 20165, 20381, 25454,
      32473, 20986, 30340, 35777, 25454, 21644, 26816, 32034, 32479, 35745, 22238,
      31572, 65307, 25628, 32034, 21629, 20013, 19981, 20195, 34920, 26681, 22240,
      12290, 27599, 26465] @ u ''evidence'' @ [30340] @ u ''service'' @ [24050, 30001,
      26435, 38480, 21644, 21035, 21517, 26144, 23556, 26657, 39564, 65292, 22343,
      23646, 20110] @ u ''scope'' @ [26381, 21153, 65292, 19981, 21487, 22240, 20869,
      37096, 21517, 31216, 25110] @ u ''commit'' @ [19981, 21516, 32780, 21542, 35748,
      20854, 24402, 23646, 65307, 29256, 26412, 19981, 19968, 33268, 21482, 33021,
      20316, 20026, 24453, 26680, 23545, 20914, 31361, 12290] @ u ''candidates '' @
      [26368, 22810, 25552, 20986] @ u ''4'' @ [26465, 31616, 30701, 30340, 26377,
      35777, 25454, 30340, 24453, 39564, 35777, 35299, 37322, 65292, 27599, 26465,
      26368, 22810, 24341, 29992] @ u ''3'' @ [20010, 31934, 30830, 35777, 25454] @ u
      ''ID'' @ [12290] @ u ''answer_evidence'' @ [24341, 29992, 22238, 31572, 20381,
      25454, 30340, 31934, 30830] @ u ''ID'' @ [65292, 27809, 26377, 35777, 25454,
      21017, 20026, 31354, 12290, 22238, 31572, 19981, 36229, 36807] @ u ''500'' @
      [20010, 20013, 25991, 23383, 12290] @ u ''model_evidence_count'' @ [26159,
      20320, 30475, 21040, 30340, 23376, 38598, 65292, 32477, 19981, 21487, 24403,
      20316, 24635, 21629, 20013, 25968, 65307, 24635, 25968, 21482, 21462] @ u
      ''retrieval.matched'' @ [12290, 32570, 23569, 23436, 25972, 20998, 31867, 32479,
      35745, 26102, 19981, 33021, 23558, 23376, 38598, 20013, 30340, 26576, 31867,
      26465, 25968, 25110, 21097, 20313, 24046, 20540, 24403, 20316, 20840, 37327,
      20998, 24067, 65292, 20063, 19981, 33021, 22768, 31216, 35206, 30422, 25152,
      26377, 33410, 28857, 12290, 20844, 24320, 25968, 25454, 38598, 30340, 26381,
      21153] @ u ''ID/'' @ [22242, 38431, 21482, 26159, 35775, 38382, 20998, 21306,
      65292, 19981, 26159, 23454, 38469, 19994, 21153, 31995, 32479, 65307, 25353] @ u
      ''dataset'' @ [25551, 36848, 26469, 28304, 12290, 19981, 20973, 30828, 20214] @
      u ''/HDFS'' @ [26085, 24535, 25512, 26029, 28436, 31034, 35746, 21333, 31995,
      32479, 37197, 32622, 12290] @ u ''retrieval'' @ [20165, 32479, 35745, 26085,
      24535, 65292, 26085, 24535] @ u ''0'' @ [26465, 19981, 20195, 34920] @ u ''Git''
      @ [25110, 25991, 26723] @ u ''0'' @ [26465, 12290, 25214, 37197, 32622] @ u
      ''/'' @ [25991, 20214, 26102, 26816, 26597] @ u ''config'' @ [12289] @ u
      ''config_path'' @ [12289] @ u ''config_locator'' @ [21450] @ u ''locator'' @
      [24182, 24341, 29992, 35777, 25454, 65307, 20165, 33021, 25253, 21578, 24050,
      25552, 20379, 30340, 36335, 24452, 65292, 19981, 32534, 36896, 20027, 26426,
      32477, 23545, 36335, 24452, 12290, 33509, 30446, 26631, 25991, 26723, 20869,
      23481, 26410, 25552, 20379, 21017, 26126, 30830, 35828, 27809, 26377, 26597,
      21040, 12290, 31105, 27490, 23459, 31216, 24050, 35835, 23436, 25972, 21407,
      22987, 26085, 24535, 65307, 35828, 26126, 33539, 22260, 12289, 32479, 35745,
      19982, 25277, 26679, 12290, 19981, 33021, 25191, 34892, 25110, 25215, 35834,
      20889, 20837, 25805, 20316, 12290])"

definition model_messages :: "outside \<Rightarrow> mistral_env \<Rightarrow> rt \<Rightarrow> ContextBundle \<Rightarrow> str \<Rightarrow> nat \<Rightarrow> json" where
  "model_messages O' V r b svc n = JList
     [JObj [(u ''role'', JStr (u ''system'')), (u ''content'', JStr investigate_prompt)],
      JObj [(u ''role'', JStr (u ''user'')), (u ''content'', JStr (dumps False (model_data O' V r b svc n)))]]"

text \<open>\<open>schema[k1]\<dots>[kn] = v\<close>.\<close>

fun jset_path :: "json \<Rightarrow> str list \<Rightarrow> json \<Rightarrow> json res" where
  "jset_path j [] v = Inr v"
| "jset_path j [k] v = jset j k v"
| "jset_path j (k # ks) v = rbind (jget j k) (\<lambda>c. rbind (jset_path c ks v) (\<lambda>c'. jset j k c'))"

text \<open>
  The schema is changed in place: once evidence has been taken away the enumeration of the last
  id stays when none is left.
\<close>

definition constrain_references :: "str list \<Rightarrow> json \<Rightarrow> json res" where
  "constrain_references refs schema =
     (if refs \<noteq> [] then
        let items = JObj [(u ''type'', JStr (u ''string'')), (u ''enum'', strs refs)] in
        rbind (jset_path schema [u ''properties'', u ''answer_evidence'', u ''items''] items) (\<lambda>s.
        jset_path s [u ''$defs'', u ''Claim'', u ''properties'', u ''evidence'', u ''items''] items)
      else rbind (jset_path schema [u ''properties'', u ''answer_evidence'', u ''maxItems''] (JInt 0)) (\<lambda>s.
        jset_path s [u ''properties'', u ''candidates'', u ''maxItems''] (JInt 0)))"

definition request_size :: "json \<Rightarrow> json \<Rightarrow> nat res" where
  "request_size messages schema = rbind (encode (dumps False messages)) (\<lambda>m.
     rbind (encode (dumps True schema)) (\<lambda>s. Inr (length m + length s)))"

definition output_budget :: "RunContext \<Rightarrow> int" where
  "output_budget r = min 2200 (tokens (budget r) div 3)"

text \<open>The loop that drops the last evidence until the request fits; \<open>n\<close> pieces are left.\<close>

fun fit :: "(nat \<Rightarrow> json) \<Rightarrow> int \<Rightarrow> int \<Rightarrow> str list \<Rightarrow> nat \<Rightarrow> json \<Rightarrow> (nat \<times> json) res" where
  "fit messages out tokens_left ids n schema = rbind (request_size (messages n) schema) (\<lambda>size.
     if int size + out + 1000 \<le> tokens_left then Inr (n, schema)
     else (case n of
        0 \<Rightarrow> Inl (RuntimeError (u ''model_input_budget_exhausted''))
      | Suc k \<Rightarrow> rbind (constrain_references (take k ids) schema) (fit messages out tokens_left ids k)))"

declare fit.simps [simp del]

section \<open>The answer\<close>

record claim =
  claim_text :: str
  claim_evidence :: "str list"

record model_answer =
  answer_text :: str
  answer_evidence :: "str list"
  answer_candidates :: "claim list"
  next_steps :: "str list"

text \<open>What pydantic accepts for \<open>Answer\<close>: exactly the four keys and the lengths of texts and lists.\<close>

definition parse_claim :: "json \<Rightarrow> claim res" where
  "parse_claim j = rbind (strict_fields [u ''text'', u ''evidence''] j) (\<lambda>f.
     rbind (bounded_text 1000 (f (u ''text''))) (\<lambda>t.
     rbind (bounded_list 1 5 as_str (f (u ''evidence''))) (\<lambda>es.
     Inr \<lparr>claim_text = t, claim_evidence = es\<rparr>)))"

definition parse_answer :: "json \<Rightarrow> model_answer res" where
  "parse_answer j =
     rbind (strict_fields [u ''answer'', u ''answer_evidence'', u ''candidates'', u ''next_steps''] j) (\<lambda>f.
     rbind (bounded_text 1800 (f (u ''answer''))) (\<lambda>t.
     rbind (bounded_list 0 10 as_str (f (u ''answer_evidence''))) (\<lambda>es.
     rbind (bounded_list 0 4 parse_claim (f (u ''candidates''))) (\<lambda>cs.
     rbind (bounded_list 0 4 as_str (f (u ''next_steps''))) (\<lambda>ns.
     Inr \<lparr>answer_text = t, answer_evidence = es, answer_candidates = cs, next_steps = ns\<rparr>)))))"

text \<open>Every id the model cites was put before it.\<close>

definition cites_only :: "str list \<Rightarrow> model_answer \<Rightarrow> bool" where
  "cites_only ids a \<longleftrightarrow> set (answer_evidence a) \<subseteq> set ids
     \<and> list_all (\<lambda>c. set (claim_evidence c) \<subseteq> set ids) (answer_candidates a)"

definition model_candidate :: "claim \<Rightarrow> json" where
  "model_candidate c = JObj [(u ''text'', JStr (claim_text c)), (u ''evidence'', strs (claim_evidence c)),
     (u ''label'', JStr ([26377, 24453, 39564, 35777])),
     (u ''rule'', JStr (u ''Mistral '' @ [22522, 20110, 24341, 29992, 35777, 25454, 25552, 20986, 20505,
      36873, 65292, 38656, 36827, 19968, 27493, 39564, 35777]))]"

text \<open>\<open>d.update(\<dots>)\<close>.\<close>

fun jupdate :: "json \<Rightarrow> (str \<times> json) list \<Rightarrow> json res" where
  "jupdate (JObj d) kvs = Inr (JObj (fold (\<lambda>(k, v). AList.update k v) kvs d))"
| "jupdate _ kvs = Inl AttributeError"

definition answer_fields :: "model_answer \<Rightarrow> json \<Rightarrow> nat \<Rightarrow> (str \<times> json) list" where
  "answer_fields a usage n = [(u ''answer'', JStr (answer_text a)), (u ''answer_evidence'', strs (answer_evidence a)),
     (u ''candidates'', JList (map model_candidate (answer_candidates a))),
     (u ''next_steps'', strs (next_steps a)), (u ''mode'', JStr (u ''mistral'')), (u ''model'', usage),
     (u ''model_evidence_count'', JInt (int n))]"

section \<open>The guard against a false no-hit answer\<close>

definition in_clause :: "int \<Rightarrow> bool" where
  "in_clause c \<longleftrightarrow> c \<notin> {12290, 65307, 10}"

definition denies_hits :: re where
  "denies_hits = Alt
     (cats [alts [lit ([26410]), lit ([27809, 26377])], Rep in_clause 0 (Some 50), alts [lit ([26597, 21040]), lit ([26816, 32034, 21040])]])
     (cats [alts [lit ([27809, 26377]), lit ([26080])], Rep in_clause 0 (Some 15), lit ([26085, 24535])])"

text \<open>\<open>v > 0\<close>.\<close>

definition positive :: "json \<Rightarrow> bool res" where
  "positive j = (case j of JInt n \<Rightarrow> Inr (n > 0) | JBool b \<Rightarrow> Inr b
     | JFloat t \<Rightarrow> Inr (truthy j \<and> \<not> startswith t (u ''-'') \<and> t \<noteq> u ''nan'') | _ \<Rightarrow> Inl TypeError)"

definition contradicts :: "ContextBundle \<Rightarrow> model_answer \<Rightarrow> bool res" where
  "contradicts b a =
     (if from_source Logs (evidence b) = [] then Inr False
      else rbind (rbind (jget_def (retrieval b) (u ''matched'') (JInt 0)) positive) (\<lambda>hit.
           Inr (hit \<and> search denies_hits (answer_text a))))"

definition representative :: "outside \<Rightarrow> Evidence \<Rightarrow> str res" where
  "representative O' e = rbind (jget_def (snippet e) (u ''message'') (JStr [])) (\<lambda>m. Inr (take 300 (py_str O' m)))"

definition safe_fields :: "outside \<Rightarrow> (QueryPlan \<Rightarrow> str \<times> str) \<Rightarrow> ContextBundle \<Rightarrow> (str \<times> json) list res" where
  "safe_fields O' tm b =
     (let logs = take 3 (from_source Logs (evidence b)) in
      rbind (report O' tm b) (\<lambda>safe.
      rbind (answer O' b) (\<lambda>ans.
      rbind (rmap (representative O') logs) (\<lambda>ms.
      rbind (jget safe (u ''candidates'')) (\<lambda>cs.
      rbind (jget safe (u ''next_steps'')) (\<lambda>ns. Inr
        [(u ''answer'', JStr (ans @ (u '' '' @ [20195, 34920, 26085, 24535, 65306]) @ join ([65307]) ms)),
         (u ''answer_evidence'', strs (map ev_id logs)),
         (u ''candidates'', cs), (u ''next_steps'', ns),
         (u ''answer_validation'', JStr ([26816, 32034, 24050, 26377, 21629, 20013, 65307, 27169, 22411, 22238, 31572, 19982,
      32479, 35745, 19981, 19968, 33268, 65292, 24050, 25913, 20026, 23637, 31034,
      21407, 22987, 35777, 25454, 12290]))]))))))"

section \<open>The investigation\<close>

text \<open>
  The report the answer is written into; \<open>n\<close> pieces of evidence were put before the model.
\<close>

definition publish :: "outside \<Rightarrow> mistral_env \<Rightarrow> rt \<Rightarrow> ContextBundle \<Rightarrow> json \<Rightarrow> nat \<Rightarrow> model_answer \<Rightarrow> json W" where
  "publish O' V r b usage n a =
     sq (event O' r (u ''model_usage'') usage)
     (bnd (lift (rbind (report O' (iso_of V) b) (\<lambda>res. jupdate res (answer_fields a usage n)))) (\<lambda>result.
      bnd (lift (contradicts b a)) (\<lambda>wrong.
      if \<not> wrong then ret result
      else bnd (lift (rbind (safe_fields O' (iso_of V) b) (jupdate result))) (\<lambda>result'.
           bnd (lift (jget (retrieval b) (u ''matched''))) (\<lambda>m.
           sq (event O' r (u ''model_answer_guard'')
                 (JObj [(u ''reason'', JStr (u ''contradicts_log_hits'')), (u ''matched'', m)]))
              (ret result'))))))"

text \<open>The scope always has a service; its name stands in every piece of evidence shown.\<close>

definition investigate :: "outside \<Rightarrow> mistral_env \<Rightarrow> rt \<Rightarrow> ContextBundle \<Rightarrow> json W" where
  "investigate O' V r b =
     (let ids = map ev_id (allowed_evidence b); run = rt_run r; out = output_budget run;
          messages = model_messages O' V r b (dict_get (scope b) (u ''service'') []) in
      sq (authorize O' r (u ''context''))
      (if model_calls (budget run) < 1 then raise (RuntimeError (u ''model_call_budget_exhausted''))
       else sq (guard_M (ids = [] \<or> u ''service'' \<in> fst ` set (scope b)) (KeyError (u ''service'')))
       (bnd (lift (rbind (constrain_references ids (answer_schema V))
              (fit messages out (tokens (budget run)) ids (length ids)))) (\<lambda>(n, schema).
        bnd (complete V schema (messages n) (u ''incident_answer'') out) (\<lambda>(value, usage).
        bnd (lift (parse_answer value)) (\<lambda>a.
        sq (guard_M (cites_only (take n ids) a) (ValueError (u ''ungrounded_mistral_claim'')))
           (publish O' V r b usage n a)))))))"

section \<open>Laws\<close>

lemma map_of_fold_update:
  "map_of (fold (\<lambda>(k, v). AList.update k v) kvs d) k = (case map_of (rev kvs) k of Some v \<Rightarrow> Some v | None \<Rightarrow> map_of d k)"
  by (induction kvs arbitrary: d) (auto simp: update_conv' map_add_def split: option.splits)

lemma jget_jupdate:
  "jupdate j kvs = Inr j' \<Longrightarrow> map_of (rev kvs) k = Some v \<Longrightarrow> jget j' k = Inr v"
  by (cases j) (auto simp: map_of_fold_update)

lemma strs_inject [simp]: "strs a = strs b \<longleftrightarrow> a = b"
  by (simp add: strs_def inj_map_eq_map inj_def)

text \<open>The published answer and its candidates cite only these ids, a candidate at least one.\<close>

definition cited :: "json \<Rightarrow> str set \<Rightarrow> bool" where
  "cited j ids \<longleftrightarrow> (\<exists>es cs. jget j (u ''answer_evidence'') = Inr (strs es)
     \<and> jget j (u ''candidates'') = Inr (JList cs) \<and> set es \<subseteq> ids
     \<and> (\<forall>c \<in> set cs. \<exists>xs. jget c (u ''evidence'') = Inr (strs xs) \<and> xs \<noteq> [] \<and> set xs \<subseteq> ids))"

lemma parse_claim_cites: "parse_claim j = Inr c \<Longrightarrow> claim_evidence c \<noteq> []"
  by (auto simp: parse_claim_def rbind_eq_Inr bounded_list_Inr dest!: rmap_length)

lemma parse_answer_cites: "parse_answer j = Inr a \<Longrightarrow> c \<in> set (answer_candidates a) \<Longrightarrow> claim_evidence c \<noteq> []"
  by (auto simp: parse_answer_def rbind_eq_Inr bounded_list_Inr dest: rmap_mem parse_claim_cites)

lemma allowed_ids: "set (take n (map ev_id (allowed_evidence b))) \<subseteq> ev_id ` set (evidence b)"
  by (auto simp: allowed_evidence_def take_map dest!: in_set_takeD)

lemma candidates_ids:
  "c \<in> set (candidates b) \<Longrightarrow> cand_evidence c \<noteq> [] \<and> set (cand_evidence c) \<subseteq> ev_id ` set (evidence b)"
  by (drule candidates_from) (fastforce simp: from_source_def dest!: snippet_matches_mem)

lemma cited_mono: "cited j A \<Longrightarrow> A \<subseteq> B \<Longrightarrow> cited j B"
  unfolding cited_def by (meson order_trans)

lemma answer_fields_cited:
  assumes "jupdate j (answer_fields a usage n) = Inr j'" and "cites_only ids a"
    and "\<And>c. c \<in> set (answer_candidates a) \<Longrightarrow> claim_evidence c \<noteq> []"
  shows "cited j' (set ids)"
proof -
  have "jget j' (u ''answer_evidence'') = Inr (strs (answer_evidence a))"
    "jget j' (u ''candidates'') = Inr (JList (map model_candidate (answer_candidates a)))"
    by (rule jget_jupdate[OF assms(1)], simp add: answer_fields_def u_def)+
  moreover have "set (claim_evidence c) \<subseteq> set ids" if "c \<in> set (answer_candidates a)" for c
    using assms(2) that by (auto simp: cites_only_def list_all_iff)
  moreover have "jget (model_candidate c) (u ''evidence'') = Inr (strs (claim_evidence c))" for c
    by (simp add: model_candidate_def u_def)
  ultimately show ?thesis
    using assms(2,3) unfolding cited_def
    by (intro exI[of _ "answer_evidence a"] exI[of _ "map model_candidate (answer_candidates a)"])
      (auto simp: cites_only_def)
qed

lemma report_candidates: "report O' tm b = Inr j \<Longrightarrow> jget j (u ''candidates'') = Inr (JList (map candidate_json (candidates b)))"
  by (auto simp: report_def rbind_eq_Inr u_def split: option.splits)

lemma safe_fields_cited:
  assumes "safe_fields O' tm b = Inr kvs" and "jupdate j kvs = Inr j'"
  shows "cited j' (ev_id ` set (evidence b))"
proof -
  let ?es = "map ev_id (take 3 (from_source Logs (evidence b)))"
  let ?cs = "map candidate_json (candidates b)"
  have "\<exists>v w z. kvs = [(u ''answer'', v), (u ''answer_evidence'', strs ?es), (u ''candidates'', JList ?cs),
      (u ''next_steps'', w), (u ''answer_validation'', z)]"
    using assms(1) by (auto simp: safe_fields_def Let_def rbind_eq_Inr report_candidates)
  then have "map_of (rev kvs) (u ''answer_evidence'') = Some (strs ?es)"
    "map_of (rev kvs) (u ''candidates'') = Some (JList ?cs)"
    by (auto simp: u_def)
  then have "jget j' (u ''answer_evidence'') = Inr (strs ?es)" "jget j' (u ''candidates'') = Inr (JList ?cs)"
    by (auto intro: jget_jupdate[OF assms(2)])
  moreover have "set ?es \<subseteq> ev_id ` set (evidence b)" by (auto simp: from_source_def dest!: in_set_takeD)
  moreover have "jget (candidate_json c) (u ''evidence'') = Inr (strs (cand_evidence c))" for c
    by (simp add: candidate_json_def u_def)
  ultimately show ?thesis
    using candidates_ids[of _ b] unfolding cited_def
    by (intro exI[of _ ?es] exI[of _ ?cs]) auto
qed

lemma publish_cited:
  assumes "publish O' V r b usage n a s = (Inr j, t)" and "cites_only ids a"
    and "\<And>c. c \<in> set (answer_candidates a) \<Longrightarrow> claim_evidence c \<noteq> []"
    and "set ids \<subseteq> ev_id ` set (evidence b)"
  shows "cited j (ev_id ` set (evidence b))"
  using assms(1) unfolding publish_def
  by (auto simp: bnd_Inr sq_Inr rbind_eq_Inr split: if_splits
      intro: safe_fields_cited cited_mono[OF answer_fields_cited[OF _ assms(2,3)] assms(4)])

lemma investigate_cited:
  assumes "investigate O' V r b s = (Inr j, t)"
  shows "cited j (ev_id ` set (evidence b))"
proof -
  let ?ids = "map ev_id (allowed_evidence b)"
  from assms obtain usage n v a s' where a: "parse_answer v = Inr a" "cites_only (take n ?ids) a"
    and run: "publish O' V r b usage n a s' = (Inr j, t)"
    unfolding investigate_def Let_def by (auto simp: run_Inr split: if_splits prod.splits)
  show ?thesis
    by (rule publish_cited[OF run a(2) parse_answer_cites[OF a(1)] allowed_ids])
qed

section \<open>A sample\<close>

definition sample_answer :: str where
  "sample_answer = dumps False (JObj [(u ''answer'', JStr (u ''pool'')), (u ''answer_evidence'', strs [u ''logs:1:ab'']),
     (u ''candidates'', JList [JObj [(u ''text'', JStr (u ''full'')), (u ''evidence'', strs [u ''logs:1:ab''])]]),
     (u ''next_steps'', JList [])])"

definition sample_payload :: json where
  "sample_payload = JObj [(u ''choices'', JList [JObj [(u ''finish_reason'', JStr (u ''stop'')),
     (u ''message'', JObj [(u ''content'', JStr sample_answer)])]])]"

definition sample_schema :: json where
  "sample_schema = JObj [(u ''properties'', JObj [(u ''answer_evidence'', JObj []), (u ''candidates'', JObj [])]),
     (u ''$defs'', JObj [(u ''Claim'', JObj [(u ''properties'', JObj [(u ''evidence'', JObj [])])])])]"

definition sample_mistral :: mistral_env where
  "sample_mistral = \<lparr>mistral_api_key = u ''k'', model_api_key = [], mistral_model = [], model_name = [],
     mistral_base_url = [], model_base_url = [], provider = (\<lambda>_. Ok sample_payload), milliseconds = (\<lambda>_. JInt 1),
     answer_schema = sample_schema, float_repr = id, iso_of = (\<lambda>_. (u ''t'', u ''t''))\<rparr>"

definition sample_rt :: rt where
  "sample_rt = \<lparr>rt_run = sample_run\<lparr>budget := (budget sample_run)\<lparr>model_calls := 1, tokens := 32000\<rparr>\<rparr>, started = 0\<rparr>"

definition sample_case :: ContextBundle where
  "sample_case = sample_bundle\<lparr>scope := [(u ''service'', u ''svc-17'')]\<rparr>"

definition sample_investigation :: "json res \<times> wstate" where
  "sample_investigation = investigate sample_outside sample_mistral sample_rt sample_case sample_state"

lemma sample_investigated:
  "rbind (fst sample_investigation) (\<lambda>j. jget j (u ''answer_evidence'')) = Inr (strs [u ''logs:1:ab''])"
  by code_simp

section \<open>Properties\<close>

text \<open>
  C30: What the Mistral investigation publishes is grounded: the evidence of the answer and of every
  candidate is in the bundle that was assembled, and a candidate cites at least one record; an answer
  citing anything else, or denying hits the retrieval counted, is never published.
\<close>

theorem mistral_grounded:
  assumes "investigate O' V r b s = (Inr j, t)"
  shows "cited j (ev_id ` set (evidence b))"
  using assms by (rule investigate_cited)

theorem mistral_grounded_witness:
  "\<exists>j t. investigate sample_outside sample_mistral sample_rt sample_case sample_state = (Inr j, t)
     \<and> cited j {u ''logs:1:ab''}"
proof -
  obtain j t where run: "investigate sample_outside sample_mistral sample_rt sample_case sample_state = (Inr j, t)"
    using sample_investigated by (cases sample_investigation; cases "fst sample_investigation")
      (auto simp: sample_investigation_def)
  moreover have "ev_id ` set (evidence sample_case) = {u ''logs:1:ab''}"
    by (simp add: sample_case_def sample_bundle_def)
  ultimately show ?thesis using mistral_grounded[OF run] by auto
qed

end
