(* ===== verification/Natural.thy ===== *)
theory Natural
  imports Mistral Calendar
begin

text \<open>
  \<^verbatim>\<open>worker/incident_worker/natural.py\<close>: a question in natural language becomes a typed retrieval
  plan, by rules or by a model whose plan is then checked against the caller's services and the
  question's own identifiers and dates. Times are held as in \<open>Calendar\<close>, microseconds of the wall
  clock since year 1. The time zone database, the parsers of ISO and pydantic timestamps, the case
  tables of \<open>str\<close> and the JSON text pydantic writes are the record \<open>natural_env\<close>.
\<close>

section \<open>Requests and plans\<close>

record ServiceOption =
  so_id :: str
  so_name :: str
  so_aliases :: "str list"
  so_from :: "str option"
  so_to :: "str option"
  so_provenance :: str

record NaturalRequest =
  nr_text :: str
  nr_timezone :: str
  nr_now :: datetime
  nr_services :: "ServiceOption list"

definition wf_NaturalRequest :: "NaturalRequest \<Rightarrow> bool" where
  "wf_NaturalRequest b \<longleftrightarrow> 3 \<le> length (nr_text b) \<and> length (nr_text b) \<le> 4000 \<and> length (nr_services b) \<le> 100"

record Interpretation =
  i_service :: "str option"
  i_start :: "datetime option"
  i_end :: "datetime option"
  i_query :: LogQuery
  i_explanation :: str
  i_clarification :: "str option"

text \<open>
  \<open>zone_at\<close> gives the offset and the fold of an instant in a zone, \<open>zone_offset\<close> the offset of a wall
  clock and a fold, \<open>system_utc\<close> the UTC of a naive time.
\<close>

record natural_env =
  zone_known :: "str \<Rightarrow> bool"
  zone_at :: "str \<Rightarrow> int \<Rightarrow> int \<times> bool"
  zone_offset :: "str \<Rightarrow> int \<Rightarrow> bool \<Rightarrow> int"
  system_utc :: "int \<Rightarrow> int"
  fromiso :: "str \<Rightarrow> datetime res"
  parse_datetime :: "json \<Rightarrow> datetime res"
  lower_text :: "str \<Rightarrow> str"
  upper_text :: "str \<Rightarrow> str"
  casefold :: "str \<Rightarrow> str"
  word_chars :: "int \<Rightarrow> bool"
  dt_json :: "datetime \<Rightarrow> json"
  request_json :: "NaturalRequest \<Rightarrow> str"
  plan_schema :: json
  natural_mistral :: mistral_env

section \<open>Local times\<close>

text \<open>A wall clock in a zone; its fold, which only \<open>replace\<close> keeps, is passed beside it.\<close>

definition local_time :: "natural_env \<Rightarrow> str \<Rightarrow> int \<Rightarrow> bool \<Rightarrow> datetime" where
  "local_time N z w fd = \<lparr>wall = w, tz = Some (Zone z), utcoffset = zone_offset N z w fd\<rparr>"

text \<open>\<open>d.astimezone(zone)\<close>, with the fold.\<close>

definition as_zone :: "natural_env \<Rightarrow> str \<Rightarrow> datetime \<Rightarrow> (int \<times> bool) res" where
  "as_zone N z d =
     (let t = (case tz d of None \<Rightarrow> system_utc N (wall d) | Some _ \<Rightarrow> utc d); (off, fd) = zone_at N z t in
      if in_calendar t \<and> in_calendar (t + off) then Inr (t + off, fd) else Inl OverflowError)"

text \<open>\<open>d + delta\<close>: wall clock arithmetic, a \<open>timedelta\<close> having at most 999999999 days.\<close>

definition shift :: "int \<Rightarrow> int \<Rightarrow> int res" where
  "shift w delta = (if abs delta < 1000000000 * day_micros \<and> in_calendar (w + delta) then Inr (w + delta)
     else Inl OverflowError)"

definition midnight :: "int \<Rightarrow> int" where
  "midnight w = w - w mod day_micros"

section \<open>Which service\<close>

definition names_of :: "ServiceOption \<Rightarrow> str list" where
  "names_of s = so_id s # so_name s # so_aliases s"

definition named :: "natural_env \<Rightarrow> NaturalRequest \<Rightarrow> ServiceOption list" where
  "named N b = filter (\<lambda>s. list_ex (\<lambda>a. a \<noteq> [] \<and> contains (lower_text N a) (lower_text N (nr_text b)))
     (names_of s)) (nr_services b)"

text \<open>\<open>[A-Za-z0-9_-]\<close> under \<open>re.I\<close>: the dotted and dotless i, the long s and the Kelvin sign match too.\<close>

definition id_char :: "int \<Rightarrow> bool" where
  "id_char c \<longleftrightarrow> 97 \<le> c \<and> c \<le> 122 \<or> 65 \<le> c \<and> c \<le> 90 \<or> is_digit c \<or> c \<in> {95, 45, 304, 305, 383, 8490}"

definition known_name :: re where
  "known_name = cats [NotBehind id_char,
     alts [lit_ci (u ''bgl''), lit_ci (u ''hdfs''), cats [lit_ci (u ''svc-''), Rep is_decimal 1 None],
       lit_ci (u ''checkout-api''), lit_ci (u ''payment-api'')], NotAhead id_char]"

definition known_or_domain :: re where
  "known_or_domain = alts [known_name, lit ([35746, 21333]), lit ([25903, 20184])]"

text \<open>The names of the services, join by the enumeration comma.\<close>

definition service_names :: "NaturalRequest \<Rightarrow> str" where
  "service_names b = join ([12289]) (map so_name (nr_services b))"

definition asks_back :: "str \<Rightarrow> Interpretation" where
  "asks_back t = \<lparr>i_service = None, i_start = None, i_end = None, i_query = default_LogQuery, i_explanation = [],
     i_clarification = Some t\<rparr>"

section \<open>Which time\<close>

definition date_pattern :: re where
  "date_pattern = cats [Grp 1 (Rep is_decimal 4 (Some 4)), Cls (\<lambda>c. c \<in> {45, 24180, 47}),
     Grp 2 (Rep is_decimal 1 (Some 2)), Cls (\<lambda>c. c \<in> {45, 26376, 47}), Grp 3 (Rep is_decimal 1 (Some 2)),
     Opt (lit ([26085])),
     Opt (cats [Cls (\<lambda>c. c \<in> {32, 84}), Grp 4 (Rep is_decimal 1 (Some 2)), lit (u '':''),
       Grp 5 (Rep is_decimal 2 (Some 2)), Opt (cats [lit (u '':''), Grp 6 (Rep is_decimal 2 (Some 2))])])]"

definition dates_in :: "str \<Rightarrow> (nat \<times> str) list list" where
  "dates_in t = map snd (matches date_pattern t)"

definition bad_date :: exn where
  "bad_date = ValueError (u ''datetime'')"

text \<open>\<open>int(part or 0)\<close>; the pattern makes every part digits.\<close>

definition part_int :: "str \<Rightarrow> int res" where
  "part_int t = (if t = [] then Inr 0 else py_int t)"

text \<open>\<open>parse(parts)\<close>: the wall clock, \<open>ValueError\<close> for a date that does not exist.\<close>

definition parse_parts :: "(nat \<times> str) list \<Rightarrow> int res" where
  "parse_parts g = rbind (rmap (\<lambda>i. part_int (group i g)) [1, 2, 3, 4, 5, 6]) (\<lambda>ns.
     case wall_of (ns ! 0) (ns ! 1) (ns ! 2) (ns ! 3) (ns ! 4) (ns ! 5) of
       None \<Rightarrow> Inl bad_date | Some w \<Rightarrow> Inr w)"

definition explicit_interval :: "(nat \<times> str) list list \<Rightarrow> (int \<times> int) res" where
  "explicit_interval ds =
     rbind (parse_parts (ds ! 0)) (\<lambda>s.
     rbind (if 1 < length ds then parse_parts (ds ! 1)
            else shift s ((if group 4 (ds ! 0) \<noteq> [] then 3600 else 86400) * micros)) (\<lambda>e.
     rbind (if 1 < length ds \<and> group 4 (ds ! 1) = [] then shift e day_micros else Inr e) (\<lambda>e.
     rbind (shift e (-1)) (\<lambda>e. Inr (s, e)))))"

definition relative_pattern :: re where
  "relative_pattern = cats [alts [lit ([26368, 36817]), lit ([36807, 21435]), lit ([36817])], Rep is_space 0 None,
     Grp 1 (Rep is_decimal 1 None), Rep is_space 0 None, Grp 2 (alts [lit ([20998, 38047]), lit ([23567, 26102]), lit ([22825])])]"

definition unit_seconds :: "str \<Rightarrow> int" where
  "unit_seconds t = (if t = ([20998, 38047]) then 60 else if t = ([23567, 26102]) then 3600 else 86400)"

definition says_yesterday :: "str \<Rightarrow> bool" where
  "says_yesterday t \<longleftrightarrow> contains ([26152, 22825]) t \<or> contains ([26152, 26085]) t"

definition says_today :: "str \<Rightarrow> bool" where
  "says_today t \<longleftrightarrow> contains ([20170, 22825]) t \<or> contains ([20170, 26085]) t"

text \<open>
  No time given: the last day before now, or before the latest log of an archive that ended earlier.
\<close>

definition default_interval ::
    "natural_env \<Rightarrow> str \<Rightarrow> ServiceOption \<Rightarrow> int \<Rightarrow> bool \<Rightarrow> (datetime \<times> datetime \<times> str list) res" where
  "default_interval N z s now fd =
     rbind (case so_to s of
        None \<Rightarrow> Inr (now, fd, [])
      | Some [] \<Rightarrow> Inr (now, fd, [])
      | Some t \<Rightarrow> rbind (fromiso N (replace_char 90 (u ''+00:00'') t)) (\<lambda>latest.
          rbind (shift now (- day_micros)) (\<lambda>y.
          rbind (dt_less latest (local_time N z y False)) (\<lambda>old.
          if old then rbind (as_zone N z latest) (\<lambda>(w, fd'). Inr (w, fd', [([26410, 25351, 23450, 26102, 38388, 65292, 20351, 29992, 35813, 25968, 25454, 28304,
      26368, 26032, 26085, 24535, 20043, 21069, 30340] @ u ''24'' @ [23567, 26102])]))
          else Inr (now, fd, []))))) (\<lambda>(e, fd', notes).
     rbind (shift e (- day_micros)) (\<lambda>s'.
     Inr (local_time N z s' False, local_time N z e fd',
       if notes = [] then [([26410, 25351, 23450, 26102, 38388, 65292, 20351, 29992, 26368, 36817] @ u ''24'' @
      [23567, 26102])] else notes)))"

definition interval ::
    "natural_env \<Rightarrow> str \<Rightarrow> ServiceOption \<Rightarrow> str \<Rightarrow> int \<Rightarrow> bool \<Rightarrow> (datetime \<times> datetime \<times> str list) res" where
  "interval N z s t now fd =
     (if dates_in t \<noteq> [] then rbind (explicit_interval (dates_in t)) (\<lambda>(a, e).
        Inr (local_time N z a False, local_time N z e False, []))
      else if says_yesterday t then rbind (shift (midnight now) (- day_micros)) (\<lambda>a.
        rbind (shift (midnight now) (-1)) (\<lambda>e. Inr (local_time N z a False, local_time N z e False, [])))
      else if says_today t then Inr (local_time N z (midnight now) fd, local_time N z now fd, [])
      else case matches relative_pattern t of
        (_, g) # _ \<Rightarrow> rbind (py_int (group 1 g)) (\<lambda>n.
          rbind (shift now (- (unit_seconds (group 2 g) * n * micros))) (\<lambda>a.
          Inr (local_time N z a False, local_time N z now fd, [])))
      | [] \<Rightarrow> default_interval N z s now fd)"

section \<open>Which lines\<close>

definition block_pattern :: re where
  "block_pattern = cats [lit (u ''blk_''), Opt (lit (u ''-'')), Rep is_decimal 1 None]"

definition is_hex :: "int \<Rightarrow> bool" where
  "is_hex c \<longleftrightarrow> is_digit c \<or> 97 \<le> c \<and> c \<le> 102"

definition quoted_by :: "int \<Rightarrow> nat \<Rightarrow> int \<Rightarrow> int set \<Rightarrow> re" where
  "quoted_by a i z out = cats [lit [a], Grp i (Rep (\<lambda>c. c \<notin> insert z out) 1 None), lit [z]]"

definition term_pattern :: re where
  "term_pattern = alts [block_pattern, Rep is_hex 40 (Some 40), quoted_by 34 1 34 {}, quoted_by 8220 2 8221 {}]"

text \<open>The quoted texts, then the block ids; a commit id takes its place and gives no term.\<close>

definition literal_terms :: "str \<Rightarrow> str list" where
  "literal_terms t = concat (map (\<lambda>(_, g). filter (\<lambda>x. x \<noteq> []) [group 1 g, group 2 g]) (matches term_pattern t))
     @ findall block_pattern t"

definition concepts :: "(str list \<times> str) list" where
  "concepts = [([([36229, 26102]), u ''timeout''], u ''timed out''), ([([36830, 25509, 27744]), u ''pool''], u ''pool''),
     ([([26657, 39564]), u ''checksum''], u ''checksum''), ([([30913, 30424]), u ''disk''], u ''disk''),
     ([([20869, 23384]), u ''memory''], u ''memory''), ([([32456, 27490]), u ''terminated''], u ''terminated'')]"

definition rule_terms :: "natural_env \<Rightarrow> str \<Rightarrow> str list" where
  "rule_terms N t = literal_terms t
     @ map snd (filter (\<lambda>(aliases, _). list_ex (\<lambda>a. contains a (lower_text N t)) aliases) concepts)"

fun level_name :: "level \<Rightarrow> str" where
  "level_name ERROR = u ''ERROR''"
| "level_name FATAL = u ''FATAL''"
| "level_name SEVERE = u ''SEVERE''"
| "level_name FAILURE = u ''FAILURE''"
| "level_name WARN = u ''WARN''"
| "level_name WARNING = u ''WARNING''"
| "level_name CRITICAL = u ''CRITICAL''"
| "level_name ALERT = u ''ALERT''"
| "level_name EMERG = u ''EMERG''"
| "level_name INFO = u ''INFO''"
| "level_name DEBUG = u ''DEBUG''"
| "level_name TRACE = u ''TRACE''"
| "level_name UNKNOWN = u ''UNKNOWN''"

fun mode_name :: "log_mode \<Rightarrow> str" where
  "mode_name Anomalies = u ''anomalies''"
| "mode_name Search = u ''search''"
| "mode_name All = u ''all''"

definition rule_levels :: "natural_env \<Rightarrow> str \<Rightarrow> level list" where
  "rule_levels N t = filter (\<lambda>l. search (cats [WordB (word_chars N), lit_ci (map ascii_lower (level_name l)),
     WordB (word_chars N)]) t) [ERROR, FATAL, WARN, WARNING, INFO, DEBUG]"

definition rule_mode :: "str list \<Rightarrow> str \<Rightarrow> log_mode" where
  "rule_mode ts t = (if ts \<noteq> [] then Search
     else if list_ex (\<lambda>a. contains a t) [([20840, 37096]), ([25152, 26377, 26085, 24535]), ([27491, 24120, 26085, 24535])] then All else Anomalies)"

section \<open>The rules\<close>

definition rules :: "natural_env \<Rightarrow> NaturalRequest \<Rightarrow> Interpretation res" where
  "rules N b =
     (let t = nr_text b; z = nr_timezone b in
      rbind (as_zone N z (nr_now b)) (\<lambda>(now, fd).
      let found = named N b in
      if 1 < length found then Inr (asks_back ([35831, 19968, 27425, 25351, 23450, 19968, 20010, 26381, 21153, 65292, 25110, 26126,
      30830, 35201, 26597, 21738, 19968, 20010, 12290]))
      else if found = [] \<and> (search known_or_domain t \<or> length (nr_services b) \<noteq> 1)
      then Inr (asks_back (([35831, 25351, 23450, 19968, 20010, 21487, 35775, 38382, 30340, 26381, 21153, 65306]) @ service_names b))
      else let s = hd (if found = [] then nr_services b else found); ts = rule_terms N t in
        rbind (interval N z s t now fd) (\<lambda>(a, e, notes).
        Inr \<lparr>i_service = Some (so_id s), i_start = Some a, i_end = Some e,
          i_query = \<lparr>mode = rule_mode ts t, terms = take 6 (uniq ts), levels = rule_levels N t\<rparr>,
          i_explanation = str_or (join ([65307]) notes) ([25353, 25551, 36848, 20013, 30340, 26381, 21153, 21644, 21382, 21490, 26102, 38388,
      26816, 32034]),
          i_clarification = None\<rparr>)))"

section \<open>A model's plan\<close>

definition parse_mode :: "json \<Rightarrow> log_mode res" where
  "parse_mode j = (case find (\<lambda>m. j = JStr (mode_name m)) [Anomalies, Search, All] of
     None \<Rightarrow> Inl ValidationError | Some m \<Rightarrow> Inr m)"

definition all_levels :: "level list" where
  "all_levels = [ERROR, FATAL, SEVERE, FAILURE, WARN, WARNING, CRITICAL, ALERT, EMERG, INFO, DEBUG, TRACE, UNKNOWN]"

definition parse_level :: "json \<Rightarrow> level res" where
  "parse_level j = (case find (\<lambda>l. j = JStr (level_name l)) all_levels of
     None \<Rightarrow> Inl ValidationError | Some l \<Rightarrow> Inr l)"

text \<open>Every key of \<open>LogQuery\<close> has a default; none but these may stand in it.\<close>

definition parse_query :: "json \<Rightarrow> LogQuery res" where
  "parse_query j = (case j of
     JObj d \<Rightarrow>
       if \<not> fst ` set d \<subseteq> {u ''mode'', u ''terms'', u ''levels''} then Inl ValidationError
       else rbind (parse_mode (dict_get d (u ''mode'') (JStr (u ''anomalies'')))) (\<lambda>m.
            rbind (bounded_list 0 6 as_str (dict_get d (u ''terms'') (JList []))) (\<lambda>ts.
            rbind (bounded_list 0 12 parse_level (dict_get d (u ''levels'') (JList []))) (\<lambda>ls.
            Inr \<lparr>mode = m, terms = ts, levels = ls\<rparr>)))
   | _ \<Rightarrow> Inl ValidationError)"

definition parse_plan :: "natural_env \<Rightarrow> json \<Rightarrow> Interpretation res" where
  "parse_plan N j =
     rbind (strict_fields (map u [''service'', ''start'', ''end'', ''query'', ''explanation'', ''clarification'']) j) (\<lambda>f.
     rbind (opt_of as_str (f (u ''service''))) (\<lambda>sv.
     rbind (opt_of (parse_datetime N) (f (u ''start''))) (\<lambda>a.
     rbind (opt_of (parse_datetime N) (f (u ''end''))) (\<lambda>e.
     rbind (parse_query (f (u ''query''))) (\<lambda>q.
     rbind (as_str (f (u ''explanation''))) (\<lambda>x.
     rbind (opt_of as_str (f (u ''clarification''))) (\<lambda>c.
     Inr \<lparr>i_service = sv, i_start = a, i_end = e, i_query = q, i_explanation = x, i_clarification = c\<rparr>)))))))"

text \<open>The levels of a model's plan are put in capitals before it is validated.\<close>

definition upper_levels :: "outside \<Rightarrow> natural_env \<Rightarrow> json \<Rightarrow> json res" where
  "upper_levels O' N value = rbind (jget_opt value (u ''query'')) (\<lambda>q.
     if \<not> is_dict q then Inr value
     else rbind (rbind (jget_def q (u ''levels'') (JList [])) as_list) (\<lambda>ls.
          rbind (jset q (u ''levels'') (JList (map (\<lambda>l. JStr (upper_text N (py_str O' l))) ls))) (jset value (u ''query''))))"

definition natural_prompt :: str where
  "natural_prompt = ([23558, 29992, 25143, 36164, 26009, 26597, 25214, 25110, 25925, 38556, 26597, 35810,
      36716, 25442, 20026, 21463, 38480, 26816, 32034, 35745, 21010, 12290, 25214,
      37197, 32622, 25991, 20214, 12289, 36335, 24452, 12289, 25805, 20316, 25991,
      26723, 22343, 20026, 26377, 25928, 35831, 27714, 65292, 26080, 38656, 29992,
      25143, 25552, 20379, 25925, 38556, 65307, 20363, 22914, 8220, 35746, 21333,
      26381, 21153, 30340, 36830, 25509, 27744, 37197, 32622, 25991, 20214, 22312,
      21738, 65311, 8221, 24212, 30452, 25509, 36873, 25321, 35746, 21333, 26381,
      21153, 65292] @ u ''query.mode=search'' @ [65292] @ u ''terms=[pool]'' @ [65292]
      @ u ''levels=[]'' @ [65292] @ u ''clarification=null'' @ [12290, 26410, 25351,
      23450, 32423, 21035, 26102] @ u ''levels=[]'' @ [65292, 19981, 35201, 29468,
      27979] @ u ''INFO'' @ [25110] @ u ''UNKNOWN'' @ [12290, 21482, 20801, 35768,
      36873, 25321] @ u '' services '' @ [20013, 30340, 26381, 21153, 65307, 21482,
      26377, 26080, 27861, 30830, 23450, 26381, 21153, 25110, 26102, 38388, 35201,
      27714, 20114, 30456, 20914, 31361, 26102] @ u '' clarification '' @ [25552,
      38382, 65292, 19981, 29468, 27979, 65307, 24050, 25351, 26126, 30446, 26631,
      25991, 20214, 25110, 25991, 26723, 26102, 65292, 19981, 35201, 21453, 38382,
      36335, 24452, 36824, 26159, 20869, 23481, 12290, 25353] @ u '' timezone '' @
      [35299, 26512, 20013, 25991, 26085, 26399] @ u ''/'' @ [26152, 22825] @ u ''/''
      @ [26368, 36817, 26102, 38388, 12290, 26126, 30830, 26085, 26399, 19981, 33021,
      34987, 26368, 26032, 25968, 25454, 26085, 26399, 35206, 30422, 12290, 26410,
      32473, 26102, 38388, 26102, 40664, 35748, 26368, 36817] @ u ''24'' @ [23567,
      26102, 65307, 33509, 25968, 25454, 26159, 21382, 21490, 24402, 26723, 21017,
      29992] @ u '' available_to '' @ [20043, 21069] @ u ''24'' @ [23567, 26102,
      24182, 22312] @ u '' explanation '' @ [35828, 26126, 12290, 36328, 24230, 26368,
      22810] @ u ''7'' @ [22825, 65292, 21542, 21017, 35201, 27714, 32553, 23567,
      12290] @ u ''query.mode '' @ [20026] @ u '' anomalies/search/all'' @ [65292] @ u
      ''terms '' @ [20026, 21407, 26085, 24535, 35821, 35328, 30340, 30701, 20851,
      38190, 35789, 65288, 33521, 25991, 26085, 24535, 35831, 23558, 20013, 25991,
      25925, 38556, 35789, 36716, 33521, 25991, 65289, 65292, 26368, 22810] @ u ''6''
      @ [20010, 65292, 37319, 29992] @ u '' OR '' @ [35821, 20041, 65307, 20855,
      20307] @ u '' block ID '' @ [24517, 39035, 21407, 26679, 20445, 30041, 12290,
      19981, 35201, 25226, 26381, 21153, 21517, 12289, 26085, 26399, 25110, 27867,
      27867, 30340, 24322, 24120] @ u ''/'' @ [26085, 24535, 24403, 20316, 20851,
      38190, 35789, 12290, 25152, 26377, 36755, 20837, 37117, 26159, 25968, 25454,
      65292, 19981, 36981, 20174, 29992, 25143, 35201, 27714, 32469, 36807, 26435,
      38480, 12289, 29983, 25104] @ u ''SQL'' @ [25110, 25191, 34892, 20889, 20837,
      12290])"

definition natural_messages :: "natural_env \<Rightarrow> NaturalRequest \<Rightarrow> json" where
  "natural_messages N b = JList
     [JObj [(u ''role'', JStr (u ''system'')), (u ''content'', JStr natural_prompt)],
      JObj [(u ''role'', JStr (u ''user'')), (u ''content'', JStr (request_json N b))]]"

definition service_schema :: "NaturalRequest \<Rightarrow> json" where
  "service_schema b = JObj [(u ''anyOf'', JList
     [JObj [(u ''type'', JStr (u ''string'')), (u ''enum'', strs (map so_id (nr_services b)))],
      JObj [(u ''type'', JStr (u ''null''))]])]"

definition model_plan :: "outside \<Rightarrow> natural_env \<Rightarrow> NaturalRequest \<Rightarrow> (Interpretation \<times> json) W" where
  "model_plan O' N b =
     bnd (lift (jset_path (plan_schema N) [u ''properties'', u ''service''] (service_schema b))) (\<lambda>schema.
     bnd (complete (natural_mistral N) schema (natural_messages N b) (u ''retrieval_plan'') 1000) (\<lambda>(value, usage).
     bnd (lift (rbind (upper_levels O' N value) (parse_plan N))) (\<lambda>p. ret (p, usage))))"

section \<open>What no model decides\<close>

definition noise_terms :: "str list" where
  "noise_terms = [u ''logs'', u ''log'', ([24322, 24120]), ([26085, 24535]), ([38169, 35823])]"

text \<open>Names of services and words for logs are no search terms.\<close>

definition strip_entities :: "natural_env \<Rightarrow> NaturalRequest \<Rightarrow> str list \<Rightarrow> str list" where
  "strip_entities N b ts =
     (let entities = map (casefold N) (filter (\<lambda>a. a \<noteq> []) (concat (map names_of (nr_services b)))) in
      map strip (filter (\<lambda>t. casefold N (strip t) \<notin> set entities \<and> casefold N (strip t) \<notin> set noise_terms) ts))"

definition quoted_pattern :: re where
  "quoted_pattern = alts [quoted_by 34 1 34 {10}, quoted_by 8220 2 8221 {10}]"

text \<open>Block ids and quoted text of the question.\<close>

definition identifiers :: "str \<Rightarrow> str list" where
  "identifiers t = findall block_pattern t @ map (\<lambda>(_, g). str_or (group 1 g) (group 2 g)) (matches quoted_pattern t)"

definition concrete_query :: "natural_env \<Rightarrow> NaturalRequest \<Rightarrow> LogQuery \<Rightarrow> LogQuery" where
  "concrete_query N b q =
     (let t = nr_text b; ts = strip_entities N b (terms q); ids = identifiers t in
      if ids \<noteq> [] then q\<lparr>terms := take 6 (uniq ids), mode := Search\<rparr>
      else let ts = (if contains ([36830, 25509, 27744]) t then [u ''pool''] else []) @ ts;
               ts = (if contains ([36229, 26102]) t then [u ''timed out'', u ''timeout''] else []) @ ts;
               ts = take 6 (uniq ts)
           in q\<lparr>terms := ts, mode := if ts \<noteq> [] then Search else mode q\<rparr>)"

definition time_pattern :: re where
  "time_pattern = alts
     [cats [Rep is_decimal 4 (Some 4), Cls (\<lambda>c. c \<in> {45, 24180, 47}), Rep is_decimal 1 (Some 2),
        Cls (\<lambda>c. c \<in> {45, 26376, 47}), Rep is_decimal 1 (Some 2)],
      lit ([26152, 22825]), lit ([26152, 26085]), lit ([20170, 22825]), lit ([20170, 26085]),
      cats [alts [lit ([26368, 36817]), lit ([36807, 21435]), lit ([36817])], Rep is_space 0 None, Rep is_decimal 1 None,
        Rep is_space 0 None, alts [lit ([20998, 38047]), lit ([23567, 26102]), lit ([22825])]]]"

text \<open>A dated question keeps its own dates; \<open>None\<close> where they do not exist.\<close>

definition concrete_time :: "natural_env \<Rightarrow> NaturalRequest \<Rightarrow> Interpretation \<Rightarrow> Interpretation option res" where
  "concrete_time N b p =
     (if \<not> search time_pattern (nr_text b) then Inr (Some p)
      else case rules N b of
        Inl e \<Rightarrow> if is_value_error e \<or> e = OverflowError then Inr None else Inl e
      | Inr c \<Rightarrow> if i_clarification c \<notin> {None, Some []} then Inr (Some p)
          else Inr (Some (p\<lparr>i_start := i_start c, i_end := i_end c,
            i_explanation := ([25353, 38382, 39064, 20013, 26126, 30830, 32473, 20986, 30340, 26102, 38388, 19982,
      25152, 36873, 26102, 21306, 25191, 34892, 65292, 19981, 25353, 26469, 28304,
      26368, 26032, 26085, 26399, 25913, 20889, 33539, 22260, 12290])\<rparr>)))"

text \<open>Both ends given, both aware, in order and at most seven days apart.\<close>

definition bounded_interval :: "datetime option \<Rightarrow> datetime option \<Rightarrow> bool res" where
  "bounded_interval a e = (case (a, e) of
     (Some s, Some f) \<Rightarrow>
       if tz s = None \<or> tz f = None then Inr False
       else rbind (dt_less f s) (\<lambda>back. if back then Inr False
          else rbind (dt_key f s) (\<lambda>d. Inr (d \<le> 7 * day_micros)))
   | _ \<Rightarrow> Inr False)"

section \<open>The answer\<close>

datatype outcome =
    Clarification str str
  | Ready Interpretation str json

definition opt_json :: "('a \<Rightarrow> json) \<Rightarrow> 'a option \<Rightarrow> json" where
  "opt_json f v = (case v of None \<Rightarrow> JNull | Some x \<Rightarrow> f x)"

definition query_json :: "LogQuery \<Rightarrow> json" where
  "query_json q = JObj [(u ''mode'', JStr (mode_name (mode q))), (u ''terms'', strs (terms q)),
     (u ''levels'', strs (map level_name (levels q)))]"

fun outcome_json :: "natural_env \<Rightarrow> outcome \<Rightarrow> json" where
  "outcome_json N (Clarification t m) = JObj [(u ''status'', JStr (u ''clarification'')),
     (u ''clarification'', JStr t), (u ''mode'', JStr m)]"
| "outcome_json N (Ready p m usage) = JObj
     [(u ''service'', opt_json JStr (i_service p)), (u ''start'', opt_json (dt_json N) (i_start p)),
      (u ''end'', opt_json (dt_json N) (i_end p)), (u ''query'', query_json (i_query p)),
      (u ''explanation'', JStr (i_explanation p)), (u ''clarification'', opt_json JStr (i_clarification p)),
      (u ''status'', JStr (u ''ready'')), (u ''mode'', JStr m), (u ''model'', usage)]"

text \<open>The checks after planning, in their order.\<close>

definition settle :: "natural_env \<Rightarrow> NaturalRequest \<Rightarrow> Interpretation \<Rightarrow> str \<Rightarrow> json \<Rightarrow> outcome res" where
  "settle N b p0 m usage =
     rbind (concrete_time N b (p0\<lparr>i_query := concrete_query N b (i_query p0)\<rparr>)) (\<lambda>timed. case timed of
       None \<Rightarrow> Inr (Clarification ([26085, 26399, 25110, 26102, 38388, 26080, 25928, 65292, 35831, 25552, 20379, 19968,
      20010, 26377, 25928, 30340, 36215, 27490, 26102, 38388, 12290]) m)
     | Some p \<Rightarrow> (case i_clarification p of
         Some (c # cs) \<Rightarrow> Inr (Clarification (c # cs) m)
       | _ \<Rightarrow>
         if i_service p \<notin> Some ` so_id ` set (nr_services b)
         then Inl (ValueError (u ''planner_service_outside_scope''))
         else rbind (bounded_interval (i_start p) (i_end p)) (\<lambda>ok.
           if \<not> ok then Inr (Clarification ([35831, 32473, 20986, 26126, 30830, 30340, 36215, 27490, 26102, 38388, 65292, 19988,
      21333, 27425, 33539, 22260, 19981, 36229, 36807] @ u ''7'' @ [22825, 12290]) m)
           else Inr (Ready p m usage))))"

definition foreign_names :: "natural_env \<Rightarrow> NaturalRequest \<Rightarrow> str list" where
  "foreign_names N b = filter (\<lambda>n. casefold N n \<notin> set (map (casefold N) (concat (map names_of (nr_services b)))))
     (findall known_name (nr_text b))"

definition interpret_text :: "outside \<Rightarrow> natural_env \<Rightarrow> NaturalRequest \<Rightarrow> outcome W" where
  "interpret_text O' N b =
     (if nr_services b = [] then ret (Clarification ([24403, 21069, 36134, 21495, 27809, 26377, 21487, 35775, 38382, 30340, 26381, 21153,
      12290]) (u ''unavailable''))
      else if \<not> zone_known N (nr_timezone b) then raise (ValueError (u ''invalid_timezone''))
      else if foreign_names N b \<noteq> []
      then ret (Clarification (([35813, 26381, 21153, 19981, 22312, 24403, 21069, 36134, 21495, 21487, 26597, 35810,
      30340, 26469, 28304, 20013, 12290, 21487, 36873, 65306]) @ service_names b) (u ''scope-check''))
      else bnd (if configured (natural_mistral N)
                then bnd (model_plan O' N b) (\<lambda>(p, usage). ret (p, u ''mistral'', usage))
                else bnd (lift (rules N b)) (\<lambda>p. ret (p, u ''rules-no-model'', JNull))) (\<lambda>(p, m, usage).
           lift (settle N b p m usage)))"

section \<open>The endpoint\<close>

text \<open>\<^verbatim>\<open>worker/incident_worker/context_api.py\<close>: \<open>natural_query\<close>.\<close>

definition interpret_error :: "exn \<Rightarrow> exn" where
  "interpret_error e = (if is_value_error e then HTTPException 400 (u ''invalid_interpretation'')
     else HTTPException 502 (u ''mistral_unavailable''))"

definition natural_query :: "outside \<Rightarrow> natural_env \<Rightarrow> str \<Rightarrow> NaturalRequest \<Rightarrow> str \<Rightarrow> json W" where
  "natural_query O' N key b x_worker_key =
     (if x_worker_key \<noteq> key then raise (HTTPException 401 (u ''service_identity_required''))
      else catch (bnd (interpret_text O' N b) (\<lambda>r. ret (outcome_json N r))) (\<lambda>e. raise (interpret_error e)))"

section \<open>Laws\<close>

lemma bounded_interval_True:
  "bounded_interval a e = Inr True \<longleftrightarrow> (\<exists>s f d. a = Some s \<and> e = Some f \<and> tz s \<noteq> None \<and> tz f \<noteq> None
     \<and> dt_key f s = Inr d \<and> 0 \<le> d \<and> d \<le> 7 * day_micros)"
proof (cases "a = None \<or> e = None")
  case False
  then obtain s f where ae: "a = Some s" "e = Some f" by auto
  show ?thesis
    unfolding ae by (cases "dt_key f s"; cases "tz s"; cases "tz f")
      (auto simp: bounded_interval_def dt_less_def not_less)
qed (auto simp: bounded_interval_def split: option.splits)

lemma concrete_query_terms:
  "length (terms (concrete_query N b q)) \<le> 6
    \<and> (identifiers (nr_text b) \<noteq> [] \<longrightarrow> terms (concrete_query N b q) = take 6 (uniq (identifiers (nr_text b)))
         \<and> mode (concrete_query N b q) = Search)"
  by (simp add: concrete_query_def Let_def)

lemma concrete_time_query:
  "concrete_time N b p = Inr (Some q) \<Longrightarrow> i_query q = i_query p \<and> i_service q = i_service p
    \<and> (\<forall>c. search time_pattern (nr_text b) \<and> rules N b = Inr c \<and> i_clarification c = None
         \<longrightarrow> i_start q = i_start c \<and> i_end q = i_end c)"
  by (auto simp: concrete_time_def split: if_splits sum.splits)

lemma settle_Ready:
  assumes "settle N b p0 m usage = Inr (Ready p m' usage')"
  shows "i_service p \<in> Some ` so_id ` set (nr_services b) \<and> bounded_interval (i_start p) (i_end p) = Inr True
    \<and> concrete_time N b (p0\<lparr>i_query := concrete_query N b (i_query p0)\<rparr>) = Inr (Some p)"
proof -
  let ?p1 = "p0\<lparr>i_query := concrete_query N b (i_query p0)\<rparr>"
  from assms obtain q where q: "concrete_time N b ?p1 = Inr (Some q)"
    and rest: "(case i_clarification q of Some (c # cs) \<Rightarrow> Inr (Clarification (c # cs) m)
       | _ \<Rightarrow> if i_service q \<notin> Some ` so_id ` set (nr_services b)
         then Inl (ValueError (u ''planner_service_outside_scope''))
         else rbind (bounded_interval (i_start q) (i_end q)) (\<lambda>ok.
           if \<not> ok then Inr (Clarification ([35831, 32473, 20986, 26126, 30830, 30340, 36215, 27490, 26102, 38388, 65292, 19988,
      21333, 27425, 33539, 22260, 19981, 36229, 36807] @ u ''7'' @ [22825, 12290]) m)
           else Inr (Ready q m usage))) = Inr (Ready p m' usage')"
    unfolding settle_def rbind_eq_Inr by (elim exE conjE) (auto split: option.splits)
  have "i_service q \<in> Some ` so_id ` set (nr_services b) \<and> bounded_interval (i_start q) (i_end q) = Inr True \<and> q = p"
    using rest by (cases "i_clarification q"; cases "the (i_clarification q)")
      (auto simp: rbind_eq_Inr split: if_splits)
  with q show ?thesis by blast
qed

lemma interpret_Ready:
  assumes "interpret_text O' N b s = (Inr (Ready p m usage), t)"
  obtains p0 m0 usage0 where "settle N b p0 m0 usage0 = Inr (Ready p m usage)" "foreign_names N b = []"
  using assms unfolding interpret_text_def by (auto simp: run_Inr split: if_splits prod.splits)

lemma interpreted:
  assumes "interpret_text O' N b s = (Inr (Ready p m usage), t)"
  shows "foreign_names N b = [] \<and> i_service p \<in> Some ` so_id ` set (nr_services b)
    \<and> bounded_interval (i_start p) (i_end p) = Inr True \<and> length (terms (i_query p)) \<le> 6
    \<and> (identifiers (nr_text b) \<noteq> [] \<longrightarrow> terms (i_query p) = take 6 (uniq (identifiers (nr_text b)))
         \<and> mode (i_query p) = Search)
    \<and> (\<forall>c. search time_pattern (nr_text b) \<and> rules N b = Inr c \<and> i_clarification c = None
         \<longrightarrow> i_start p = i_start c \<and> i_end p = i_end c)"
proof -
  from assms obtain p0 m0 usage0 where s: "settle N b p0 m0 usage0 = Inr (Ready p m usage)"
    and f: "foreign_names N b = []" by (rule interpret_Ready)
  from settle_Ready[OF s] have "i_query p = concrete_query N b (i_query p0)"
    by (auto dest!: concrete_time_query)
  then show ?thesis
    using settle_Ready[OF s] f concrete_query_terms[of N b "i_query p0"] by (auto dest: concrete_time_query)
qed

section \<open>Properties\<close>

text \<open>
  C31: A plan that is ready to run, whoever made it, stays inside what the caller may ask: one of the
  caller's services and no other service is named in the question; both ends of the interval are
  given, aware of their zone, in order and at most seven days apart; at most six terms. Block ids and
  quoted text of the question are the search, and where the question itself gives a time, the rules'
  reading of it stands; a model can change neither.
\<close>

theorem natural_plan_bounded:
  assumes "interpret_text O' N b s = (Inr (Ready p m usage), t)"
  shows "foreign_names N b = [] \<and> i_service p \<in> Some ` so_id ` set (nr_services b)
    \<and> (\<exists>a e d. i_start p = Some a \<and> i_end p = Some e \<and> tz a \<noteq> None \<and> tz e \<noteq> None
         \<and> dt_key e a = Inr d \<and> 0 \<le> d \<and> d \<le> 7 * day_micros)
    \<and> length (terms (i_query p)) \<le> 6
    \<and> (identifiers (nr_text b) \<noteq> [] \<longrightarrow> terms (i_query p) = take 6 (uniq (identifiers (nr_text b)))
         \<and> mode (i_query p) = Search)
    \<and> (\<forall>c. search time_pattern (nr_text b) \<and> rules N b = Inr c \<and> i_clarification c = None
         \<longrightarrow> i_start p = i_start c \<and> i_end p = i_end c)"
  using interpreted[OF assms] unfolding bounded_interval_True by blast

text \<open>A question about one service on the 1st of May, with a block id.\<close>

definition sample_service :: ServiceOption where
  "sample_service = \<lparr>so_id = u ''svc-17'', so_name = u ''orders'', so_aliases = [], so_from = None, so_to = None,
     so_provenance = u ''local-demo''\<rparr>"

definition sample_natural :: natural_env where
  "sample_natural = \<lparr>zone_known = (\<lambda>_. True), zone_at = (\<lambda>_ _. (0, False)), zone_offset = (\<lambda>_ _ _. 0),
     system_utc = id, fromiso = (\<lambda>_. Inl bad_date), parse_datetime = (\<lambda>_. Inl ValidationError),
     lower_text = map ascii_lower, upper_text = map ascii_upper, casefold = map ascii_lower,
     word_chars = id_char, dt_json = (\<lambda>_. JNull), request_json = (\<lambda>_. []), plan_schema = JNull,
     natural_mistral = sample_mistral\<lparr>mistral_api_key := []\<rparr>\<rparr>"

definition sample_question :: NaturalRequest where
  "sample_question = \<lparr>nr_text = u ''blk_7 of svc-17 on 2026-05-01'', nr_timezone = u ''UTC'',
     nr_now = \<lparr>wall = 739000 * day_micros, tz = Some (Fixed 0), utcoffset = 0\<rparr>, nr_services = [sample_service]\<rparr>"

definition ready :: "outcome res \<Rightarrow> bool" where
  "ready r = (case r of Inr (Ready _ _ _) \<Rightarrow> True | _ \<Rightarrow> False)"

lemma sample_ready: "ready (fst (interpret_text sample_outside sample_natural sample_question sample_state))"
  by code_simp

lemma sample_identifiers: "identifiers (nr_text sample_question) = [u ''blk_7'']"
  by code_simp

theorem natural_plan_bounded_witness:
  "\<exists>p m usage t. interpret_text sample_outside sample_natural sample_question sample_state = (Inr (Ready p m usage), t)
     \<and> terms (i_query p) = [u ''blk_7'']"
proof -
  obtain p m usage t where run: "interpret_text sample_outside sample_natural sample_question sample_state
      = (Inr (Ready p m usage), t)"
    using sample_ready
    by (cases "interpret_text sample_outside sample_natural sample_question sample_state")
      (auto simp: ready_def split: sum.splits outcome.splits)
  have "take 6 (uniq [u ''blk_7'']) = [u ''blk_7'']" by code_simp
  then show ?thesis
    using natural_plan_bounded[OF run] run unfolding sample_identifiers by auto
qed

end
