(* ===== verification/Harness.thy ===== *)
theory Harness
  imports Mistral Cache
begin

text \<open>
  \<^verbatim>\<open>worker/incident_worker/harness.py\<close>: the node that gathers the context, and the deep agent with its
  middleware and tools. The agent loop itself is deepagents' code: a parameter that calls the model and
  the tools only through the wrapped handlers it is given, in any way it likes.
\<close>

section \<open>The graph\<close>

text \<open>What a worker keeps between tasks: the cache and, in a later theory, artifacts and checkpoints.\<close>

record harness_env =
  h_assembly :: assembly_env
  h_iso :: "QueryPlan \<Rightarrow> str \<times> str"
  h_show_time :: "datetime \<Rightarrow> str"
  h_db_now :: "effect list \<Rightarrow> rat"
  h_float :: "str \<Rightarrow> str"
  h_model_name :: "str option"
  h_model_key :: "str option"
  h_count_tokens :: "str \<Rightarrow> nat"
  h_plan_of :: "json \<Rightarrow> QueryPlan res"

definition gather :: "outside \<Rightarrow> harness_env \<Rightarrow> rt \<Rightarrow> (wstate \<times> cache_db, json) M" where
  "gather O' H r =
     bnd (bnd (gets (\<lambda>s. h_db_now H (trace (fst s)))) (cache_get O' (h_show_time H) r)) (\<lambda>cached.
     bnd (case cached of
        Some (b, recs) \<Rightarrow>
          bnd (inner (authorize O' r (u ''memory''))) (\<lambda>m.
          bnd (lift (jget_def m (u ''memories'') (JList []))) (\<lambda>ms.
          sq (inner (event O' r (u ''cache_hit'')
                (JObj [(u ''scope'', JStr (u ''reauthorized'')), (u ''version'', JStr (u ''1''))])))
             (ret (b\<lparr>memories := ms\<rparr>, recs))))
      | None \<Rightarrow>
          bnd (inner (assemble O' (h_assembly H) (live_ops O' r) None None)) (\<lambda>(b, recs).
          bnd (gets (\<lambda>s. h_db_now H (trace (fst s)))) (\<lambda>now.
          sq (cache_put O' (h_show_time H) r now b recs) (ret (b, recs))))) (\<lambda>(b, recs).
     bnd (lift (report O' (h_iso H) b)) (\<lambda>rep.
     ret (JObj [(u ''report'', rep), (u ''recording'', JObj recs),
        (u ''source_version'', JInt (source_version (rt_run r)))]))))"

section \<open>The deep agent\<close>

text \<open>A message of the conversation: its content and the usage its provider reported.\<close>

record agent_message =
  am_content :: json
  am_usage :: json

text \<open>The ledger \<open>used_tokens\<close> is a variable of the closure: part of the state of one agent run.\<close>

type_synonym 'a D = "(wstate \<times> int, 'a) M"

definition as_number :: "json \<Rightarrow> int res" where
  "as_number j = (case j of JInt n \<Rightarrow> Inr n | JBool b \<Rightarrow> Inr (if b then 1 else 0) | _ \<Rightarrow> Inl TypeError)"

text \<open>\<open>(usage or {}).get("total_tokens", 0)\<close>.\<close>

definition usage_tokens :: "json \<Rightarrow> int res" where
  "usage_tokens us = rbind (jget_def (if truthy us then us else JObj []) (u ''total_tokens'') (JInt 0)) as_number"

definition sum_tokens :: "agent_message list \<Rightarrow> int res" where
  "sum_tokens ms = rbind (rmap (\<lambda>m. usage_tokens (am_usage m)) ms) (\<lambda>ns. Inr (sum_list ns))"

definition prompt_text :: "outside \<Rightarrow> agent_message list \<Rightarrow> json option \<Rightarrow> str" where
  "prompt_text O' ms system = join [10] (map (\<lambda>m. py_str O' (am_content m)) ms)
     @ (case system of None \<Rightarrow> [] | Some t \<Rightarrow> py_str O' t)"

text \<open>Output is reserved before a call is dispatched; a response without usage costs its estimate.\<close>

definition token_estimate :: "outside \<Rightarrow> harness_env \<Rightarrow> agent_message list \<Rightarrow> json option \<Rightarrow> int" where
  "token_estimate O' H ms system = int (h_count_tokens H (prompt_text O' ms system)) + 1000"

definition token_budget_call ::
    "outside \<Rightarrow> harness_env \<Rightarrow> rt \<Rightarrow> (agent_message list \<Rightarrow> json option \<Rightarrow> agent_message list W) \<Rightarrow>
     agent_message list \<Rightarrow> json option \<Rightarrow> agent_message list D" where
  "token_budget_call O' H r handler ms system =
     bnd (gets snd) (\<lambda>used.
     if used + token_estimate O' H ms system > tokens (budget (rt_run r))
     then raise (RuntimeError (u ''model_token_budget_before_call''))
     else bnd (inner (handler ms system)) (\<lambda>resp.
          bnd (lift (sum_tokens resp)) (\<lambda>known.
          sq (modify (\<lambda>(w, n). (w, n + (if known \<noteq> 0 then known else token_estimate O' H ms system))))
             (ret resp))))"

definition allowed_tools :: "str list" where
  "allowed_tools = map u [''read_context'', ''query_context'', ''write_todos'', ''read_file'', ''write_file'',
     ''edit_file'', ''ls'', ''glob'', ''grep'']"

definition query_context :: "outside \<Rightarrow> harness_env \<Rightarrow> rt \<Rightarrow> json \<Rightarrow> json W" where
  "query_context O' H r p =
     bnd (lift (h_plan_of H p)) (\<lambda>candidate.
     bnd (assemble O' (h_assembly H) (live_ops O' r) (Some candidate) None) (\<lambda>(extra, _).
     ret (JStr (model_json O' (bundle_json (h_iso H) extra)))))"

definition read_context :: "outside \<Rightarrow> harness_env \<Rightarrow> rt \<Rightarrow> ContextBundle \<Rightarrow> json W" where
  "read_context O' H r b = sq (authorize O' r (u ''context'')) (ret (JStr (model_json O' (bundle_json (h_iso H) b))))"

text \<open>A tool the policy does not list is answered without being run.\<close>

definition bounded_tools ::
    "outside \<Rightarrow> harness_env \<Rightarrow> rt \<Rightarrow> ContextBundle \<Rightarrow> (str \<Rightarrow> json \<Rightarrow> json W) \<Rightarrow> str \<Rightarrow> json \<Rightarrow> json W" where
  "bounded_tools O' H r b own_tool name args =
     (if name \<notin> set allowed_tools then ret (JStr (u ''Tool denied by application policy''))
      else if name = u ''query_context'' then bnd (lift (jget args (u ''plan''))) (query_context O' H r)
      else if name = u ''read_context'' then read_context O' H r b
      else own_tool name args)"

text \<open>
  The agent: given the two wrapped handlers and the symptom it returns the messages of its run. The
  handler of the model and the agent's own tools are the provider's and deepagents'.
\<close>

record agent_env =
  ag_run :: "(agent_message list \<Rightarrow> json option \<Rightarrow> agent_message list D) \<Rightarrow> (str \<Rightarrow> json \<Rightarrow> json D) \<Rightarrow> str \<Rightarrow>
     agent_message list D"
  ag_model :: "agent_message list \<Rightarrow> json option \<Rightarrow> agent_message list W"
  ag_tool :: "str \<Rightarrow> json \<Rightarrow> json W"

definition run_agent :: "outside \<Rightarrow> harness_env \<Rightarrow> agent_env \<Rightarrow> rt \<Rightarrow> ContextBundle \<Rightarrow> agent_message list W" where
  "run_agent O' H A r b =
     (\<lambda>w. case ag_run A (token_budget_call O' H r (ag_model A)) (\<lambda>n a. inner (bounded_tools O' H r b (ag_tool A) n a))
        (symptom (rt_run r)) (w, 0) of (x, (w', _)) \<Rightarrow> (x, w'))"

section \<open>The report of the deep agent\<close>

definition deep_usage :: "harness_env \<Rightarrow> json list \<Rightarrow> int \<Rightarrow> json" where
  "deep_usage H usage spent = JObj
     [(u ''model'', JStr (case h_model_name H of None \<Rightarrow> u ''test-model'' | Some m \<Rightarrow> m)),
      (u ''tokens'', if usage \<noteq> [] then JInt spent else JNull),
      (u ''calls'', JInt (int (length usage))), (u ''cost_usd'', JNull)]"

definition removeprefix :: "str \<Rightarrow> str \<Rightarrow> str" where
  "removeprefix p t = (if startswith t p then drop (length p) t else t)"

definition removesuffix :: "str \<Rightarrow> str \<Rightarrow> str" where
  "removesuffix p t = (if p \<noteq> [] \<and> startswith (rev t) (rev p) then take (length t - length p) t else t)"

definition answer_text :: "agent_message list \<Rightarrow> str res" where
  "answer_text ms = (if ms = [] then Inl IndexError else case am_content (last ms) of
     JStr t \<Rightarrow> Inr (strip (removesuffix (u ''```'') (removeprefix (u ''```json'') t)))
   | _ \<Rightarrow> Inl (ValueError (u ''unsupported_model_output'')))"

definition ungrounded :: exn where
  "ungrounded = ValueError (u ''ungrounded_model_claim'')"

text \<open>\<open>c.get("evidence")\<close> is not empty and \<open>set(c["evidence"]) <= ids\<close>.\<close>

definition check_claim :: "str list \<Rightarrow> json \<Rightarrow> unit res" where
  "check_claim ids c = rbind (jget_opt c (u ''evidence'')) (\<lambda>ev.
     if \<not> truthy ev then Inl ungrounded
     else rbind (as_list ev) (\<lambda>xs.
       if \<not> list_all hashable xs then Inl TypeError
       else if set xs \<subseteq> JStr ` set ids then Inr () else Inl ungrounded))"

definition check_claims :: "str list \<Rightarrow> json \<Rightarrow> unit res" where
  "check_claims ids j = rbind (rbind (jget_def j (u ''candidates'') (JList [])) as_list) (\<lambda>cs.
     rbind (rmap (check_claim ids) cs) (\<lambda>_. Inr ()))"

definition deep_fields :: "json \<Rightarrow> (str \<times> json) list res" where
  "deep_fields j = rbind (jget j (u ''candidates'')) (\<lambda>cs. rbind (jget j (u ''next_steps'')) (\<lambda>ns.
     Inr [(u ''candidates'', cs), (u ''next_steps'', ns), (u ''mode'', JStr (u ''deepagents''))]))"

definition deep_report :: "outside \<Rightarrow> harness_env \<Rightarrow> agent_env \<Rightarrow> rt \<Rightarrow> ContextBundle \<Rightarrow> json W" where
  "deep_report O' H A r b =
     sq (guard_M (h_model_name H \<noteq> None) (KeyError (u ''MODEL_NAME'')))
     (sq (guard_M (h_model_key H \<noteq> None) (KeyError (u ''MODEL_API_KEY'')))
     (bnd (run_agent O' H A r b) (\<lambda>ms.
      let usage = filter truthy (map am_usage ms) in
      bnd (lift (sum_tokens ms)) (\<lambda>spent.
      sq (event O' r (u ''model_usage'') (deep_usage H usage spent))
      (sq (guard_M (spent \<le> tokens (budget (rt_run r))) (RuntimeError (u ''model_token_budget'')))
      (bnd (lift (rbind (answer_text ms) (loads (h_float H)))) (\<lambda>j.
       sq (lift (check_claims (map ev_id (evidence b)) j))
       (bnd (lift (report O' (h_iso H) b)) (\<lambda>final.
        lift (rbind (deep_fields j) (jupdate final)))))))))))"

section \<open>Laws\<close>

text \<open>Whatever the agent does, a published candidate cites evidence of the bundle, and at least one.\<close>

definition candidates_cited :: "json \<Rightarrow> str set \<Rightarrow> bool" where
  "candidates_cited j ids \<longleftrightarrow> (\<exists>cs v. jget j (u ''candidates'') = Inr v \<and> as_list v = Inr cs
     \<and> (\<forall>c \<in> set cs. \<exists>ev xs. jget c (u ''evidence'') = Inr ev \<and> as_list ev = Inr xs \<and> xs \<noteq> []
          \<and> set xs \<subseteq> JStr ` ids))"

lemma as_list_truthy: "as_list v = Inr xs \<Longrightarrow> truthy v \<longleftrightarrow> xs \<noteq> []"
  by (cases v) auto

lemma jget_opt_truthy: "jget_opt c k = Inr v \<Longrightarrow> truthy v \<Longrightarrow> jget c k = Inr v"
  by (cases c) (auto simp: jget_opt_def dict_get_def split: option.splits)

lemma check_claim_ok:
  assumes "check_claim ids c = Inr ()"
  shows "\<exists>ev xs. jget c (u ''evidence'') = Inr ev \<and> as_list ev = Inr xs \<and> xs \<noteq> [] \<and> set xs \<subseteq> JStr ` set ids"
proof -
  obtain ev xs where "jget_opt c (u ''evidence'') = Inr ev" "truthy ev" "as_list ev = Inr xs"
    "set xs \<subseteq> JStr ` set ids"
    using assms by (auto simp: check_claim_def rbind_eq_Inr split: if_splits)
  then show ?thesis using jget_opt_truthy as_list_truthy by blast
qed

lemma jget_jget_def: "jget j k = Inr v \<Longrightarrow> jget_def j k z = Inr v"
  by (cases j) (auto simp: dict_get_def split: option.splits)

lemma check_claims_ok:
  assumes "check_claims ids j = Inr ()" and "jget j (u ''candidates'') = Inr v"
  shows "\<exists>cs. as_list v = Inr cs \<and> (\<forall>c \<in> set cs. check_claim ids c = Inr ())"
  using assms rmap_unit[of "check_claim ids"]
  by (auto simp: check_claims_def rbind_eq_Inr jget_jget_def)

lemma deep_fields_candidates:
  assumes "deep_fields j = Inr kvs" and "jupdate final kvs = Inr j'"
  shows "jget j' (u ''candidates'') = jget j (u ''candidates'')"
proof -
  obtain cs ns where c: "jget j (u ''candidates'') = Inr cs"
    and k: "kvs = [(u ''candidates'', cs), (u ''next_steps'', ns), (u ''mode'', JStr (u ''deepagents''))]"
    using assms(1) by (auto simp: deep_fields_def rbind_eq_Inr)
  have "jget j' (u ''candidates'') = Inr cs"
    by (rule jget_jupdate[OF assms(2)]) (simp add: k u_def)
  with c show ?thesis by simp
qed

lemma deep_report_cited:
  assumes "deep_report O' H A r b s = (Inr j, t)"
  shows "candidates_cited j (ev_id ` set (evidence b))"
proof -
  from assms obtain v kvs final where v: "check_claims (map ev_id (evidence b)) v = Inr ()"
    and f: "deep_fields v = Inr kvs" "jupdate final kvs = Inr j"
    unfolding deep_report_def Let_def by (auto simp: run_Inr rbind_eq_Inr)
  obtain cs where cs: "jget v (u ''candidates'') = Inr cs"
    using f(1) by (auto simp: deep_fields_def rbind_eq_Inr)
  obtain xs where "as_list cs = Inr xs" "\<forall>c \<in> set xs. check_claim (map ev_id (evidence b)) c = Inr ()"
    using check_claims_ok[OF v cs] by blast
  moreover have "jget j (u ''candidates'') = Inr cs" using deep_fields_candidates[OF f] cs by simp
  ultimately show ?thesis
    unfolding candidates_cited_def using check_claim_ok[of "map ev_id (evidence b)"] by force
qed

text \<open>The ledger: a call is dispatched only within the budget, and none is free.\<close>

lemma token_budget_dispatch:
  assumes "token_budget_call O' H r handler ms system (w, used) = (Inr resp, (w', used'))"
  shows "used + token_estimate O' H ms system \<le> tokens (budget (rt_run r)) \<and> used' \<noteq> used"
  using assms by (auto simp: token_budget_call_def run_Inr inner_def token_estimate_def split: if_splits prod.splits)

end
