(* ===== verification/Worker.thy ===== *)
theory Worker
  imports Harness Artifacts Gateway
begin

text \<open>
  \<^verbatim>\<open>worker/incident_worker/main.py\<close>: one claimed task from its checkpoint to its report, and the
  loop that claims tasks. LangGraph's checkpointer is a record of its operations over its own state
  \<open>'k\<close>; the environment variables, the time of the database and the moment the lease is lost are
  functions of what happened before.
\<close>

section \<open>The environment\<close>

text \<open>
  \<open>sv_tuple\<close>: the channel values of a thread's last checkpoint; \<open>sv_copy\<close> puts them under another
  thread; \<open>sv_values\<close> the values \<open>get_state\<close> shows; \<open>sv_resume\<close> what a finished thread returns;
  \<open>sv_begin\<close> and \<open>sv_finish\<close> what is saved around the node and the values returned with its update.
\<close>

record 'k saver =
  sv_tuple :: "'k \<Rightarrow> str \<Rightarrow> json option res"
  sv_copy :: "str \<Rightarrow> str \<Rightarrow> str \<Rightarrow> 'k \<Rightarrow> 'k"
  sv_values :: "'k \<Rightarrow> str \<Rightarrow> json"
  sv_resume :: "'k \<Rightarrow> str \<Rightarrow> json res"
  sv_begin :: "str \<Rightarrow> 'k \<Rightarrow> 'k"
  sv_finish :: "str \<Rightarrow> json \<Rightarrow> 'k \<Rightarrow> 'k"

record 'k worker_env =
  w_harness :: "str option"
  w_before :: "rat res"
  w_delay :: "rat res"
  w_sandbox :: bool
  w_mcp :: bool
  w_s3 :: bool
  w_code :: str
  w_saver :: "'k saver"
  w_connect :: "effect list \<Rightarrow> unit res"
  w_lost :: "effect list \<Rightarrow> bool"
  w_uuid :: "effect list \<Rightarrow> str"
  w_bundle_of :: "json \<Rightarrow> ContextBundle res"
  w_fault :: "effect list \<Rightarrow> exn option"
  w_now :: "effect list \<Rightarrow> rat"
  w_server :: mcp
  w_gather :: harness_env
  w_agent :: agent_env
  w_mistral :: mistral_env

record 'k durable =
  d_cache :: cache_db
  d_store :: Artifacts.store
  d_saver :: 'k

type_synonym ('k, 'a) P = "(wstate \<times> 'k durable, 'a) M"

definition on_cache :: "(wstate \<times> cache_db, 'a) M \<Rightarrow> ('k, 'a) P" where
  "on_cache m = (\<lambda>(w, d). case m (w, d_cache d) of (x, (w', c)) \<Rightarrow> (x, (w', d\<lparr>d_cache := c\<rparr>)))"

definition on_store :: "'a S \<Rightarrow> ('k, 'a) P" where
  "on_store m = (\<lambda>(w, d). case m (w, d_store d) of (x, (w', c)) \<Rightarrow> (x, (w', d\<lparr>d_store := c\<rparr>)))"

definition on_saver :: "('k \<Rightarrow> 'k) \<Rightarrow> ('k, unit) P" where
  "on_saver f = modify (\<lambda>(w, d). (w, d\<lparr>d_saver := f (d_saver d)\<rparr>))"

definition from_saver :: "('k \<Rightarrow> 'a) \<Rightarrow> ('k, 'a) P" where
  "from_saver f = gets (\<lambda>(w, d). f (d_saver d))"

definition so_far :: "(effect list \<Rightarrow> 'a) \<Rightarrow> ('k, 'a) P" where
  "so_far f = gets (\<lambda>(w, d). f (trace w))"

section \<open>manifest and report_status\<close>

text \<open>The model named by the result, else the one of the harness.\<close>

definition manifest_model :: "'k worker_env \<Rightarrow> json \<Rightarrow> json" where
  "manifest_model E m = (if truthy m then m
     else JStr (if w_harness E = Some (u ''deepagents'')
       then (case h_model_name (w_gather E) of None \<Rightarrow> u ''unknown'' | Some n \<Rightarrow> n)
       else u ''none-deterministic''))"

definition manifest :: "'k worker_env \<Rightarrow> RunContext \<Rightarrow> json \<Rightarrow> json \<Rightarrow> json res" where
  "manifest E rc recording res =
     rbind (jget_def (if truthy res then res else JObj []) (u ''model'') (JObj [])) (\<lambda>model.
     rbind (jget_opt model (u ''model'')) (\<lambda>name.
     rbind (jget_def model (u ''usage'') (JObj [])) (\<lambda>usage.
     rbind (jget_opt usage (u ''total_tokens'')) (\<lambda>spent. Inr (JObj
       [(u ''version'', JStr (u ''1'')), (u ''code'', JStr (w_code E)), (u ''model'', manifest_model E name),
        (u ''model_parameters'', JObj [(u ''temperature'',
           if w_harness E = Some (u ''mistral'') then JInt 0 else JStr (u ''provider-default''))]),
        (u ''prompt'', JStr (u ''investigate-v1'')),
        (u ''skills'', strs [u ''release-compare@1'', u ''log-analysis@1'']),
        (u ''tool_schema'', JStr (u ''1'')), (u ''ontology'', JStr (u ''1'')),
        (u ''source_mapping'', JStr (u ''2'')), (u ''retrieval'', JStr (u ''indexed-stratified-3-pages-v2'')),
        (u ''permission_policy'', JStr (u ''go-v1'')), (u ''snapshots'', recording),
        (u ''evaluator'', JStr (u ''rules-v1'')),
        (u ''cost'', JObj [(u ''known_model_tokens'', spent), (u ''estimated_usd'', JNull),
           (u ''unknown'', JStr (u ''USD cost not calculated; interpretation usage is in queued event''))]),
        (u ''generation'', JInt (generation rc))])))))"

text \<open>The evidence records of a report, each with its source.\<close>

definition sourced :: "json \<Rightarrow> (json \<times> json) list res" where
  "sourced res = rbind (rbind (jget res (u ''evidence'')) as_list)
     (rmap (\<lambda>e. rbind (jget e (u ''source'')) (\<lambda>s. Inr (s, e))))"

definition report_status :: "json \<Rightarrow> str res" where
  "report_status res =
     rbind (sourced res) (\<lambda>es.
     rbind (rmap (\<lambda>(_, e). jget e (u ''id'')) es) (\<lambda>known.
     rbind (rbind (jget_def res (u ''answer_evidence'') (JList [])) as_list) (\<lambda>cited.
     if \<not> list_all hashable (known @ cited) then Inl TypeError
     else if \<not> list_ex (\<lambda>(s, _). s = JStr (u ''logs'')) es \<and> set cited \<inter> set known = {}
     then Inr (u ''waiting_information'')
     else rbind (jget res (u ''missing'')) (\<lambda>m.
       Inr (if truthy m then u ''partial'' else u ''completed'')))))"

definition log_snippets :: "json \<Rightarrow> json list res" where
  "log_snippets res = rbind (sourced res) (\<lambda>es.
     rmap (\<lambda>(_, e). jget e (u ''snippet'')) (filter (\<lambda>(s, _). s = JStr (u ''logs'')) es))"

section \<open>The heartbeat\<close>

text \<open>\<open>n\<close> beats before the task is done; the result says whether the lease was lost.\<close>

fun heartbeat :: "outside \<Rightarrow> rt \<Rightarrow> nat \<Rightarrow> bool W" where
  "heartbeat O' r 0 = ret False"
| "heartbeat O' r (Suc n) = catch (sq (rt_call O' r (u ''heartbeat'') []) (heartbeat O' r n)) (\<lambda>_. ret True)"

section \<open>Recovery from the checkpoint of the generation before\<close>

definition thread_id :: "RunContext \<Rightarrow> int \<Rightarrow> str" where
  "thread_id rc g = run_id rc @ u '':g'' @ dec g"

definition recover :: "outside \<Rightarrow> 'k worker_env \<Rightarrow> rt \<Rightarrow> ('k, unit) P" where
  "recover O' E r =
     (let rc = rt_run r; sv = w_saver E; own = thread_id rc (generation rc);
          old = thread_id rc (generation rc - 1) in
      bnd (bnd (from_saver (\<lambda>k. sv_tuple sv k own)) lift) (\<lambda>checkpoint.
      if checkpoint \<noteq> None \<or> generation rc \<le> 1 \<or> attempt rc \<le> 1 then ret ()
      else bnd (bnd (from_saver (\<lambda>k. sv_tuple sv k old)) lift) (\<lambda>previous. case previous of
        None \<Rightarrow> ret ()
      | Some values \<Rightarrow>
          bnd (lift (jget_opt values (u ''report''))) (\<lambda>rep.
          if \<not> truthy rep then ret ()
          else sq (inner (authorize O' r (u ''context'')))
          (bnd (inner (rt_call O' r (u ''authorize'') [(u ''tool'', JStr (u ''context''))])) (\<lambda>sc.
           bnd (lift (jget sc (u ''watermark''))) (\<lambda>mark.
           bnd (lift (jget_opt values (u ''source_version''))) (\<lambda>v.
           if mark = JInt (source_version rc) \<and> v = mark
           then bnd (so_far (w_uuid E)) (\<lambda>i. on_saver (sv_copy sv old own i))
           else ret ()))))))))"

section \<open>The investigation\<close>

text \<open>\<open>g.invoke(None if current.values else {}, config)\<close>.\<close>

definition invoke_graph :: "outside \<Rightarrow> 'k worker_env \<Rightarrow> rt \<Rightarrow> ('k, json) P" where
  "invoke_graph O' E r =
     (let sv = w_saver E; own = thread_id (rt_run r) (generation (rt_run r)) in
      bnd (from_saver (\<lambda>k. sv_values sv k own)) (\<lambda>v.
      if truthy v then bnd (from_saver (\<lambda>k. sv_resume sv k own)) lift
      else sq (on_saver (sv_begin sv own))
        (bnd (on_cache (gather O' (w_gather E) r)) (\<lambda>out.
         sq (on_saver (sv_finish sv own out)) (ret out)))))"

definition compute :: "outside \<Rightarrow> 'k worker_env \<Rightarrow> rt \<Rightarrow> ('k, json \<times> json) P" where
  "compute O' E r =
     (let H = w_gather E in
      if w_harness E = Some (u ''baseline'')
      then bnd (inner (assemble O' (h_assembly H) (live_ops O' r) None None)) (\<lambda>(b, recs).
           bnd (lift (report O' (h_iso H) b)) (\<lambda>res. ret (res, JObj recs)))
      else bnd (invoke_graph O' E r) (\<lambda>out.
           bnd (lift (jget out (u ''report''))) (\<lambda>res.
           bnd (lift (jget out (u ''recording''))) (\<lambda>recs.
           let again = (\<lambda>k. bnd (lift (rbind (jget res (u ''context'')) (w_bundle_of E))) (\<lambda>b. inner (k b))) in
           bnd (if w_harness E = Some (u ''mistral'') then again (Mistral.investigate O' (w_mistral E) r)
                else if w_harness E = Some (u ''deepagents'') then again (deep_report O' H (w_agent E) r)
                else ret res) (\<lambda>res. ret (res, recs))))))"

text \<open>\<open>time.sleep(min(d, 120))\<close> when \<open>d\<close> is not zero.\<close>

definition pause :: "rat \<Rightarrow> unit W" where
  "pause d = (if d = 0 then ret () else if d < 0 then raise (ValueError (u ''sleep length must be non-negative''))
     else emit (Sleep (min d 120)))"

section \<open>What follows a report\<close>

definition analyse :: "outside \<Rightarrow> 'k worker_env \<Rightarrow> rt \<Rightarrow> json \<Rightarrow> json \<Rightarrow> ('k, unit) P" where
  "analyse O' E r res recording =
     sq (when_M (w_sandbox E)
       (bnd (lift (log_snippets res)) (\<lambda>logs.
        bnd (inner (rt_call O' r (u ''sandbox'') [(u ''records'', JList logs)])) (\<lambda>a.
        sq (inner (event O' r (u ''sandbox_analysis'') a)) (ret ())))))
    (sq (when_M (w_mcp E)
       (bnd (lift (log_snippets res)) (\<lambda>logs.
        bnd (inner (mcp_analyze O' (h_float (w_gather E)) r (w_server E) logs)) (\<lambda>a.
        sq (inner (event O' r (u ''mcp_analysis'') a)) (ret ())))))
       (when_M (w_s3 E)
       (bnd (so_far (\<lambda>t. (w_uuid E t, w_now E t, w_fault E t))) (\<lambda>(i, now, fault).
        bnd (on_store (art_put O' r i now fault recording)) (\<lambda>p.
        sq (inner (event O' r (u ''artifact_saved'') p)) (ret ()))))))"

text \<open>The lease is looked at last, then the result is sent with its manifest.\<close>

definition finish :: "outside \<Rightarrow> 'k worker_env \<Rightarrow> rt \<Rightarrow> json \<Rightarrow> json \<Rightarrow> ('k, str) P" where
  "finish O' E r res recording =
     bnd (so_far (w_lost E)) (\<lambda>lost.
     if lost then raise (RuntimeError (u ''lease_lost''))
     else bnd (lift (rbind (jget res (u ''mode'')) (\<lambda>m.
                 rbind (rbind (jget res (u ''facts'')) json_len) (\<lambda>n. Inr (m, n))))) (\<lambda>(m, n).
     sq (inner (hook O' r (u ''run_finished'') (JObj [(u ''mode'', m), (u ''facts'', JInt (int n))]) True))
     (bnd (lift (report_status res)) (\<lambda>status.
      bnd (lift (manifest E (rt_run r) recording res)) (\<lambda>mf.
      bnd (so_far (w_uuid E)) (\<lambda>i.
      sq (inner (result O' r i status res mf)) (ret status)))))))"

definition attempt_task :: "outside \<Rightarrow> 'k worker_env \<Rightarrow> rt \<Rightarrow> ('k, str) P" where
  "attempt_task O' E r =
     bnd (lift (w_before E)) (\<lambda>before.
     sq (inner (pause before))
     (sq (bnd (so_far (w_connect E)) lift)
     (sq (recover O' E r)
     (bnd (compute O' E r) (\<lambda>(res, recording).
      sq (inner (event O' r (u ''checkpoint_saved'') (JObj [(u ''generation'', JInt (generation (rt_run r)))])))
      (bnd (lift (w_delay E)) (\<lambda>delay.
      sq (inner (pause delay))
      (sq (analyse O' E r res recording)
          (finish O' E r res recording)))))))))"

section \<open>process\<close>

text \<open>What the log line says: the text of an own error whose kind is known, nothing of others.\<close>

fun exn_text :: "exn \<Rightarrow> str" where
  "exn_text (RuntimeError t) = t"
| "exn_text (ValueError t) = t"
| "exn_text _ = []"

definition known_reasons :: "str list" where
  "known_reasons = map u [''mistral_'', ''model_'', ''budget_'', ''lease_'', ''ungrounded_'']"

definition failure_reason :: "exn \<Rightarrow> str" where
  "failure_reason e = (if list_ex (startswith (exn_text e)) known_reasons then exn_text e else u ''redacted'')"

datatype ended = Finished str | Failed str str

text \<open>
  Each task has a \<open>Runtime\<close> of its own, so its call counter starts at zero. Every exception ends in
  the report of a failure, which may itself fail.
\<close>

definition start_runtime :: "outside \<Rightarrow> RunContext \<Rightarrow> rt W" where
  "start_runtime O' rc = bnd (monotonic O') (\<lambda>t.
     sq (modify (\<lambda>s. s\<lparr>calls := 0\<rparr>)) (ret \<lparr>rt_run = rc, started = t\<rparr>))"

definition report_failure :: "outside \<Rightarrow> rt \<Rightarrow> exn \<Rightarrow> ended W" where
  "report_failure O' r e =
     sq (catch (sq (rt_call O' r (u ''failure'') [(u ''kind'', JStr (class_name e))]) (ret ())) (\<lambda>_. ret ()))
        (ret (Failed (class_name e) (failure_reason e)))"

definition process :: "outside \<Rightarrow> 'k worker_env \<Rightarrow> RunContext \<Rightarrow> ('k, ended) P" where
  "process O' E rc =
     bnd (inner (start_runtime O' rc)) (\<lambda>r.
     catch (bnd (attempt_task O' E r) (\<lambda>status. ret (Finished status))) (\<lambda>e. inner (report_failure O' r e)))"

section \<open>The claim loop\<close>

text \<open>
  One turn of \<open>main\<close>: the futures that are done leave, and a task is claimed when a slot is free;
  a turn that claimed one goes on at once, any other waits.
\<close>

definition claim_body :: "str \<Rightarrow> json" where
  "claim_body own = JObj [(u ''owner'', JStr own)]"

definition claim :: "outside \<Rightarrow> str \<Rightarrow> json option W" where
  "claim O' own = catch (bnd (post_api O' (u ''/internal/v1/claim'') (claim_body own)) (\<lambda>resp. case resp of
       Status c \<Rightarrow> ret None
     | _ \<Rightarrow> bnd (json_of resp) (\<lambda>j. ret (Some j))))
     (\<lambda>e. if e = TransportError then ret None else raise e)"

definition main_turn :: "outside \<Rightarrow> str \<Rightarrow> nat \<Rightarrow> ('t \<Rightarrow> bool) \<Rightarrow> (json \<Rightarrow> 't) \<Rightarrow> 't list \<Rightarrow> 't list W" where
  "main_turn O' own slots finished submit pending =
     (let busy = filter (\<lambda>f. \<not> finished f) pending in
      if length busy < slots
      then bnd (claim O' own) (\<lambda>task. case task of
        Some j \<Rightarrow> ret (submit j # busy)
      | None \<Rightarrow> sq (emit (Sleep (3 / 10))) (ret busy))
      else sq (emit (Sleep (3 / 10))) (ret busy))"

section \<open>Laws\<close>

lemma rt_call_sent:
  "rt_call O' r op pl s = (x, t) \<Longrightarrow> ApiCall (call_url (rt_run r) op) (call_body (rt_run r) pl) \<in> set (trace t)"
  using rt_call_trace[of O' r op pl s] by simp

lemma result_sent:
  assumes "result O' r i status res mf s = (x, t)"
  shows "result_request r (result_body status res mf i) \<in> set (trace t)"
proof -
  let ?b = "result_body status res mf i"
  obtain y s' where c: "rt_call O' r (u ''result'') ?b s = (y, s')" by fastforce
  have sent: "result_request r ?b \<in> set (trace s')"
    using rt_call_sent[OF c] by (simp add: result_request_def)
  show ?thesis
  proof (cases "y = Inl TransportError")
    case True
    let ?m = "result_loop O' r ?b [1, 2]" and ?s = "s'\<lparr>trace := Sleep (1 / 5) # trace s'\<rparr>"
    have "?m ?s = (x, t)"
      using assms c True by (simp add: result_def result_loop.simps(2)[of _ _ _ 0] catch_def sq_def bnd_def
          emit_def modify_def)
    then have "trace_grows ?s t"
      using budget_result_loop[of r O' ?b "[1, 2]"] by (auto simp: grows_def budget_kept_def dest: spec[of _ ?s])
    then show ?thesis using sent extends_set by (fastforce simp: trace_grows_def)
  next
    case False
    then have "t = s'"
      using assms c by (auto simp: result_def result_loop.simps(2)[of _ _ _ 0] catch_def raise_def split: sum.splits)
    with sent show ?thesis by simp
  qed
qed

lemma inner_eq: "inner m (w, d) = (x, t) \<longleftrightarrow> (\<exists>w'. m w = (x, w') \<and> t = (w', d))"
  by (auto simp: inner_def split: prod.splits)

lemma finish_sent:
  assumes "finish O' E r res recording s = (Inr status, t)"
  shows "\<not> w_lost E (trace (fst s)) \<and> report_status res = Inr status
    \<and> (\<exists>mf i. manifest E (rt_run r) recording res = Inr mf
        \<and> result_request r (result_body status res mf i) \<in> set (trace (fst t)))"
proof (cases s)
  case (Pair w d)
  with assms obtain mf i x w1 w2 d2 where "\<not> w_lost E (trace w)" "report_status res = Inr status"
    "manifest E (rt_run r) recording res = Inr mf" "result O' r i status res mf w1 = (x, w2)" "t = (w2, d2)"
    unfolding finish_def by (auto simp: run_Inr so_far_def inner_eq split: if_splits)
  with Pair show ?thesis using result_sent by fastforce
qed

lemma attempt_finish:
  assumes "attempt_task O' E r s = (Inr status, t)"
  obtains res recording s' where "finish O' E r res recording s' = (Inr status, t)"
  using assms unfolding attempt_task_def by (auto simp: run_Inr split: prod.splits)

lemma report_failure_run:
  "\<exists>t. report_failure O' r e w = (Inr (Failed (class_name e) (failure_reason e)), t)
    \<and> ApiCall (call_url (rt_run r) (u ''failure'')) (call_body (rt_run r) [(u ''kind'', JStr (class_name e))])
        \<in> set (trace t)"
proof -
  obtain x t where c: "rt_call O' r (u ''failure'') [(u ''kind'', JStr (class_name e))] w = (x, t)" by fastforce
  then have "report_failure O' r e w = (Inr (Failed (class_name e) (failure_reason e)), t)"
    by (cases x) (simp_all add: report_failure_def catch_def sq_def bnd_def ret_def)
  then show ?thesis using rt_call_sent[OF c] by blast
qed

lemma start_runtime_run: "\<exists>w'. start_runtime O' rc w = (Inr \<lparr>rt_run = rc, started = clock O' (Monotonic # trace w)\<rparr>, w')"
  by (simp add: start_runtime_def monotonic_run bnd_def sq_def modify_def ret_def)

section \<open>Properties\<close>


end
