(* ===== verification/Task_Report.thy ===== *)
theory Task_Report
  imports Worker
begin

text \<open>
  From claim to report: what a worker sends to the API, through checkpoint, cache, assembly, model and
  report, cites only evidence the report itself carries.
\<close>

section \<open>The evidence a report carries\<close>

definition report_ids :: "json \<Rightarrow> json list res" where
  "report_ids res = rbind (rbind (jget res (u ''evidence'')) as_list) (rmap (\<lambda>e. jget e (u ''id'')))"

definition report_grounded :: "json \<Rightarrow> bool" where
  "report_grounded res \<longleftrightarrow> (\<exists>ids. report_ids res = Inr (map JStr ids) \<and> candidates_cited res (set ids))"

lemma report_ids_evidence:
  "jget res (u ''evidence'') = Inr (JList (map evidence_json es)) \<Longrightarrow> report_ids res = Inr (map JStr (map ev_id es))"
  by (simp add: report_ids_def rmap_Inr_iff list_all2_conv_all_nth evidence_json_def)

lemma report_evidence: "report O' tm b = Inr j \<Longrightarrow> jget j (u ''evidence'') = Inr (JList (map evidence_json (evidence b)))"
  by (auto simp: report_def rbind_eq_Inr split: option.splits)

lemma jget_jupdate_other:
  assumes "jupdate j kvs = Inr j'" "k \<notin> fst ` set kvs"
  shows "jget j' k = jget j k"
proof (cases j)
  case (JObj d)
  have "map_of (rev kvs) k = None" using assms(2) by (simp add: map_of_eq_None_iff)
  then show ?thesis using assms(1) by (auto simp: JObj map_of_fold_update)
qed (use assms in auto)

lemma grounded_by_bundle:
  assumes "jget res (u ''evidence'') = Inr (JList (map evidence_json (evidence b)))"
    and "candidates_cited res (ev_id ` set (evidence b))"
  shows "report_grounded res"
  unfolding report_grounded_def
  using report_ids_evidence[OF assms(1)] assms(2) by (intro exI[of _ "map ev_id (evidence b)"]) simp

section \<open>The three ways a report is made\<close>

lemma candidate_ids: "c \<in> set (candidates b) \<Longrightarrow> cand_evidence c \<noteq> [] \<and> set (cand_evidence c) \<subseteq> ev_id ` set (evidence b)"
  using candidates_from[of c b] by (auto simp: from_source_def dest!: snippet_matches_mem)

lemma baseline_grounded:
  assumes "report O' tm b = Inr j"
  shows "report_grounded j"
proof (rule grounded_by_bundle[OF report_evidence[OF assms]])
  have "\<exists>ev xs. jget (candidate_json c) (u ''evidence'') = Inr ev \<and> as_list ev = Inr xs \<and> xs \<noteq> []
      \<and> set xs \<subseteq> JStr ` (ev_id ` set (evidence b))" if "c \<in> set (candidates b)" for c
    using candidate_ids[OF that] by (auto simp: candidate_json_def strs_def)
  then show "candidates_cited j (ev_id ` set (evidence b))"
    unfolding candidates_cited_def using report_candidates[OF assms] by auto
qed

lemma cited_candidates: "cited j ids \<Longrightarrow> candidates_cited j ids"
  unfolding cited_def candidates_cited_def by (fastforce simp: strs_def)

lemma investigate_evidence:
  assumes "Mistral.investigate O' V r b s = (Inr j, t)"
  shows "jget j (u ''evidence'') = Inr (JList (map evidence_json (evidence b)))"
proof -
  from assms obtain usage n a s' where p: "publish O' V r b usage n a s' = (Inr j, t)"
    unfolding investigate_def Let_def by (auto simp: run_Inr split: if_splits prod.splits)
  then obtain res res1 where r: "report O' (iso_of V) b = Inr res" and u1: "jupdate res (answer_fields a usage n) = Inr res1"
    and j: "j = res1 \<or> (\<exists>fs. safe_fields O' (iso_of V) b = Inr fs \<and> jupdate res1 fs = Inr j)"
    unfolding publish_def by (auto simp: run_Inr rbind_eq_Inr split: if_splits)
  have e1: "jget res1 (u ''evidence'') = jget res (u ''evidence'')"
    by (rule jget_jupdate_other[OF u1]) (simp add: answer_fields_def)
  have "jget j (u ''evidence'') = jget res1 (u ''evidence'')" if "safe_fields O' (iso_of V) b = Inr fs" "jupdate res1 fs = Inr j" for fs
    by (rule jget_jupdate_other[OF that(2)]) (use that(1) in \<open>auto simp: safe_fields_def Let_def rbind_eq_Inr\<close>)
  with j e1 report_evidence[OF r] show ?thesis by auto
qed

lemma deep_evidence:
  assumes "deep_report O' H A r b s = (Inr j, t)"
  shows "jget j (u ''evidence'') = Inr (JList (map evidence_json (evidence b)))"
proof -
  from assms obtain final v kvs where r: "report O' (h_iso H) b = Inr final" and k: "deep_fields v = Inr kvs"
    and u': "jupdate final kvs = Inr j"
    unfolding deep_report_def Let_def by (auto simp: run_Inr rbind_eq_Inr)
  have "jget j (u ''evidence'') = jget final (u ''evidence'')"
    by (rule jget_jupdate_other[OF u']) (use k in \<open>auto simp: deep_fields_def rbind_eq_Inr\<close>)
  with report_evidence[OF r] show ?thesis by simp
qed

text \<open>The report is made anew from a validated bundle in these modes, whatever a checkpoint held.\<close>

definition own_report :: "'k worker_env \<Rightarrow> bool" where
  "own_report E \<longleftrightarrow> w_harness E \<in> Some ` {u ''baseline'', u ''mistral'', u ''deepagents''}"

lemma compute_grounded:
  assumes "compute O' E r s = (Inr (res, recs), t)" "own_report E"
  shows "report_grounded res"
proof -
  consider "w_harness E = Some (u ''baseline'')" | "w_harness E = Some (u ''mistral'')"
    | "w_harness E = Some (u ''deepagents'')" using assms(2) unfolding own_report_def by auto
  then show ?thesis
  proof cases
    case 1
    with assms(1) obtain b where "report O' (h_iso (w_gather E)) b = Inr res"
      unfolding compute_def Let_def by (auto simp: run_Inr split: prod.splits)
    then show ?thesis by (rule baseline_grounded)
  next
    case 2
    with assms(1) obtain b w w' where i: "Mistral.investigate O' (w_mistral E) r b w = (Inr res, w')"
      unfolding compute_def Let_def by (auto simp: run_Inr inner_run)
    show ?thesis
      by (rule grounded_by_bundle[OF investigate_evidence[OF i] cited_candidates[OF investigate_cited[OF i]]])
  next
    case 3
    with assms(1) obtain b w w' where i: "deep_report O' (w_gather E) (w_agent E) r b w = (Inr res, w')"
      unfolding compute_def Let_def by (auto simp: run_Inr inner_run)
    show ?thesis by (rule grounded_by_bundle[OF deep_evidence[OF i] deep_report_cited[OF i]])
  qed
qed

lemma attempt_reports:
  assumes "attempt_task O' E r s = (Inr status, t)"
  obtains res recs s1 s2 s3 where "compute O' E r s1 = (Inr (res, recs), s2)" "finish O' E r res recs s3 = (Inr status, t)"
  using assms unfolding attempt_task_def by (auto simp: run_Inr split: prod.splits)

lemma process_finished:
  assumes "process O' E rc s = (Inr (Finished status), t)"
  obtains r s1 where "rt_run r = rc" "attempt_task O' E r s1 = (Inr status, t)"
proof (cases s)
  case (Pair w d)
  let ?r = "\<lparr>rt_run = rc, started = clock O' (Monotonic # trace w)\<rparr>"
  obtain w' where "start_runtime O' rc w = (Inr ?r, w')" using start_runtime_run by blast
  with assms have p: "catch (bnd (attempt_task O' E ?r) (\<lambda>status. ret (Finished status)))
      (\<lambda>e. inner (report_failure O' ?r e)) (w', d) = (Inr (Finished status), t)"
    by (simp add: Pair process_def bnd_def inner_def)
  obtain x q where a: "attempt_task O' E ?r (w', d) = (x, q)" by (rule prod.exhaust)
  show ?thesis
  proof (cases x)
    case (Inr st)
    with p a have "st = status" "q = t" by (auto simp: catch_def bnd_def ret_def)
    with a Inr that[of ?r "(w', d)"] show ?thesis by simp
  next
    case (Inl e)
    with p a report_failure_run[of O' ?r e "fst q"] show ?thesis
      by (cases q) (auto simp: catch_def bnd_def inner_def)
  qed
qed

section \<open>Properties\<close>

text \<open>
  C1: Whatever the checkpoint, the cache, the sources and the model answered: when a task of a harness
  that makes its own report finishes, the report that was sent to the API lists its evidence, and each
  of its candidate causes cites at least one record of that list and nothing else.
\<close>

theorem task_report_grounded:
  assumes "process O' E rc s = (Inr (Finished status), t)" "own_report E"
  shows "\<exists>r res mf i. rt_run r = rc \<and> result_request r (result_body status res mf i) \<in> set (trace (fst t))
    \<and> report_status res = Inr status \<and> report_grounded res"
proof -
  from assms(1) obtain r s1 where r: "rt_run r = rc" and a: "attempt_task O' E r s1 = (Inr status, t)"
    by (rule process_finished)
  from a obtain res recs s2 s3 s4 where c: "compute O' E r s2 = (Inr (res, recs), s3)"
    and f: "finish O' E r res recs s4 = (Inr status, t)" by (rule attempt_reports)
  from finish_sent[OF f] compute_grounded[OF c assms(2)] r show ?thesis by blast
qed

text \<open>An example: the deep agent answers on a bundle the checkpoint already holds.\<close>

definition sample_agent_answer :: json where
  "sample_agent_answer = JObj [(u ''candidates'', JList [JObj [(u ''text'', JStr (u ''pool'')), (u ''evidence'', strs [u ''logs:1:ab''])]]),
     (u ''next_steps'', JList [])]"

definition sample_harness :: harness_env where
  "sample_harness = \<lparr>h_assembly = sample_env, h_iso = (\<lambda>_. ([], [])), h_show_time = (\<lambda>_. []), h_db_now = (\<lambda>_. 0),
     h_float = id, h_model_name = Some (u ''m''), h_model_key = Some (u ''k''), h_count_tokens = length,
     h_plan_of = (\<lambda>_. Inl ValidationError)\<rparr>"

definition sample_agent :: agent_env where
  "sample_agent = \<lparr>ag_run = (\<lambda>_ _ _. ret [\<lparr>am_content = JStr (dumps False sample_agent_answer), am_usage = JNull\<rparr>]),
     ag_model = (\<lambda>_ _. raise TransportError), ag_tool = (\<lambda>_ _. raise TransportError)\<rparr>"

definition sample_saver :: "unit saver" where
  "sample_saver = \<lparr>sv_tuple = (\<lambda>_ _. Inr (Some JNull)), sv_copy = (\<lambda>_ _ _ k. k), sv_values = (\<lambda>_ _. JBool True),
     sv_resume = (\<lambda>_ _. Inr (JObj [(u ''report'', JObj [(u ''context'', JNull)]), (u ''recording'', JObj [])])),
     sv_begin = (\<lambda>_ k. k), sv_finish = (\<lambda>_ _ k. k)\<rparr>"

definition sample_worker :: "unit worker_env" where
  "sample_worker = \<lparr>w_harness = Some (u ''deepagents''), w_before = Inr 0, w_delay = Inr 0, w_sandbox = False, w_mcp = False,
     w_s3 = False, w_code = [], w_saver = sample_saver, w_connect = (\<lambda>_. Inr ()), w_lost = (\<lambda>_. False),
     w_uuid = (\<lambda>_. u ''id''), w_bundle_of = (\<lambda>_. Inr sample_case),
     w_fault = (\<lambda>_. None), w_now = (\<lambda>_. 0), w_server = \<lparr>mcp_names = [], mcp_schema = JNull, mcp_call = (\<lambda>_. McpTimeout)\<rparr>,
     w_gather = sample_harness, w_agent = sample_agent, w_mistral = sample_mistral\<rparr>"

definition sample_durable :: "unit durable" where
  "sample_durable = \<lparr>d_cache = \<lparr>cache_rows = [], index_rows = []\<rparr>, d_store = \<lparr>art_rows = [], objects_of = (\<lambda>_. None)\<rparr>, d_saver = ()\<rparr>"

definition sample_process :: "ended res \<times> (wstate \<times> unit durable)" where
  "sample_process = process sample_outside sample_worker sample_run (sample_state, sample_durable)"

lemma sample_finished: "case fst sample_process of Inr (Finished st) \<Rightarrow> st = u ''completed'' | _ \<Rightarrow> False"
  by code_simp

theorem task_report_grounded_witness:
  "\<exists>t r res mf i. process sample_outside sample_worker sample_run (sample_state, sample_durable) = (Inr (Finished (u ''completed'')), t)
    \<and> rt_run r = sample_run \<and> result_request r (result_body (u ''completed'') res mf i) \<in> set (trace (fst t))
    \<and> report_grounded res"
proof -
  obtain t where t: "process sample_outside sample_worker sample_run (sample_state, sample_durable) = (Inr (Finished (u ''completed'')), t)"
    using sample_finished unfolding sample_process_def
    by (cases "process sample_outside sample_worker sample_run (sample_state, sample_durable)") (auto split: sum.splits ended.splits)
  have "own_report sample_worker" by (simp add: own_report_def sample_worker_def)
  from task_report_grounded[OF t this] t show ?thesis by blast
qed

end
