(* ===== verification/Demo_Pool.thy ===== *)
theory Demo_Pool
  imports Json
begin

text \<open>
  \<^verbatim>\<open>demo/server.py\<close>, the handler \<open>business\<close>: requests that share one database slot, a semaphore of
  one permit, and the flag that says whether an injected fault holds it. The event loop runs one
  request at a time between its awaits; a step of the relation is such a run. \<open>asyncio\<close>'s semaphore
  hands a released permit to the first request that waits: the relation lets any of them have it.
\<close>

section \<open>The state\<close>

datatype fault = Healthy | Pool_exhaustion | Bad_config | Dependency_timeout | Release_error | Missing_logs | Other_fault

text \<open>The text in the table \<open>config\<close>.\<close>

definition fault_of :: "str \<Rightarrow> fault" where
  "fault_of t = dict_get [(u ''healthy'', Healthy), (u ''pool_exhaustion'', Pool_exhaustion), (u ''bad_config'', Bad_config),
     (u ''dependency_timeout'', Dependency_timeout), (u ''release_error'', Release_error), (u ''missing_logs'', Missing_logs)]
     t Other_fault"

text \<open>
  Where a request is: not begun; waiting for the permit it will keep (no timeout), or handed it;
  waiting for the permit of its own query, or handed it; calling the dependency; done. \<open>Broken\<close> is a
  request ended by an exception no clause catches.
\<close>

datatype phase =
    Begin fault
  | Hoarding
  | Hoard_granted
  | Waiting fault
  | Granted fault
  | Calling fault
  | Answered fault nat "str option" str
  | Broken fault

record pool =
  permits :: nat
  blocked :: bool
  requests :: "phase list"

definition new_pool :: "fault list \<Rightarrow> pool" where
  "new_pool fs = \<lparr>permits = 1, blocked = False, requests = map Begin fs\<rparr>"

definition waits :: "phase \<Rightarrow> bool" where
  "waits ph = (case ph of Hoarding \<Rightarrow> True | Waiting _ \<Rightarrow> True | _ \<Rightarrow> False)"

definition grant :: "phase \<Rightarrow> phase" where
  "grant ph = (case ph of Hoarding \<Rightarrow> Hoard_granted | Waiting f \<Rightarrow> Granted f | _ \<Rightarrow> ph)"

definition holds :: "phase \<Rightarrow> bool" where
  "holds ph = (case ph of Hoard_granted \<Rightarrow> True | Granted _ \<Rightarrow> True | _ \<Rightarrow> False)"

text \<open>\<open>acquire\<close> returns at once only when a permit is free and nobody waits or was just woken.\<close>

definition is_free :: "pool \<Rightarrow> bool" where
  "is_free p \<longleftrightarrow> 0 < permits p \<and> list_all (\<lambda>ph. \<not> waits ph \<and> \<not> holds ph) (requests p)"

definition goto :: "nat \<Rightarrow> phase \<Rightarrow> pool \<Rightarrow> pool" where
  "goto i ph p = p\<lparr>requests := (requests p)[i := ph]\<rparr>"

section \<open>Steps\<close>

text \<open>\<open>POOL.release()\<close>: the permit goes to a request that waits, or back.\<close>

inductive released :: "pool \<Rightarrow> pool \<Rightarrow> bool" where
  wake: "i < length (requests p) \<Longrightarrow> waits (requests p ! i) \<Longrightarrow>
    released p (goto i (grant (requests p ! i)) p)"
| free: "list_all (\<lambda>ph. \<not> waits ph) (requests p) \<Longrightarrow> released p (p\<lparr>permits := Suc (permits p)\<rparr>)"

text \<open>After the query: a slow dependency is called, anything else is answered.\<close>

definition after_query :: "fault \<Rightarrow> phase" where
  "after_query f = (if f \<in> {Dependency_timeout, Release_error} then Calling f
     else Answered f 200 None (u ''request completed''))"

definition pool_timeout :: "fault \<Rightarrow> phase" where
  "pool_timeout f = Answered f 503 (Some (u ''PoolAcquireTimeout'')) (u ''database pool exhausted: active=1 max=1'')"

definition invalid_config :: phase where
  "invalid_config = Answered Bad_config 503 (Some (u ''InvalidConfiguration'')) (u ''invalid DB_POOL_SIZE configuration'')"

definition slow_dependency :: "fault \<Rightarrow> phase" where
  "slow_dependency f = Answered f 503 (Some (u ''DependencyReadTimeout''))
     (u ''upstream inventory timed out after 50ms'' @ (if f = Release_error then u '' after release'' else []))"

text \<open>
  The end of a run that has passed the fault: the configuration error, or the query's own permit,
  taken and given back in one run when it is free.
\<close>

inductive query_slot :: "nat \<Rightarrow> fault \<Rightarrow> pool \<Rightarrow> pool \<Rightarrow> bool" where
  bad: "query_slot i Bad_config p (goto i invalid_config p)"
| at_once: "f \<noteq> Bad_config \<Longrightarrow> is_free p \<Longrightarrow> query_slot i f p (goto i (after_query f) p)"
| wait: "f \<noteq> Bad_config \<Longrightarrow> \<not> is_free p \<Longrightarrow> query_slot i f p (goto i (Waiting f) p)"

text \<open>The fault itself: a healthy request frees a blocked pool, a request of the fault takes the permit.\<close>

inductive unblocked :: "fault \<Rightarrow> pool \<Rightarrow> pool \<Rightarrow> bool" where
  unblock: "f \<noteq> Pool_exhaustion \<Longrightarrow> blocked p \<Longrightarrow> released p q \<Longrightarrow> unblocked f p (q\<lparr>blocked := False\<rparr>)"
| keep: "f = Pool_exhaustion \<or> \<not> blocked p \<Longrightarrow> unblocked f p p"

inductive business_step :: "pool \<Rightarrow> pool \<Rightarrow> bool" where
  enter: "i < length (requests p) \<Longrightarrow> requests p ! i = Begin f \<Longrightarrow> unblocked f p q \<Longrightarrow>
    f \<noteq> Pool_exhaustion \<or> blocked q \<Longrightarrow> query_slot i f q r \<Longrightarrow> business_step p r"
| hoard: "i < length (requests p) \<Longrightarrow> requests p ! i = Begin Pool_exhaustion \<Longrightarrow> \<not> blocked p \<Longrightarrow> is_free p \<Longrightarrow>
    query_slot i Pool_exhaustion (p\<lparr>permits := permits p - 1, blocked := True\<rparr>) r \<Longrightarrow> business_step p r"
| queue: "i < length (requests p) \<Longrightarrow> requests p ! i = Begin Pool_exhaustion \<Longrightarrow> \<not> blocked p \<Longrightarrow> \<not> is_free p \<Longrightarrow>
    business_step p (goto i Hoarding p)"
| take: "i < length (requests p) \<Longrightarrow> requests p ! i = Hoard_granted \<Longrightarrow>
    query_slot i Pool_exhaustion ((goto i (Begin Pool_exhaustion) p)\<lparr>blocked := True\<rparr>) r \<Longrightarrow> business_step p r"
| query: "i < length (requests p) \<Longrightarrow> requests p ! i = Granted f \<Longrightarrow>
    released (goto i (after_query f) p) r \<Longrightarrow> business_step p r"
| give_up: "i < length (requests p) \<Longrightarrow> requests p ! i = Waiting f \<Longrightarrow> business_step p (goto i (pool_timeout f) p)"
| late: "i < length (requests p) \<Longrightarrow> requests p ! i = Granted f \<Longrightarrow>
    released (goto i (pool_timeout f) p) r \<Longrightarrow> business_step p r"
| timed_out: "i < length (requests p) \<Longrightarrow> requests p ! i = Calling f \<Longrightarrow>
    business_step p (goto i (slow_dependency f) p)"
| answered: "i < length (requests p) \<Longrightarrow> requests p ! i = Calling f \<Longrightarrow>
    business_step p (goto i (Answered f 200 None (u ''request completed'')) p)"
| broke: "i < length (requests p) \<Longrightarrow> requests p ! i = Calling f \<Longrightarrow> business_step p (goto i (Broken f) p)"

section \<open>The permit is never lost and never doubled\<close>

definition in_hand :: "pool \<Rightarrow> nat" where
  "in_hand p = length (filter holds (requests p))"

definition permit_ok :: "pool \<Rightarrow> bool" where
  "permit_ok p \<longleftrightarrow> permits p + in_hand p + (if blocked p then 1 else 0) = 1"

lemma filter_update:
  "i < length xs \<Longrightarrow> length (filter P (xs[i := y])) + (if P (xs ! i) then 1 else 0)
     = length (filter P xs) + (if P y then 1 else 0)"
proof (induction xs arbitrary: i)
  case (Cons x xs)
  then show ?case by (cases i) auto
qed simp

lemma in_hand_goto:
  "i < length (requests p) \<Longrightarrow>
    in_hand (goto i ph p) + (if holds (requests p ! i) then 1 else 0) = in_hand p + (if holds ph then 1 else 0)"
  using filter_update[of i "requests p" holds ph] by (simp add: in_hand_def goto_def)

lemma in_hand_same [simp]:
  "i < length (requests p) \<Longrightarrow> holds ph = holds (requests p ! i) \<Longrightarrow> in_hand (goto i ph p) = in_hand p"
  using in_hand_goto[of i p ph] by simp

lemma in_hand_up: "i < length (requests p) \<Longrightarrow> \<not> holds (requests p ! i) \<Longrightarrow> holds ph \<Longrightarrow>
    in_hand (goto i ph p) = Suc (in_hand p)"
  using in_hand_goto[of i p ph] by simp

lemma goto_simps [simp]:
  "permits (goto i ph p) = permits p" "blocked (goto i ph p) = blocked p"
  "length (requests (goto i ph p)) = length (requests p)"
  by (simp_all add: goto_def)

lemma holds_simps [simp]:
  "holds (Begin f) = False" "holds Hoarding = False" "holds Hoard_granted = True" "holds (Waiting f) = False"
  "holds (Granted f) = True" "holds (Calling f) = False" "holds (Answered f n c m) = False" "holds (Broken f) = False"
  "holds (after_query f) = False" "holds (pool_timeout f) = False" "holds invalid_config = False"
  "holds (slow_dependency f) = False" "waits ph \<Longrightarrow> \<not> holds ph" "waits ph \<Longrightarrow> holds (grant ph)"
  by (auto simp: holds_def waits_def grant_def after_query_def pool_timeout_def invalid_config_def
      slow_dependency_def split: phase.splits)

lemma in_hand_update [simp]: "in_hand (p\<lparr>permits := n\<rparr>) = in_hand p" "in_hand (p\<lparr>blocked := b\<rparr>) = in_hand p"
  by (simp_all add: in_hand_def)

text \<open>A release adds one to what is free or in hand.\<close>

lemma released_adds:
  "released p q \<Longrightarrow> permits q + in_hand q = Suc (permits p + in_hand p) \<and> blocked q = blocked p
    \<and> length (requests q) = length (requests p)"
  by (induction rule: released.induct) (auto simp: in_hand_up)

lemma released_not_waiting:
  "released p q \<Longrightarrow> i < length (requests p) \<Longrightarrow> \<not> waits (requests p ! i) \<Longrightarrow> requests q ! i = requests p ! i"
  by (induction rule: released.induct) (auto simp: goto_def nth_list_update)

lemma query_slot_keeps:
  assumes "query_slot i f p q" and "i < length (requests p)" and "\<not> holds (requests p ! i)"
  shows "permits q = permits p \<and> in_hand q = in_hand p \<and> blocked q = blocked p"
  using assms(1)
proof cases
  case bad
  then show ?thesis using in_hand_goto[OF assms(2), of invalid_config] assms(3) by simp
next
  case at_once
  then show ?thesis using in_hand_goto[OF assms(2), of "after_query f"] assms(3) by simp
next
  case wait
  then show ?thesis using in_hand_goto[OF assms(2), of "Waiting f"] assms(3) by simp
qed

lemma unblocked_keeps:
  assumes "unblocked f p q" and "permit_ok p"
  shows "permit_ok q \<and> length (requests q) = length (requests p)
    \<and> (\<forall>i < length (requests p). \<not> waits (requests p ! i) \<longrightarrow> requests q ! i = requests p ! i)"
  using assms(1)
proof cases
  case (unblock q')
  then show ?thesis
    using assms(2) released_adds[of p q'] released_not_waiting[of p q'] by (auto simp: permit_ok_def)
qed (use assms(2) in auto)

lemma permit_ok_step: "business_step p q \<Longrightarrow> permit_ok p \<Longrightarrow> permit_ok q"
proof (induction rule: business_step.induct)
  case (enter i p f q r)
  have k: "permit_ok q" "i < length (requests q)" "requests q ! i = Begin f"
    using unblocked_keeps[OF enter(3) enter.prems] enter(1,2) by (auto simp: waits_def)
  then show ?case using query_slot_keeps[OF enter(5)] by (simp add: permit_ok_def)
next
  case (hoard i p r)
  then have "0 < permits p" by (simp add: is_free_def)
  then show ?case using query_slot_keeps[OF hoard(5)] hoard by (auto simp: permit_ok_def)
next
  case (queue i p)
  then show ?case using in_hand_goto[of i p Hoarding] by (simp add: permit_ok_def)
next
  case (take i p r)
  let ?p = "goto i (Begin Pool_exhaustion) p"
  have "Suc (in_hand ?p) = in_hand p" using in_hand_goto[OF take(1), of "Begin Pool_exhaustion"] take(2) by simp
  moreover have "requests (?p\<lparr>blocked := True\<rparr>) ! i = Begin Pool_exhaustion" using take(1) by (simp add: goto_def)
  ultimately show ?case
    using query_slot_keeps[OF take(3)] take(1) take.prems by (auto simp: permit_ok_def split: if_splits)
next
  case (query i p f r)
  then show ?case
    using released_adds[OF query(3)] in_hand_goto[OF query(1), of "after_query f"] by (simp add: permit_ok_def)
next
  case (late i p f r)
  then show ?case
    using released_adds[OF late(3)] in_hand_goto[OF late(1), of "pool_timeout f"] by (simp add: permit_ok_def)
qed (auto simp: permit_ok_def)

lemma permit_ok_new: "permit_ok (new_pool fs)"
proof -
  have "filter holds (map Begin fs) = []" by (induction fs) auto
  then show ?thesis by (simp add: permit_ok_def in_hand_def new_pool_def)
qed

lemma permit_ok_reachable: "business_step\<^sup>*\<^sup>* (new_pool fs) p \<Longrightarrow> permit_ok p"
  by (induction rule: rtranclp_induct) (auto intro: permit_ok_new permit_ok_step)

section \<open>Properties\<close>

text \<open>
  C33: In every state that requests to \<open>business\<close> can reach, in any interleaving and with timeouts at
  any moment, the pool's one permit is in exactly one place: free, in the hand of one request, or held
  by the fault while the flag is set. So no release ever makes a second permit, and no abandoned wait
  loses the only one.
\<close>

theorem pool_permit_conserved:
  assumes "business_step\<^sup>*\<^sup>* (new_pool fs) p"
  shows "permits p + in_hand p + (if blocked p then 1 else 0) = 1"
  using permit_ok_reachable[OF assms] by (simp add: permit_ok_def)

text \<open>A request of the fault takes the permit and then waits for its own query.\<close>

theorem pool_permit_conserved_witness:
  "\<exists>p. business_step\<^sup>*\<^sup>* (new_pool [Pool_exhaustion, Healthy]) p \<and> blocked p \<and> permits p + in_hand p = 0"
proof -
  let ?n = "new_pool [Pool_exhaustion, Healthy]"
  let ?m = "?n\<lparr>permits := permits ?n - 1, blocked := True\<rparr>"
  let ?p = "goto 0 (Waiting Pool_exhaustion) ?m"
  have "query_slot 0 Pool_exhaustion ?m ?p" by (rule query_slot.wait) (simp_all add: is_free_def new_pool_def)
  then have "business_step ?n ?p"
    by (rule business_step.hoard[rotated 4]) (simp_all add: new_pool_def is_free_def waits_def)
  then have r: "business_step\<^sup>*\<^sup>* ?n ?p" by blast
  have b: "blocked ?p" by simp
  from pool_permit_conserved[OF r] b have "permits ?p + in_hand ?p + 1 = 1" by (simp only: if_True)
  with r b show ?thesis by auto
qed

end
