(* ===== verification/Demo_Server.thy ===== *)
theory Demo_Server
  imports Demo_Pool Log_Store World
begin

text \<open>
  \<^verbatim>\<open>demo/server.py\<close>: the fixtures a development system runs against: a token issuer, the control
  endpoint, the business endpoint's log line, the read-only sources behind the API's authorization and
  the issue stub. SQLite, the deployments table and the git repository are the state; git itself, the
  API, Kubernetes, the clock and the JWT library are functions of what was done so far.
\<close>

section \<open>State\<close>

record issue_row =
  is_number :: int
  is_repo :: str
  is_title :: json
  is_body :: json

record demo =
  config_table :: "(str \<times> str) list"
  log_table :: "log_row list"
  issue_table :: "issue_row list"
  deployments :: "deployment_row list"
  git_done :: "str list list"
  sent :: "(str \<times> json) list"

type_synonym 'a H = "(demo, 'a) M"

record demo_env =
  demo_key :: str
  demo_password :: str
  issuer :: str
  worker_key :: str
  observe_ns :: str
  seed_database :: bool
  public_key :: json
  jwt_encode :: "json \<Rightarrow> str"
  unix_time :: "demo \<Rightarrow> int"
  time_ns :: "demo \<Rightarrow> str"
  db_time :: "demo \<Rightarrow> int"
  iso_now :: "demo \<Rightarrow> str"
  api_reply :: "demo \<Rightarrow> reply"
  k8s_reply :: "demo \<Rightarrow> str \<Rightarrow> reply"
  git_out :: "str list list \<Rightarrow> str list \<Rightarrow> str res"
  str_of_json :: "json \<Rightarrow> str"
  int_of_float :: "str \<Rightarrow> int res"
  is_after :: "str \<Rightarrow> str \<Rightarrow> bool res"
  sql_time :: "str \<Rightarrow> int res"
  sql_text :: "json \<Rightarrow> str"
  error_text :: "exn \<Rightarrow> str"
  log_engine :: engine
  head_sha :: str

definition http :: "int \<Rightarrow> str \<Rightarrow> 'a H" where
  "http code detail = raise (HTTPException code detail)"

text \<open>\<open>config(key, default)\<close>.\<close>

definition config :: "str \<Rightarrow> str \<Rightarrow> str H" where
  "config k z = gets (\<lambda>d. dict_get (config_table d) k z)"

text \<open>A git command that only reads, and one that changes the repository.\<close>

definition git :: "demo_env \<Rightarrow> str list \<Rightarrow> str H" where
  "git D args = bnd (gets (\<lambda>d. git_out D (git_done d) args)) lift"

definition git_change :: "demo_env \<Rightarrow> str list \<Rightarrow> str H" where
  "git_change D args = bnd (git D args) (\<lambda>t. sq (modify (\<lambda>d. d\<lparr>git_done := git_done d @ [args]\<rparr>)) (ret t))"

definition post :: "demo_env \<Rightarrow> str \<Rightarrow> json \<Rightarrow> reply H" where
  "post D url body = sq (modify (\<lambda>d. d\<lparr>sent := sent d @ [(url, body)]\<rparr>))
     (bnd (gets (api_reply D)) (\<lambda>r. if r = NoReply then raise TransportError else ret r))"

section \<open>Health, discovery, tokens\<close>

definition health :: "demo_env \<Rightarrow> json H" where
  "health D = bnd (config (u ''fault'') []) (\<lambda>f.
     if f = u ''probe_failure'' then http 503 (u ''injected_probe_failure'')
     else ret (JObj [(u ''status'', JStr (u ''ok'')), (u ''mode'', JStr (u ''development-fixtures'')),
       (u ''commit'', JStr (head_sha D))]))"

definition discovery :: "demo_env \<Rightarrow> json" where
  "discovery D = JObj [(u ''issuer'', JStr (issuer D)), (u ''jwks_uri'', JStr (issuer D @ u ''/jwks'')),
     (u ''authorization_endpoint'', JStr (issuer D @ u ''/authorize'')),
     (u ''token_endpoint'', JStr (issuer D @ u ''/token'')),
     (u ''response_types_supported'', strs [u ''id_token'']), (u ''subject_types_supported'', strs [u ''public'']),
     (u ''id_token_signing_alg_values_supported'', strs [u ''RS256''])]"

definition jwks :: "demo_env \<Rightarrow> json" where
  "jwks D = JObj [(u ''keys'', JList [public_key D])]"

definition demo_users :: "str list" where
  "demo_users = map u [''alice'', ''bob'', ''carol'', ''admin'']"

definition token :: "demo_env \<Rightarrow> json \<Rightarrow> json H" where
  "token D b =
     bnd (lift (jget_opt b (u ''username''))) (\<lambda>name.
     if \<not> hashable name then raise TypeError
     else bnd (lift (jget_opt b (u ''password''))) (\<lambda>pw.
     if name \<notin> JStr ` set demo_users \<or> pw \<noteq> JStr (demo_password D) then http 401 (u ''invalid_credentials'')
     else bnd (gets (unix_time D)) (\<lambda>t. ret (JObj
       [(u ''access_token'', JStr (jwt_encode D (JObj [(u ''iss'', JStr (issuer D)),
           (u ''aud'', JStr (u ''incidentdesk'')), (u ''sub'', name), (u ''iat'', JInt t),
           (u ''exp'', JInt (t + 3600))]))),
        (u ''token_type'', JStr (u ''Bearer'')), (u ''expires_in'', JInt 3600),
        (u ''identity_mode'', JStr (u ''local-development''))]))))"

section \<open>Control\<close>

text \<open>The new deployment row takes the next watermark of the whole table.\<close>

definition new_release :: "demo_env \<Rightarrow> str \<Rightarrow> demo \<Rightarrow> demo" where
  "new_release D v d = d\<lparr>deployments := deployments d @
     [\<lparr>row_id = u ''dep-'' @ time_ns D d, row_service = u ''svc-17'', row_app_id = u ''svc-17'', row_version = v,
       row_commit_sha = head_sha D, row_time = db_time D d,
       row_watermark = fold max (map row_watermark (deployments d)) 0 + 1, row_deleted = False\<rparr>]\<rparr>"

definition set_config :: "demo_env \<Rightarrow> (str \<times> json) list \<Rightarrow> demo \<Rightarrow> demo" where
  "set_config D kvs d = d\<lparr>config_table := fold (\<lambda>(k, v). AList.update k (str_of_json D v)) kvs (config_table d)\<rparr>"

text \<open>The file is written in the working tree, then committed.\<close>

definition publish_runbook :: "demo_env \<Rightarrow> str \<Rightarrow> unit H" where
  "publish_runbook D text = sq (modify (\<lambda>d. d\<lparr>git_done := git_done d @ [[u ''write'', u ''RUNBOOK.md'', text]]\<rparr>))
     (sq (git_change D [u ''add'', u ''.''])
     (sq (git_change D [u ''commit'', u ''-m'', u ''demo: update source runbook'']) (ret ())))"

definition notify_change :: "demo_env \<Rightarrow> json \<Rightarrow> unit H" where
  "notify_change D removed = bnd (post D (u ''/internal/v1/source-change'')
       (JObj [(u ''service'', JStr (u ''svc-17'')), (u ''delete'', JBool (removed = JStr (u ''true'')))])) (\<lambda>r.
     case r of Status c \<Rightarrow> raise (HTTPStatusError c) | _ \<Rightarrow> ret ())"

definition control :: "demo_env \<Rightarrow> str option \<Rightarrow> json \<Rightarrow> json H" where
  "control D x_demo_key b =
     (if x_demo_key \<noteq> Some (demo_key D) then http 403 []
      else case b of
        JObj kvs \<Rightarrow>
          sq (modify (set_config D kvs))
          (sq (when_M (map_of kvs (u ''release'') \<noteq> None \<and> seed_database D)
                 (modify (new_release D (str_of_json D (dict_get kvs (u ''release'') JNull)))))
          (sq (when_M (list_ex (\<lambda>k. map_of kvs k \<noteq> None) [u ''delete_runbook'', u ''release'', u ''runbook''])
                 (sq (when_M (map_of kvs (u ''runbook'') \<noteq> None)
                        (publish_runbook D (str_of_json D (dict_get kvs (u ''runbook'') JNull))))
                     (notify_change D (dict_get kvs (u ''delete_runbook'') JNull))))
              (ret (JObj [(u ''configured'', strs (map fst kvs))]))))
      | _ \<Rightarrow> raise AttributeError)"

section \<open>The business endpoint's log line\<close>

definition business_payload :: "str \<Rightarrow> nat \<Rightarrow> str option \<Rightarrow> str \<Rightarrow> json \<Rightarrow> str \<Rightarrow> str \<Rightarrow> json" where
  "business_payload svc status error_class message ms release commit = JObj
     [(u ''service_name'', JStr (if svc = u ''svc-17'' then u ''checkout-api'' else u ''payment-api'')),
      (u ''level'', JStr (if status = 200 then u ''INFO'' else u ''ERROR'')), (u ''message'', JStr message),
      (u ''error_class'', opt_str error_class), (u ''duration_ms'', ms), (u ''release'', JStr release),
      (u ''commit'', JStr commit)]"

definition next_id :: "int list \<Rightarrow> int" where
  "next_id is = fold max is 0 + 1"

definition insert_log :: "demo_env \<Rightarrow> str \<Rightarrow> json \<Rightarrow> demo \<Rightarrow> demo" where
  "insert_log D svc payload d = d\<lparr>log_table := log_table d @
     [\<lparr>lr_id = next_id (map lr_id (log_table d)), lr_service = svc, lr_time = iso_now D d, lr_payload = payload\<rparr>]\<rparr>"

text \<open>The end of a request whose pool run ended in \<open>Answered\<close>.\<close>

definition business_answer :: "demo_env \<Rightarrow> str \<Rightarrow> phase \<Rightarrow> json \<Rightarrow> (json \<times> nat) H" where
  "business_answer D svc ph ms = (case ph of
     Answered f status error_class message \<Rightarrow>
       if svc \<notin> {u ''svc-17'', u ''svc-23''} then http 400 []
       else bnd (config (u ''release'') (u ''v2'')) (\<lambda>rel.
         let payload = business_payload svc status error_class message ms rel (head_sha D) in
         sq (when_M (f \<noteq> Missing_logs) (modify (insert_log D svc payload))) (ret (payload, status)))
   | _ \<Rightarrow> raise TransportError)"

section \<open>Related records\<close>

definition text_field :: "json \<Rightarrow> str \<Rightarrow> str H" where
  "text_field sc k = bnd (lift (jget sc k)) (\<lambda>v. case v of JStr t \<Rightarrow> ret t | _ \<Rightarrow> raise TypeError)"

definition runbook_record :: "str \<Rightarrow> str \<Rightarrow> str \<Rightarrow> str \<Rightarrow> json" where
  "runbook_record sha stamp text upto_t = JObj [(u ''id'', JStr (u ''orders-runbook'')), (u ''event_time'', JStr stamp),
     (u ''content'', JObj [(u ''markdown'', JStr text), (u ''service'', JStr (u ''svc-17'')),
        (u ''provenance'', JStr (u ''local-demo'')), (u ''valid_as_of'', JStr upto_t)]),
     (u ''locator'', JStr (u ''demo-git://repo/'' @ sha @ u ''/RUNBOOK.md'')), (u ''version'', JStr sha),
     (u ''deleted'', JBool False)]"

definition runbook_records :: "demo_env \<Rightarrow> json \<Rightarrow> json list H" where
  "runbook_records D sc =
     bnd (config (u ''delete_runbook'') []) (\<lambda>gone.
     if gone = u ''true'' then ret []
     else bnd (text_field sc (u ''end'')) (\<lambda>upto_t.
       bnd (git D [u ''log'', u ''-1'', u ''--until='' @ upto_t, u ''--format=%H'', u ''--'', u ''RUNBOOK.md'']) (\<lambda>sha.
       if sha = [] then ret []
       else bnd (git D [u ''show'', u ''-s'', u ''--format=%cI'', sha]) (\<lambda>stamp.
         bnd (git D [u ''show'', sha @ u '':RUNBOOK.md'']) (\<lambda>text.
         ret [runbook_record sha stamp text upto_t])))))"

text \<open>
  The shas of the releases in the interval and of the one in force at its start; \<open>distinct \<dots> limit 50\<close>
  leaves the order to the database, here that of the table.
\<close>

definition in_force :: "str \<Rightarrow> int \<Rightarrow> deployment_row list \<Rightarrow> deployment_row option" where
  "in_force svc t0 rows = (case rev (sort_key (\<lambda>r. (row_time r, row_watermark r))
       (filter (\<lambda>r. row_service r = svc \<and> \<not> row_deleted r \<and> row_time r \<le> t0) rows)) of
     [] \<Rightarrow> None | r # _ \<Rightarrow> Some r)"

definition release_shas :: "str \<Rightarrow> int \<Rightarrow> int \<Rightarrow> deployment_row list \<Rightarrow> str list" where
  "release_shas svc t0 t1 rows = take 50 (uniq (map row_commit_sha (filter (\<lambda>r. row_service r = svc \<and> \<not> row_deleted r
     \<and> row_time r \<le> t1 \<and> (row_time r \<ge> t0 \<or> Some (row_id r) = map_option row_id (in_force svc t0 rows))) rows)))"

definition sha_pattern :: re where
  "sha_pattern = Rep (\<lambda>c. is_digit c \<or> 97 \<le> c \<and> c \<le> 102) 40 (Some 40)"

definition commit_record :: "str \<Rightarrow> str \<Rightarrow> str \<Rightarrow> str \<Rightarrow> str \<Rightarrow> json" where
  "commit_record sha svc stamp diff cfg = JObj [(u ''id'', JStr sha), (u ''event_time'', JStr stamp),
     (u ''content'', JObj [(u ''commit'', JStr sha), (u ''diff'', JStr diff), (u ''config'', JStr cfg),
        (u ''config_path'', JStr (u ''config.json'')),
        (u ''config_locator'', JStr (u ''demo-git://repo/'' @ sha @ u ''/config.json'')),
        (u ''service'', JStr svc), (u ''provenance'', JStr (u ''local-demo''))]),
     (u ''locator'', JStr (u ''demo-git://repo/commit/'' @ sha)), (u ''version'', JStr sha), (u ''deleted'', JBool False)]"

text \<open>A failing git command is \<open>CalledProcessError\<close>.\<close>

definition git_failed :: exn where
  "git_failed = OtherError (u ''CalledProcessError'') []"

definition commit_of :: "demo_env \<Rightarrow> str \<Rightarrow> str \<Rightarrow> str \<Rightarrow> json list H" where
  "commit_of D svc upto_t sha =
     (if \<not> fullmatch sha_pattern sha then ret []
      else catch
        (bnd (git D [u ''show'', u ''-s'', u ''--format=%cI'', sha]) (\<lambda>stamp.
         bnd (lift (is_after D stamp upto_t)) (\<lambda>later.
         if later then ret []
         else bnd (git D [u ''show'', u ''--stat'', u ''--format=fuller'', sha]) (\<lambda>diff.
              bnd (git D [u ''show'', sha @ u '':config.json'']) (\<lambda>cfg.
              ret [commit_record sha svc stamp diff cfg])))))
        (\<lambda>e. if e = git_failed then ret [] else raise e))"

fun commits_of :: "demo_env \<Rightarrow> str \<Rightarrow> str \<Rightarrow> str list \<Rightarrow> json list H" where
  "commits_of D svc upto_t [] = ret []"
| "commits_of D svc upto_t (sha # shas) =
     bnd (commit_of D svc upto_t sha) (\<lambda>rs. bnd (commits_of D svc upto_t shas) (\<lambda>rest. ret (rs @ rest)))"

definition related_records :: "demo_env \<Rightarrow> str \<Rightarrow> json \<Rightarrow> json list H" where
  "related_records D source sc =
     bnd (lift (jget sc (u ''service''))) (\<lambda>svc.
     if svc \<noteq> JStr (u ''svc-17'') then ret []
     else bnd (bnd (gets (\<lambda>d. catalog_entry (log_table d) (u ''svc-17''))) lift) (\<lambda>profile.
       bnd (lift (jget profile (u ''provenance''))) (\<lambda>prov.
       if prov = JStr (u ''public-dataset'') then ret []
       else if source = u ''runbook'' then runbook_records D sc
       else if \<not> seed_database D then ret []
       else bnd (text_field sc (u ''end'')) (\<lambda>upto_t.
         bnd (text_field sc (u ''start'')) (\<lambda>since.
         bnd (lift (rbind (sql_time D upto_t) (\<lambda>t1. rbind (sql_time D since) (\<lambda>t0. Inr (t0, t1))))) (\<lambda>(t0, t1).
         bnd (gets (\<lambda>d. release_shas (u ''svc-17'') t0 t1 (deployments d))) (\<lambda>shas.
         commits_of D (u ''svc-17'') upto_t shas)))))))"

section \<open>Catalog and sources\<close>

definition source_catalog :: "demo_env \<Rightarrow> str \<Rightarrow> json \<Rightarrow> json list H" where
  "source_catalog D x_worker_key b =
     (if x_worker_key \<noteq> worker_key D then http 401 (u ''service_identity_required'')
      else bnd (lift (jget_def b (u ''services'') (JList []))) (\<lambda>services. case services of
        JList ss \<Rightarrow>
          if length ss > 100 \<or> list_ex (\<lambda>s. \<not> (case s of JStr _ \<Rightarrow> True | _ \<Rightarrow> False)) ss
          then http 400 (u ''invalid_services'')
          else bnd (gets (\<lambda>d. catalog (log_table d) (map text_of ss))) lift
      | _ \<Rightarrow> http 400 (u ''invalid_services'')))"

text \<open>\<open>int(v)\<close>.\<close>

definition to_int :: "demo_env \<Rightarrow> json \<Rightarrow> int res" where
  "to_int D j = (case j of JInt n \<Rightarrow> Inr n | JBool b \<Rightarrow> Inr (if b then 1 else 0) | JStr t \<Rightarrow> py_int t
     | JFloat t \<Rightarrow> int_of_float D t | _ \<Rightarrow> Inl TypeError)"

definition authorize_source :: "demo_env \<Rightarrow> str \<Rightarrow> json \<Rightarrow> json H" where
  "authorize_source D source task =
     bnd (lift (jget task (u ''id''))) (\<lambda>i.
     bnd (lift (rbind (jget task (u ''owner'')) (\<lambda>own. rbind (jget task (u ''generation'')) (\<lambda>g. Inr (own, g))))) (\<lambda>(own, g).
     bnd (post D (u ''/internal/v1/tasks/'' @ str_of_json D i @ u ''/authorize'')
       (JObj [(u ''owner'', own), (u ''generation'', g), (u ''tool'', JStr source)])) (\<lambda>r. case r of
         Status c \<Rightarrow> http c (u ''scope_rejected'')
       | Ok sc \<Rightarrow> ret sc
       | _ \<Rightarrow> raise JSONDecodeError)))"

text \<open>One object of a Kubernetes list.\<close>

definition kept_keys :: "str list" where
  "kept_keys = map u [''status'', ''reason'', ''message'', ''involvedObject'']"

definition cluster_record :: "demo_env \<Rightarrow> str \<Rightarrow> json \<Rightarrow> json res" where
  "cluster_record D resource item =
     rbind (jget item (u ''metadata'')) (\<lambda>meta.
     rbind (jget meta (u ''uid'')) (\<lambda>i.
     rbind (jget meta (u ''creationTimestamp'')) (\<lambda>stamp.
     rbind (jget meta (u ''name'')) (\<lambda>name.
     rbind (rbind (jget_def meta (u ''labels'') (JObj [])) (\<lambda>ls. jget_opt ls (u ''release''))) (\<lambda>rel.
     rbind (jget meta (u ''resourceVersion'')) (\<lambda>v.
     let kept = (case item of JObj kvs \<Rightarrow> filter (\<lambda>(k, _). k \<in> set kept_keys) kvs | _ \<Rightarrow> []) in
     Inr (JObj [(u ''id'', i), (u ''event_time'', stamp),
       (u ''content'', JObj ([(u ''name'', name), (u ''release'', rel)] @ kept)),
       (u ''locator'', JStr (u ''k8s://'' @ observe_ns D @ u ''/'' @ resource @ u ''/'' @ str_of_json D name)),
       (u ''version'', v), (u ''deleted'', JBool False)])))))))"

definition cluster_list :: "demo_env \<Rightarrow> str \<Rightarrow> json list H" where
  "cluster_list D resource = bnd (gets (\<lambda>d. k8s_reply D d resource)) (\<lambda>r. case r of
     NoReply \<Rightarrow> raise TransportError
   | Status c \<Rightarrow> raise (HTTPStatusError c)
   | NotJson \<Rightarrow> raise JSONDecodeError
   | Ok j \<Rightarrow> bnd (lift (rbind (jget j (u ''items'')) as_list)) (\<lambda>items. lift (rmap (cluster_record D resource) items)))"

definition cluster_records :: "demo_env \<Rightarrow> json \<Rightarrow> json list H" where
  "cluster_records D sc =
     (if observe_ns D = [] then http 503 (u ''cluster_observer_not_configured'')
      else bnd (lift (jget sc (u ''service''))) (\<lambda>svc.
      if svc \<noteq> JStr (u ''svc-17'') then http 403 (u ''namespace_outside_service_scope'')
      else bnd (cluster_list D (u ''pods'')) (\<lambda>pods. bnd (cluster_list D (u ''events'')) (\<lambda>events.
        ret (pods @ events)))))"

definition logs_answer :: "demo_env \<Rightarrow> json \<Rightarrow> int \<Rightarrow> json \<Rightarrow> json H" where
  "logs_answer D sc cap cursor =
     bnd (lift (jget_def sc (u ''query'') (JObj []))) (\<lambda>spec.
     bnd (catch (bnd (gets (\<lambda>d. log_query (log_engine D) (log_table d) sc spec cap
              (if truthy cursor then Some (str_of_json D cursor) else None))) lift)
            (\<lambda>e. if is_value_error e then http 400 (error_text D e) else raise e)) (\<lambda>data.
     bnd (lift (jget data (u ''records''))) (\<lambda>records.
     bnd (lift (jget sc (u ''watermark''))) (\<lambda>mark.
     bnd (gets (iso_now D)) (\<lambda>t.
     ret (JObj ((case data of JObj kvs \<Rightarrow> filter (\<lambda>(k, _). k \<noteq> u ''records'') kvs | _ \<Rightarrow> [])
       @ [(u ''records'', records), (u ''watermark'', mark), (u ''observed_at'', JStr t), (u ''scope'', sc),
          (u ''sync'', JStr (u ''indexed-keyset-v2''))])))))))"

definition records_answer :: "demo_env \<Rightarrow> json \<Rightarrow> int \<Rightarrow> (str \<times> json) list \<Rightarrow> json list \<Rightarrow> json H" where
  "records_answer D sc cap extra records =
     (let n = nat cap in
      bnd (lift (if length records > n then jget (records ! (n - 1)) (u ''id'') else Inr JNull)) (\<lambda>cur.
      bnd (lift (jget sc (u ''watermark''))) (\<lambda>mark.
      bnd (gets (iso_now D)) (\<lambda>t.
      ret (JObj (extra @ [(u ''records'', JList (take n records)), (u ''next_cursor'', cur), (u ''watermark'', mark),
        (u ''observed_at'', JStr t), (u ''scope'', sc), (u ''sync'', JStr (u ''rescan''))]))))))"

definition source_names :: "str list" where
  "source_names = map u [''logs'', ''git'', ''runbook'', ''cluster'']"

definition sources :: "demo_env \<Rightarrow> str \<Rightarrow> json \<Rightarrow> json H" where
  "sources D source b =
     bnd (lift (jget b (u ''task''))) (\<lambda>task.
     if source \<notin> set source_names then http 404 []
     else bnd (authorize_source D source task) (\<lambda>sc.
     bnd (lift (jget_opt b (u ''cursor''))) (\<lambda>cursor.
     bnd (lift (rbind (jget_def b (u ''limit'') (JInt 50)) (to_int D))) (\<lambda>n.
     let cap = min 100 n in
     if cap < 1 then http 400 []
     else bnd (config (u ''unavailable'') []) (\<lambda>off.
     if off = source then http 503 (u ''source_unavailable'')
     else if source = u ''logs'' then logs_answer D sc cap cursor
     else if source = u ''cluster'' then bnd (cluster_records D sc) (records_answer D sc cap [])
     else bnd (related_records D source sc)
            (records_answer D sc cap [(u ''provenance'', JStr (u ''local-demo''))]))))))"

section \<open>The issue stub\<close>

definition repo_name :: "str \<Rightarrow> str \<Rightarrow> str" where
  "repo_name own repo = own @ u ''/'' @ repo"

definition issue :: "str \<Rightarrow> str \<Rightarrow> int \<Rightarrow> json H" where
  "issue own repo n = bnd (gets (\<lambda>d. find (\<lambda>r. is_number r = n \<and> is_repo r = repo_name own repo) (issue_table d))) (\<lambda>row.
     case row of
       None \<Rightarrow> http 404 []
     | Some r \<Rightarrow> ret (JObj [(u ''number'', JInt n), (u ''title'', is_title r), (u ''body'', is_body r),
         (u ''html_url'', JStr (u ''http://localhost:8090/github/repos/'' @ own @ u ''/'' @ repo @ u ''/issues/'' @ dec n)),
         (u ''integration'', JStr (u ''local-github-stub''))]))"

text \<open>What a TEXT column keeps of a bound value; a list or an object cannot be bound.\<close>

definition text_column :: "demo_env \<Rightarrow> json \<Rightarrow> json res" where
  "text_column D j = (if \<not> hashable j then Inl (OtherError (u ''ProgrammingError'') [])
     else Inr (case j of JNull \<Rightarrow> JNull | JStr t \<Rightarrow> JStr t | _ \<Rightarrow> JStr (sql_text D j)))"

text \<open>A delayed response only makes the client wait; the issue has been written.\<close>

definition create_issue :: "demo_env \<Rightarrow> str \<Rightarrow> str \<Rightarrow> json \<Rightarrow> json H" where
  "create_issue D own repo b =
     bnd (lift (rbind (jget b (u ''title'')) (\<lambda>t. rbind (jget b (u ''body'')) (\<lambda>bd. Inr (t, bd))))) (\<lambda>(t, bd).
     bnd (lift (rbind (text_column D t) (\<lambda>t. rbind (text_column D bd) (\<lambda>bd. Inr (t, bd))))) (\<lambda>(t, bd).
     bnd (gets (\<lambda>d. next_id (map is_number (issue_table d)))) (\<lambda>n.
     sq (modify (\<lambda>d. d\<lparr>issue_table := issue_table d @
           [\<lparr>is_number = n, is_repo = repo_name own repo, is_title = t, is_body = bd\<rparr>]\<rparr>))
        (issue own repo n))))"

fun issue_list :: "str \<Rightarrow> str \<Rightarrow> int list \<Rightarrow> json list H" where
  "issue_list own repo [] = ret []"
| "issue_list own repo (n # ns) = bnd (issue own repo n) (\<lambda>j. bnd (issue_list own repo ns) (\<lambda>js. ret (j # js)))"

text \<open>SQLite reads a negative limit as none and a negative offset as zero.\<close>

definition issues :: "str \<Rightarrow> str \<Rightarrow> int \<Rightarrow> int \<Rightarrow> json list H" where
  "issues own repo page per_page =
     bnd (config (u ''hide_issues'') []) (\<lambda>hidden.
     if hidden = u ''true'' then ret []
     else bnd (gets (\<lambda>d. let ns = rev (sort (map is_number (filter (\<lambda>r. is_repo r = repo_name own repo) (issue_table d))));
              rest = drop (nat ((page - 1) * per_page)) ns
            in if per_page < 0 then rest else take (nat per_page) rest)) (issue_list own repo))"

section \<open>Start-up\<close>

definition seed_row :: "demo_env \<Rightarrow> demo \<Rightarrow> str \<Rightarrow> deployment_row" where
  "seed_row D d s = \<lparr>row_id = u ''dep-'' @ s, row_service = s, row_app_id = s, row_version = u ''v2'',
     row_commit_sha = head_sha D, row_time = db_time D d, row_watermark = 1, row_deleted = False\<rparr>"

definition seed :: "demo_env \<Rightarrow> demo \<Rightarrow> demo" where
  "seed D d = (if \<not> seed_database D then d
     else fold (\<lambda>s e. if row_id (seed_row D d s) \<in> row_id ` set (deployments e) then e
       else e\<lparr>deployments := deployments e @ [seed_row D d s]\<rparr>) [u ''svc-17'', u ''svc-23''] d)"

section \<open>The sources only read\<close>

text \<open>A computation that only reads: the preorder is equality, and what it needs of the rules.\<close>

interpretation ro: state_preorder "(=) :: demo \<Rightarrow> demo \<Rightarrow> bool"
  by unfold_locales auto

abbreviation reads_only :: "'a H \<Rightarrow> bool" where
  "reads_only m \<equiv> grows (=) m"

lemma reads_onlyD: "reads_only m \<Longrightarrow> m d = (x, t) \<Longrightarrow> t = d"
  unfolding grows_def by (metis snd_conv)

lemma reads_http: "reads_only (http c t)"
  by (simp add: http_def ro.grows_pure)

lemma reads_config: "reads_only (config k z)"
  by (simp add: config_def ro.grows_pure)

lemma reads_git: "reads_only (git D args)"
  unfolding git_def by (intro ro.grows_rules)

lemma reads_text: "reads_only (text_field sc k)"
  unfolding text_field_def by (intro ro.grows_bnd ro.grows_pure) (auto split: json.split intro: ro.grows_pure)

lemmas reads_basic = reads_http reads_config reads_git reads_text

lemma reads_runbook: "reads_only (runbook_records D sc)"
  unfolding runbook_records_def by (intro ro.grows_rules reads_basic)

lemma reads_commit: "reads_only (commit_of D svc t sha)"
  unfolding commit_of_def by (intro ro.grows_rules reads_basic)

lemma reads_commits: "reads_only (commits_of D svc t shas)"
  by (induction shas) (auto intro!: ro.grows_rules reads_commit)

lemma reads_related: "reads_only (related_records D source sc)"
  unfolding related_records_def
  by (intro ro.grows_rules reads_basic reads_runbook) (auto intro!: ro.grows_rules reads_commits)

lemma reads_cluster_list: "reads_only (cluster_list D resource)"
  unfolding cluster_list_def by (intro ro.grows_bnd ro.grows_pure) (auto split: reply.split intro!: ro.grows_rules)

lemma reads_cluster: "reads_only (cluster_records D sc)"
  unfolding cluster_records_def by (intro ro.grows_rules reads_basic reads_cluster_list)

lemma reads_records: "reads_only (records_answer D sc n extra rs)"
  unfolding records_answer_def Let_def by (intro ro.grows_rules)

lemma reads_logs: "reads_only (logs_answer D sc n cursor)"
  unfolding logs_answer_def by (intro ro.grows_rules reads_basic)

lemmas reads_answers = reads_basic reads_related reads_cluster reads_records reads_logs

section \<open>What an answer says\<close>

lemma related_records_scope:
  "related_records D source sc d = (Inr rs, t) \<Longrightarrow> rs \<noteq> [] \<Longrightarrow> jget sc (u ''service'') = Inr (JStr (u ''svc-17''))
    \<and> (\<exists>e. catalog_entry (log_table d) (u ''svc-17'') = Inr e \<and> jget e (u ''provenance'') \<noteq> Inr (JStr (u ''public-dataset'')))"
  by (auto simp: related_records_def run_Inr split: if_splits)

lemma cluster_records_scope:
  "cluster_records D sc d = (Inr rs, t) \<Longrightarrow> jget sc (u ''service'') = Inr (JStr (u ''svc-17''))"
  by (auto simp: cluster_records_def run_Inr http_def split: if_splits)

lemma records_answer_says:
  assumes "records_answer D sc n extra rs d = (Inr j, t)"
    and "map_of extra (u ''scope'') = None" "map_of extra (u ''records'') = None"
  shows "jget j (u ''scope'') = Inr sc \<and> jget j (u ''records'') = Inr (JList (take (nat n) rs))"
proof -
  obtain cur mark tm where "j = JObj (extra @ [(u ''records'', JList (take (nat n) rs)), (u ''next_cursor'', cur),
      (u ''watermark'', mark), (u ''observed_at'', JStr tm), (u ''scope'', sc), (u ''sync'', JStr (u ''rescan''))])"
    using assms(1) by (auto simp: records_answer_def Let_def run_Inr)
  then show ?thesis using assms(2,3) by (simp add: map_add_def u_def)
qed

lemma logs_answer_says:
  assumes "logs_answer D sc n cursor d = (Inr j, t)"
  shows "jget j (u ''scope'') = Inr sc"
proof -
  obtain spec data records mark tm where
    "log_query (log_engine D) (log_table d) sc spec n (if truthy cursor then Some (str_of_json D cursor) else None) = Inr data"
    and j: "j = JObj ((case data of JObj kvs \<Rightarrow> filter (\<lambda>(k, _). k \<noteq> u ''records'') kvs | _ \<Rightarrow> [])
       @ [(u ''records'', records), (u ''watermark'', mark), (u ''observed_at'', JStr tm), (u ''scope'', sc),
          (u ''sync'', JStr (u ''indexed-keyset-v2''))])"
    using assms by (auto simp: logs_answer_def run_Inr catch_Inr http_def split: if_splits)
  then obtain scp q prov p where "data = page_json scp q prov p"
    by (auto simp: log_query_def rbind_eq_Inr Let_def)
  then show ?thesis by (simp add: j page_json_def u_def)
qed

lemma authorize_source_sent:
  assumes "authorize_source D source task d = (Inr sc, t)"
  shows "\<exists>i own g req. jget task (u ''id'') = Inr i \<and> jget task (u ''owner'') = Inr own \<and> jget task (u ''generation'') = Inr g
    \<and> req = (u ''/internal/v1/tasks/'' @ str_of_json D i @ u ''/authorize'',
         JObj [(u ''owner'', own), (u ''generation'', g), (u ''tool'', JStr source)])
    \<and> t = d\<lparr>sent := sent d @ [req]\<rparr> \<and> api_reply D t = Ok sc"
  using assms by (auto simp: authorize_source_def post_def run_Inr rbind_eq_Inr http_def split: if_splits reply.splits)

text \<open>Where the answer of \<open>sources\<close> comes from.\<close>

lemma sources_answer:
  assumes "sources D source b d = (Inr j, t)"
  obtains task sc d' n cursor where "jget b (u ''task'') = Inr task" "source \<in> set source_names"
    "authorize_source D source task d = (Inr sc, d')" "n \<le> 100"
    "source = u ''logs'' \<and> logs_answer D sc n cursor d' = (Inr j, t)
     \<or> source \<noteq> u ''logs'' \<and> (\<exists>extra rs d''. (rs \<noteq> [] \<longrightarrow> jget sc (u ''service'') = Inr (JStr (u ''svc-17'')))
         \<and> d'' = d' \<and> extra \<in> {[], [(u ''provenance'', JStr (u ''local-demo''))]}
         \<and> records_answer D sc n extra rs d'' = (Inr j, t))"
proof -
  from assms obtain task sc d' cursor m where "jget b (u ''task'') = Inr task" "source \<in> set source_names"
    "authorize_source D source task d = (Inr sc, d')"
    and rest: "(bnd (config (u ''unavailable'') []) (\<lambda>off.
       if off = source then http 503 (u ''source_unavailable'')
       else if source = u ''logs'' then logs_answer D sc (min 100 m) cursor
       else if source = u ''cluster'' then bnd (cluster_records D sc) (records_answer D sc (min 100 m) [])
       else bnd (related_records D source sc)
            (records_answer D sc (min 100 m) [(u ''provenance'', JStr (u ''local-demo''))]))) d' = (Inr j, t)"
    unfolding sources_def by (auto simp: run_Inr Let_def http_def split: if_splits)
  moreover have "source = u ''logs'' \<and> logs_answer D sc (min 100 m) cursor d' = (Inr j, t)
     \<or> source \<noteq> u ''logs'' \<and> (\<exists>extra rs d''. (rs \<noteq> [] \<longrightarrow> jget sc (u ''service'') = Inr (JStr (u ''svc-17'')))
         \<and> d'' = d' \<and> extra \<in> {[], [(u ''provenance'', JStr (u ''local-demo''))]}
         \<and> records_answer D sc (min 100 m) extra rs d'' = (Inr j, t))"
  proof (cases "source = u ''logs''")
    case True
    with rest show ?thesis by (auto simp: run_Inr config_def http_def split: if_splits)
  next
    case False
    show ?thesis
    proof (cases "source = u ''cluster''")
      case True
      with rest obtain rs e where rs: "cluster_records D sc d' = (Inr rs, e)" "records_answer D sc (min 100 m) [] rs e = (Inr j, t)"
        by (auto simp: run_Inr config_def http_def split: if_splits)
      moreover have "e = d'" by (rule reads_onlyD[OF reads_cluster rs(1)])
      ultimately show ?thesis using False cluster_records_scope[OF rs(1)]
        by (intro disjI2 conjI exI[of _ "[]"] exI[of _ rs] exI[of _ e]) simp_all
    next
      case other: False
      with False rest obtain rs e where rs: "related_records D source sc d' = (Inr rs, e)"
        "records_answer D sc (min 100 m) [(u ''provenance'', JStr (u ''local-demo''))] rs e = (Inr j, t)"
        by (auto simp: run_Inr config_def http_def split: if_splits)
      moreover have "e = d'" by (rule reads_onlyD[OF reads_related rs(1)])
      ultimately show ?thesis using False related_records_scope[OF rs(1)]
        by (intro disjI2 conjI exI[of _ "[(u ''provenance'', JStr (u ''local-demo''))]"] exI[of _ rs] exI[of _ e]) simp_all
    qed
  qed
  ultimately show ?thesis using that[of task sc d' "min 100 m" cursor] by simp
qed

text \<open>A system with one seeded deployment and an API that grants every request.\<close>

definition sample_demo_env :: demo_env where
  "sample_demo_env = \<lparr>demo_key = u ''k'', demo_password = u ''p'', issuer = [], worker_key = [], observe_ns = [],
     seed_database = True, public_key = JNull, jwt_encode = (\<lambda>_. []), unix_time = (\<lambda>_. 0), time_ns = (\<lambda>_. u ''1''),
     db_time = (\<lambda>_. 5), iso_now = (\<lambda>_. []),
     api_reply = (\<lambda>_. Ok (JObj [(u ''service'', JStr (u ''svc-17'')), (u ''start'', JStr (u ''a'')),
        (u ''end'', JStr (u ''b'')), (u ''watermark'', JInt 1)])),
     k8s_reply = (\<lambda>_ _. NoReply), git_out = (\<lambda>_ args. Inr (u ''x'')), str_of_json = (\<lambda>_. []),
     int_of_float = (\<lambda>_. Inr 0), is_after = (\<lambda>_ _. Inr False), sql_time = (\<lambda>t. Inr (if t = u ''a'' then 0 else 9)),
     sql_text = (\<lambda>_. []), error_text = (\<lambda>_. []),
     log_engine = \<lparr>fts_match = (\<lambda>_ _. False), scan_order = id, json_text = (\<lambda>_. []), utc_iso = Inr, float_repr = id\<rparr>,
     head_sha = replicate 40 97\<rparr>"

definition empty_demo :: demo where
  "empty_demo = \<lparr>config_table = [], log_table = [], issue_table = [], deployments = [], git_done = [], sent = []\<rparr>"

definition sample_request :: json where
  "sample_request = JObj [(u ''task'', JObj [(u ''id'', JStr (u ''t'')), (u ''owner'', JStr (u ''w'')),
     (u ''generation'', JInt 1)])]"

definition sample_sources :: "json res \<times> demo" where
  "sample_sources = sources sample_demo_env (u ''git'') sample_request (seed sample_demo_env empty_demo)"

lemma sample_sources_run:
  "rbind (fst sample_sources) (\<lambda>j. rbind (jget j (u ''records'')) json_len) = Inr 1"
  by code_simp

section \<open>Properties\<close>

text \<open>
  C34: The sources only read and only for whom the API lets: an answer means that the request's task,
  owner and generation were sent to the API for this very source and granted, that nothing but that
  request has changed, and that the answer carries the granted scope. Records of git, the runbook and
  the cluster are at most a hundred and go to the one service they belong to.
\<close>

theorem sources_authorized:
  assumes "sources D source b d = (Inr j, t)"
  shows "\<exists>task i own g sc. jget b (u ''task'') = Inr task \<and> jget task (u ''id'') = Inr i
      \<and> jget task (u ''owner'') = Inr own \<and> jget task (u ''generation'') = Inr g
      \<and> t = d\<lparr>sent := sent d @ [(u ''/internal/v1/tasks/'' @ str_of_json D i @ u ''/authorize'',
            JObj [(u ''owner'', own), (u ''generation'', g), (u ''tool'', JStr source)])]\<rparr>
      \<and> api_reply D t = Ok sc \<and> jget j (u ''scope'') = Inr sc
      \<and> (source \<noteq> u ''logs'' \<longrightarrow> (\<exists>rs. jget j (u ''records'') = Inr (JList rs) \<and> length rs \<le> 100
            \<and> (rs \<noteq> [] \<longrightarrow> jget sc (u ''service'') = Inr (JStr (u ''svc-17'')))))"
proof -
  from assms obtain task sc d' n cursor where task: "jget b (u ''task'') = Inr task"
    and auth: "authorize_source D source task d = (Inr sc, d')" and n: "n \<le> 100"
    and ans: "source = u ''logs'' \<and> logs_answer D sc n cursor d' = (Inr j, t)
     \<or> source \<noteq> u ''logs'' \<and> (\<exists>extra rs d''. (rs \<noteq> [] \<longrightarrow> jget sc (u ''service'') = Inr (JStr (u ''svc-17'')))
         \<and> d'' = d' \<and> extra \<in> {[], [(u ''provenance'', JStr (u ''local-demo''))]}
         \<and> records_answer D sc n extra rs d'' = (Inr j, t))" by (rule sources_answer)
  have t: "t = d'" using ans reads_onlyD[OF reads_logs] reads_onlyD[OF reads_records] by blast
  have says: "jget j (u ''scope'') = Inr sc \<and> (source \<noteq> u ''logs'' \<longrightarrow> (\<exists>rs. jget j (u ''records'') = Inr (JList rs)
      \<and> length rs \<le> 100 \<and> (rs \<noteq> [] \<longrightarrow> jget sc (u ''service'') = Inr (JStr (u ''svc-17'')))))"
  proof (cases "source = u ''logs''")
    case True
    then show ?thesis using ans logs_answer_says by blast
  next
    case False
    with ans obtain extra rs where rs: "rs \<noteq> [] \<longrightarrow> jget sc (u ''service'') = Inr (JStr (u ''svc-17''))"
      and extra: "extra \<in> {[], [(u ''provenance'', JStr (u ''local-demo''))]}"
      and run: "records_answer D sc n extra rs d' = (Inr j, t)" by blast
    have "map_of extra (u ''scope'') = None" "map_of extra (u ''records'') = None"
      using extra by (auto simp: u_def)
    from records_answer_says[OF run this] rs n show ?thesis by (auto intro!: exI[of _ "take (nat n) rs"])
  qed
  from authorize_source_sent[OF auth] task t says show ?thesis by blast
qed

theorem sources_authorized_witness:
  "\<exists>j t sc. sources sample_demo_env (u ''git'') sample_request (seed sample_demo_env empty_demo) = (Inr j, t)
     \<and> jget j (u ''scope'') = Inr sc \<and> api_reply sample_demo_env t = Ok sc"
proof -
  obtain j t where "sources sample_demo_env (u ''git'') sample_request (seed sample_demo_env empty_demo) = (Inr j, t)"
    using sample_sources_run by (cases sample_sources; cases "fst sample_sources") (auto simp: sample_sources_def)
  with sources_authorized[OF this] show ?thesis by blast
qed

end
