(* ===== verification/Routing.thy ===== *)
theory Routing
  imports Json_Parse Regex Pydantic
begin

text \<open>
  \<^verbatim>\<open>query/app/api/routers/routing.py\<close>: the conversational front door. A model classifies the user's
  text; what it says is validated, corrected where it has no history to rely on, and turned into a
  decision with exactly one filled field. The model, its schema and pydantic's reading of a boolean
  are parameters.
\<close>

section \<open>Requests and decisions\<close>

datatype role = User | Assistant

record Turn =
  t_role :: role
  t_content :: str

record RouteRequest =
  rq_text :: str
  rq_history :: "Turn list"
  rq_capabilities :: str
  rq_anchor :: "bool option"

definition wf_Turn :: "Turn \<Rightarrow> bool" where
  "wf_Turn t \<longleftrightarrow> 1 \<le> length (t_content t) \<and> length (t_content t) \<le> 2000"

definition wf_RouteRequest :: "RouteRequest \<Rightarrow> bool" where
  "wf_RouteRequest b \<longleftrightarrow> 1 \<le> length (rq_text b) \<and> length (rq_text b) \<le> 2000 \<and> length (rq_history b) \<le> 12
     \<and> list_all wf_Turn (rq_history b) \<and> length (rq_capabilities b) \<le> 8000"

datatype kind = Warehouse | Investigation | Clarify | Answer | Context

fun kind_name :: "kind \<Rightarrow> str" where
  "kind_name Warehouse = u ''warehouse''"
| "kind_name Investigation = u ''investigation''"
| "kind_name Clarify = u ''clarification''"
| "kind_name Answer = u ''answer''"
| "kind_name Context = u ''context''"

record Decision =
  de_kind :: kind
  de_clarification :: str
  de_answer :: str
  de_question :: str
  de_reset :: bool

record ModelDecision =
  md_kind :: kind
  md_content :: str
  md_reset :: bool

record router =
  rt_llm :: "(str \<times> str) list \<Rightarrow> json \<Rightarrow> str res"
  rt_schema :: json
  rt_bool :: "json \<Rightarrow> bool res"
  rt_float :: "str \<Rightarrow> str"

text \<open>The validator \<open>meaningful\<close>: the field the kind asks for is not blank.\<close>

definition chosen_field :: "Decision \<Rightarrow> str" where
  "chosen_field d = (case de_kind d of Answer \<Rightarrow> de_answer d | Clarify \<Rightarrow> de_clarification d | _ \<Rightarrow> de_question d)"

definition validate_decision :: "Decision \<Rightarrow> Decision res" where
  "validate_decision d =
     (if de_kind d = Context \<or> length (de_clarification d) > 2000 \<or> length (de_answer d) > 2000
         \<or> length (de_question d) > 2000 \<or> strip (chosen_field d) = []
      then Inl ValidationError else Inr d)"

text \<open>\<open>reset_context\<close> has a default, the other two keys are required.\<close>

definition parse_kind :: "json \<Rightarrow> kind res" where
  "parse_kind j = (case find (\<lambda>k. j = JStr (kind_name k)) [Warehouse, Investigation, Clarify, Answer, Context] of
     None \<Rightarrow> Inl ValidationError | Some k \<Rightarrow> Inr k)"

definition parse_model_decision :: "router \<Rightarrow> json \<Rightarrow> ModelDecision res" where
  "parse_model_decision R j = (case j of
     JObj d \<Rightarrow>
       if \<not> {u ''kind'', u ''content''} \<subseteq> fst ` set d
          \<or> \<not> fst ` set d \<subseteq> {u ''kind'', u ''content'', u ''reset_context''} then Inl ValidationError
       else rbind (parse_kind (dict_get d (u ''kind'') JNull)) (\<lambda>k.
            rbind (bounded_text 2000 (dict_get d (u ''content'') JNull)) (\<lambda>t.
            rbind (if t = [] then Inl ValidationError else Inr ()) (\<lambda>_.
            rbind (rt_bool R (dict_get d (u ''reset_context'') (JBool False))) (\<lambda>r.
            Inr \<lparr>md_kind = k, md_content = t, md_reset = r\<rparr>))))
   | _ \<Rightarrow> Inl ValidationError)"

section \<open>The prompt\<close>

definition SYSTEM :: str where
  "SYSTEM = join [10] [
     ([20320, 26159] @ u '' IncidentDesk '' @ [21161, 25163, 65288] @ u ''Mistral'' @
      [65289, 12290, 29702, 35299, 23436, 25972, 35821, 20041, 65292, 22238, 31572,
      38382, 39064, 25110, 35843, 29992, 26597, 35810, 24037, 20855, 12290]),
     ([36755, 20986] @ u '' JSON '' @ [19977, 20010, 23383, 27573] @ u '' kind'' @ [12289]
      @ u ''content'' @ [12289] @ u ''reset_context'' @ [65288, 24067, 23572, 20540,
      65289, 65306]),
     (u ''- context'' @ [65306, 29992, 25143, 21482, 22312, 31649, 29702, 21518, 32493,
      23545, 35805, 26465, 20214, 65292, 20363, 22914, 35201, 27714, 24536, 25481,
      26087, 26597, 35810, 65292, 25110, 30830, 35748, 20445, 30041, 26465, 20214,
      65292, 24182, 27809, 26377, 35201, 27714, 29616, 22312, 37325, 26032, 26597,
      35810, 12290] @ u ''content '' @ [26159, 31616, 30701, 30830, 35748, 65307,
      21482, 26377, 26126, 30830, 35201, 27714, 24536, 35760, 26102] @ u ''
      reset_context=true'' @ [12290, 20248, 20808, 35782, 21035, 36825, 31181, 24847,
      22270, 65292, 19981, 35843, 29992, 24037, 20855, 12290]),
     (u ''- answer'' @ [65306, 30452, 25509, 22238, 31572, 38382, 20505, 12289, 36523,
      20221, 12289, 21151, 33021, 20171, 32461, 12289, 20351, 29992, 26041, 27861,
      12289, 19968, 33324, 30693, 35782, 12289, 27010, 24565, 35299, 37322, 12289,
      32763, 35793, 12289, 20889, 20316, 12289, 32534, 31243, 24314, 35758, 12290] @ u
      ''content '' @ [26159, 22238, 31572, 12290, 19981, 35201, 22240, 38382, 39064,
      19982, 19994, 21153, 26080, 20851, 23601, 25298, 31572, 12290, 36890, 24120,
      19981, 36229, 36807] @ u ''600'' @ [23383, 65292, 26368, 22810] @ u ''1500'' @
      [23383, 12290]),
     (u ''- warehouse'' @ [65306, 35835, 21462, 23454, 38469, 30005, 21830, 19994, 21153,
      25968, 25454, 12290] @ u ''content '' @ [26159, 21253, 21547, 25351, 26631,
      12289, 26102, 38388, 12289, 31579, 36873, 26465, 20214, 30340, 23436, 25972,
      29420, 31435, 26597, 35810, 38382, 39064, 65292, 19981, 26159, 31572, 26696,
      12290]),
     (u ''- investigation'' @ [65306, 26597, 23454, 38469, 26381, 21153, 26085, 24535,
      12289, 25925, 38556, 35777, 25454, 12289, 20195, 30721, 20301, 32622, 25110,
      36816, 34892, 25163, 20876, 12290] @ u ''content '' @ [26159, 23436, 25972,
      29420, 31435, 26597, 35810, 38382, 39064, 12290]),
     (u ''- clarification'' @ [65306, 38656, 27714, 30830, 23454, 19981, 26126, 30830,
      26102, 65292] @ u ''content '' @ [21482, 38382, 24517, 35201, 30340, 32570,
      22833, 20449, 24687, 12290]),
     [],
     ([35268, 21017, 65306]),
     (u ''1. '' @ [38144, 21806, 39069] @ u ''=GMV'' @ [65307, 23458, 21333, 20215] @ u
      ''=AOV'' @ [12290, 19981, 22240, 25552, 21040, 38144, 21806, 12289, 20195,
      30721, 12289, 26085, 24535, 31561, 20851, 38190, 35789, 23601, 26597, 35810,
      12290, 19981, 35201, 23545, 26126, 30830, 30340, 25351, 26631, 21453, 22797,
      30830, 35748, 12290]),
     (u ''2. '' @ [26597, 35810, 26435, 38480, 30001, 21518, 31471, 26816, 26597, 12290,
      21363, 20351, 30446, 24405, 25552, 31034, 27809, 26377, 26435, 38480, 65292,
      26126, 30830, 26597, 25968, 20173, 36820, 22238] @ u '' warehouse'' @ [65292,
      19981, 25913, 25104, 36861, 38382, 25110, 20854, 20182, 26381, 21153, 26597,
      35810, 12290, 30446, 24405, 21482, 29992, 20110, 20934, 30830, 22238, 31572,
      33021, 21147, 20171, 32461, 12290]),
     (u ''3. '' @ [21033, 29992, 26368, 36817, 23545, 35805, 32487, 25215, 26102, 38388,
      12289, 22320, 21306, 12289, 25351, 26631, 21644, 36755, 20986, 35201, 27714,
      65288, 21482, 36820, 22238, 37329, 39069, 12289, 21015, 21517, 12289, 25490,
      24207, 12289, 21069] @ u ''N'' @ [21517, 12289, 31934, 24230, 65289, 65292,
      36861, 38382, 21482, 26367, 25442, 29992, 25143, 26126, 30830, 20462, 25913,
      30340, 26465, 20214, 12290, 25764, 38144, 22320, 21306, 38480, 21046, 23601,
      21024, 38500, 22320, 21306, 26465, 20214, 65307, 25442, 25351, 26631, 20063,
      35201, 20445, 30041, 21407, 26376, 20221, 12290, 19981, 35201, 20002, 25481,
      8220, 21482, 36820, 22238, 8221, 35201, 27714, 12290, 36861, 38382, 34917,
      40784, 21518, 30452, 25509, 25191, 34892, 65292, 19981, 35201, 27714, 20877,
      30830, 35748, 12290, 29420, 31435, 26032, 35805, 39064, 19981, 32487, 25215,
      26087, 26465, 20214, 12290, 29992, 25143, 26126, 30830, 26597, 35810, 8220,
      20840, 37096, 21487, 29992, 35746, 21333, 8221, 19988, 27809, 26377, 26102,
      38388, 38480, 21046, 26102, 65292, 19981, 35201, 26681, 25454, 33021, 21147,
      30446, 24405, 25797, 33258, 28155, 21152, 24180, 20221, 25110, 26085, 26399,
      21306, 38388, 12290]),
     (u ''4. '' @ [26126, 30830, 25351, 26631, 20294, 27809, 26102, 38388, 21487, 26597,
      20840, 37096, 21487, 29992, 25968, 25454, 65307, 20445, 30041, 29992, 25143,
      26126, 30830, 24180, 20221, 25110, 8220, 20170, 24180] @ u ''/'' @ [21435,
      24180, 8221, 30340, 21547, 20041, 12290, 19981, 33021, 23558, 20170, 24180,
      20599, 25442, 25104] @ u ''2025'' @ [24180, 12290, 26126, 30830, 26597, 35810,
      21363, 20351, 26102, 38388, 36229, 20986, 25968, 25454, 35206, 30422, 65288,
      20363, 22914] @ u ''2026'' @ [24180] @ u ''9'' @ [26376, 35746, 21333, 65289,
      65292, 20063, 24517, 39035, 36820, 22238] @ u '' warehouse '' @ [35753, 25968,
      25454, 24211, 36820, 22238, 31354, 32467, 26524, 65292, 19981, 35201, 27714,
      25442, 26102, 38388, 12290, 32570, 23569, 25104, 26412] @ u ''/'' @ [21033,
      28070, 31561, 23383, 27573, 20132, 26597, 35810, 38142, 36335, 26680, 23545,
      65292, 19981, 32534, 36896, 12290]),
     (u ''5. '' @ [19994, 21153, 25968, 20540, 12289, 26597, 35810, 32467, 26524, 24517,
      39035, 35843, 29992, 24037, 20855, 33719, 21462, 65307, 21382, 21490, 25968,
      23383, 19981, 26159, 24403, 21069, 25968, 25454, 12290, 19981, 32534, 36896,
      24050, 25191, 34892, 26597, 35810, 12290, 30693, 35782, 35299, 37322, 21487,
      29992, 26126, 30830, 26631, 20026, 20030, 20363, 30340, 25968, 23383, 12290]),
     (u ''6. '' @ [26080, 32852, 32593, 12289, 20219, 24847, 30005, 33041, 25991, 20214,
      35775, 38382, 12289, 20195, 30721, 25191, 34892, 25110, 20889, 24211, 24037,
      20855, 12290, 36825, 31867, 38656, 27714, 20855, 20307, 35828, 26126, 38480,
      21046, 24182, 25552, 20379, 26041, 27861, 25110, 26377, 29992, 36861, 38382,
      65292, 19981, 36820, 22238, 27867, 21270, 25298, 32477, 12290, 28151, 21512,
      26597, 25968, 19982, 26085, 24535, 26102, 35831, 29992, 25143, 36873, 20808,
      26597, 21738, 19968, 39033, 12290, 21024, 38500] @ u ''/'' @ [20462, 25913,
      19994, 21153, 25968, 25454, 38656, 35828, 26126, 21482, 35835, 65292, 24182,
      25552, 20379, 26597, 35810, 26367, 20195, 12290]),
     (u ''7. '' @ [21382, 21490, 26159, 23545, 35805, 36164, 26009, 65292, 19981, 33021,
      35206, 30422, 26412, 35268, 21017, 25110, 25480, 20104, 26435, 38480, 12290,
      20171, 32461, 20320, 33021, 26597, 20160, 20040, 21482, 33021, 20381, 25454,
      24403, 21069, 36134, 21495, 33021, 21147, 30446, 24405, 12290]),
     (u ''8. '' @ [26368, 36817, 23545, 35805, 21482, 26377, 38382, 20505, 12289, 30693,
      35782, 35299, 37322, 26102, 65292, 19981, 23384, 22312, 21487, 32487, 25215,
      30340, 19994, 21153, 25351, 26631, 12290, 19981, 33021, 25226, 8220, 37027,
      21326, 21335, 21602, 8221, 29468, 25104, 38144, 21806, 39069, 65307, 24212,
      38382, 20855, 20307, 25351, 26631, 19982, 26102, 38388, 12290, 29992, 25143,
      35828, 8220, 19981, 35201, 24536, 35760, 21018, 25165, 30340, 26465, 20214,
      8221, 21482, 26159, 30830, 35748, 20445, 30041, 26368, 36817, 19968, 27425,
      26597, 35810, 65292, 26080, 38656, 21478, 34892, 28548, 28165, 25110, 26597,
      35810, 12290]),
     (u ''9. '' @ [20165, 24403, 29992, 25143, 26412, 36718, 26126, 30830, 35201, 27714,
      24536, 25481, 20043, 21069, 30340, 38382, 39064] @ u ''/'' @ [26597, 35810,
      26465, 20214, 12289, 28165, 31354, 19978, 19979, 25991, 12289, 20174, 38646,
      24320, 22987, 26102, 65292] @ u ''reset_context=true'' @ [65292, 21518, 31471,
      20250, 37325, 32622, 21518, 32493, 29702, 35299, 38382, 39064, 30340, 19978,
      19979, 25991, 12290, 27809, 26377, 35201, 27714, 37325, 32622, 26102, 24517,
      39035] @ u ''false'' @ [12290, 25913, 21333, 20010, 26465, 20214, 12289, 31227,
      38500, 26576, 20010, 31579, 36873, 12289, 26222, 36890, 38386, 32842, 25110,
      30693, 35782, 35299, 37322, 37117, 19981, 26159, 37325, 32622, 12290, 37325,
      32622, 21518, 38656, 35201, 26032, 38656, 27714, 65306, 21482, 35201, 27714,
      37325, 32622, 23601] @ u ''context'' @ [35828, 26126, 19981, 20877, 27839,
      29992, 26087, 26465, 20214, 65292, 20294, 21382, 21490, 35760, 24405, 20173,
      20445, 30041, 65307, 24102, 23436, 25972, 26032, 38382, 39064, 23601, 25353,
      26032, 38382, 39064, 36335, 30001, 12290, 19981, 33021, 22768, 31216, 21024,
      38500, 20102, 32842, 22825, 35760, 24405, 12289, 19994, 21153, 25968, 25454,
      25110, 25913, 21464, 26435, 38480, 12290]),
     [],
     ([31034, 20363, 65288, 20998, 31867, 30001, 35821, 20041, 20915, 23450, 65292, 19981,
      26159, 20851, 38190, 35789, 21305, 37197, 65289, 65306]),
     ([8220, 20320, 26159, 35841, 8221, 8220, 20320, 22909, 8221, 8220, 20320, 33021,
      26597, 21738, 20123, 19994, 21153, 25968, 25454, 65311, 8221] @ u '' '' @ [8594]
      @ u '' answer'' @ [65292, 20171, 32461, 33258, 24049, 25110, 24403, 21069,
      33021, 21147, 12290]),
     ([8220, 23458, 21333, 20215, 26159, 20160, 20040, 24847, 24605, 65311, 8221] @ u '' ''
      @ [8594] @ u '' answer'' @ [65292, 35299, 37322, 20844, 24335, 12290]),
     ([8220, 38144, 21806, 39069, 21644, 21033, 28070, 21306, 21035, 8221, 8220, 24590,
      20040, 25490, 26597, 36229, 26102, 8221, 8220, 20889, 25490, 24207, 20195,
      30721, 8221] @ u '' '' @ [8594] @ u '' answer'' @ [65292, 19968, 33324, 30693,
      35782, 12290]),
     ([8220] @ u ''2025'' @ [24180, 19968, 23395, 24230, 23458, 21333, 20215, 22810, 23569,
      8221] @ u '' '' @ [8594] @ u '' warehouse'' @ [65292] @ u ''content='' @ [8220,
      26597, 35810] @ u ''2025'' @ [24180, 31532, 19968, 23395, 24230, 30340, 23458,
      21333, 20215, 8221, 12290]),
     ([8220, 21508, 22320, 21306, 38144, 21806, 39069, 8221] @ u '' '' @ [8594] @ u ''
      warehouse'' @ [65292] @ u ''content='' @ [8220, 32479, 35745, 20840, 37096,
      21487, 29992, 35746, 21333, 21508, 22320, 21306, 38144, 21806, 39069, 8221,
      12290]),
     ([8220, 38144, 21806, 24590, 20040, 26679, 8221, 27809, 26377, 19978, 19979, 25991] @
      u '' '' @ [8594] @ u '' clarification'' @ [65292, 38382, 26102, 38388, 21644,
      25351, 26631, 12290]),
     ([19978, 19968, 36718, 38382, 38144, 21806, 26102, 38388] @ u ''/'' @ [25351, 26631,
      65292, 26412, 36718, 8220, 23601, 26597] @ u ''2025'' @ [24180, 31532, 19968,
      23395, 24230, 21508, 22320, 21306, 38144, 21806, 39069, 65292, 25353, 37329,
      39069, 20174, 39640, 21040, 20302, 8221] @ u '' '' @ [8594] @ u '' warehouse'' @
      [65292] @ u ''content='' @ [8220] @ u ''2025'' @ [24180, 31532, 19968, 23395,
      24230, 21508, 22320, 21306, 38144, 21806, 39069, 65292, 25353, 37329, 39069,
      20174, 39640, 21040, 20302, 25490, 24207, 8221, 12290]),
     ([19978, 19968, 36718, 26597] @ u ''2025'' @ [24180, 31532, 19968, 23395, 24230,
      21508, 22320, 21306, 38144, 21806, 39069, 65292, 26412, 36718, 8220, 37027,
      21326, 19996, 21602, 8221] @ u '' '' @ [8594] @ u '' warehouse'' @ [65292] @ u
      ''content='' @ [8220] @ u ''2025'' @ [24180, 31532, 19968, 23395, 24230, 21326,
      19996, 22320, 21306, 38144, 21806, 39069, 8221, 12290]),
     ([19978, 19968, 36718, 26597] @ u ''2025'' @ [24180, 31532, 19968, 23395, 24230,
      21326, 19996, 38144, 21806, 39069, 65292, 26412, 36718, 8220, 25913, 25104,
      20108, 26376, 8221] @ u '' '' @ [8594] @ u '' warehouse'' @ [65292] @ u
      ''content='' @ [8220] @ u ''2025'' @ [24180] @ u ''2'' @ [26376, 21326, 19996,
      22320, 21306, 38144, 21806, 39069, 8221, 12290]),
     ([19978, 19968, 36718, 8220] @ u ''2025'' @ [24180] @ u ''1'' @ [26376, 21326, 19996,
      38144, 21806, 39069, 65292, 21482, 36820, 22238, 37329, 39069, 8221, 65292,
      26412, 36718, 8220, 25442, 25104, 21326, 21335, 65292, 20854, 20182, 19981,
      21464, 8221] @ u '' '' @ [8594] @ u '' warehouse'' @ [65292] @ u ''content='' @
      [8220] @ u ''2025'' @ [24180] @ u ''1'' @ [26376, 21326, 21335, 38144, 21806,
      39069, 65292, 21482, 36820, 22238, 37329, 39069, 8221, 12290]),
     ([21516, 19968, 19978, 25991, 65292, 26412, 36718, 8220, 19981, 38480, 21046, 22320,
      21306, 20102, 8221] @ u '' '' @ [8594] @ u '' warehouse'' @ [65292] @ u
      ''content='' @ [8220] @ u ''2025'' @ [24180] @ u ''1'' @ [26376, 20840, 22269,
      38144, 21806, 39069, 65292, 21482, 36820, 22238, 37329, 39069, 8221, 12290]),
     ([21516, 19968, 19978, 25991, 65292, 26412, 36718, 8220, 25913, 26597, 35746, 21333,
      25968, 65292, 20854, 20182, 19981, 21464, 8221] @ u '' '' @ [8594] @ u ''
      warehouse'' @ [65292] @ u ''content='' @ [8220] @ u ''2025'' @ [24180] @ u ''1''
      @ [26376, 21326, 19996, 22320, 21306, 30340, 35746, 21333, 25968, 65292, 21482,
      36820, 22238, 35746, 21333, 25968, 8221, 12290]),
     ([26080, 35770, 19978, 19968, 36718, 26597, 35810, 20102, 20160, 20040, 65292, 26412,
      36718, 8220, 21478, 19968, 20010, 38382, 39064, 65306, 32479, 35745, 20840,
      37096, 21487, 29992, 35746, 21333, 30340, 24635, 25968, 65292, 21482, 36820,
      22238, 35746, 21333, 25968, 8221] @ u '' '' @ [8594] @ u '' warehouse'' @
      [65292] @ u ''content='' @ [8220, 32479, 35745, 20840, 37096, 21487, 29992,
      35746, 21333, 30340, 24635, 25968, 65292, 19981, 38480, 21046, 26102, 38388,
      25110, 22320, 21306, 65292, 21482, 36820, 22238, 35746, 21333, 25968, 8221,
      12290]),
     ([27809, 26377, 19978, 19979, 25991, 30340, 8220, 37027, 21326, 19996, 21602, 8221] @
      u '' '' @ [8594] @ u '' clarification'' @ [65292, 38382, 25351, 26631, 21644,
      26102, 38388, 12290]),
     ([8220, 26597, 35746, 21333, 26381, 21153, 26368, 36817] @ u ''24'' @ [23567, 26102,
      36229, 26102, 26085, 24535, 8221] @ u '' '' @ [8594] @ u '' investigation'' @
      [12290]),
     ([8220, 24536, 25481, 21018, 25165, 30340, 38382, 39064, 65292, 20174, 38646, 24320,
      22987, 8221] @ u '' '' @ [8594] @ u '' context'' @ [65292] @ u
      ''reset_context=true'' @ [65292, 30830, 35748, 19981, 20877, 27839, 29992,
      26087, 26465, 20214, 65292, 21382, 21490, 35760, 24405, 20445, 30041, 12290]),
     ([8220, 19981, 35201, 24536, 25481, 21018, 25165, 30340, 26597, 35810, 26465, 20214,
      65292, 25509, 19979, 26469, 30340, 36861, 38382, 32487, 32493, 27839, 29992,
      8221] @ u '' '' @ [8594] @ u '' context'' @ [65292] @ u ''reset_context=false''
      @ [65292, 21482, 30830, 35748, 32487, 32493, 20445, 30041, 65292, 19981, 37325,
      22797, 26597, 35810, 12290]),
     ([8220, 20445, 30041, 21018, 25165, 26465, 20214, 65292, 37325, 26032, 25191, 34892,
      19968, 27425, 26597, 35810, 8221] @ u '' '' @ [8594] @ u '' warehouse '' @
      [25110] @ u '' investigation'' @ [65292] @ u ''reset_context=false'' @ [65292,
      26126, 30830, 35201, 27714, 25191, 34892, 25152, 20197, 24212, 35843, 29992,
      24037, 20855, 12290]),
     []]"

definition role_name :: "role \<Rightarrow> str" where
  "role_name r = (case r of User \<Rightarrow> u ''human'' | Assistant \<Rightarrow> u ''ai'')"

definition route_messages :: "RouteRequest \<Rightarrow> (str \<times> str) list" where
  "route_messages b = (u ''system'', SYSTEM @ [10] @ ([24403, 21069, 36134, 21495, 33021, 21147, 30446, 24405, 65306]) @ [10] @ rq_capabilities b)
     # map (\<lambda>t. (role_name (t_role t), t_content t)) (rq_history b) @ [(u ''human'', rq_text b)]"

definition route_format :: "router \<Rightarrow> json" where
  "route_format R = JObj [(u ''type'', JStr (u ''json_schema'')),
     (u ''json_schema'', JObj [(u ''name'', JStr (u ''query_route'')), (u ''schema'', rt_schema R), (u ''strict'', JBool True)])]"

section \<open>Corrections\<close>

text \<open>A text that begins by referring back.\<close>

definition refers_back :: re where
  "refers_back = Cat AtStart (alts (map lit [([37027]), ([37027, 20040]), ([25913, 25104]), ([25442, 25104]), ([32487, 32493]), ([20877, 26469]), ([36825, 20010]), ([37027, 20010]), ([19978, 38754])]))"

definition names_subject :: re where
  "names_subject = alts (map lit [([38144, 21806]), ([38144, 37327]), ([37329, 39069]), ([23458, 21333, 20215]), ([35746, 21333]), ([23458, 25143]), ([21830, 21697]), ([26085, 24535]), ([26381, 21153]),
     ([37197, 32622]), ([25991, 20214])] @ [lit_ci (u ''gmv''), lit_ci (u ''aov'')])"

definition names_business :: re where
  "names_business = alts [lit ([38144, 21806]), lit ([35746, 21333]), lit_ci (u ''gmv''), lit_ci (u ''aov''), lit ([23458, 21333, 20215])]"

definition names_logs :: re where
  "names_logs = alts (map lit [([26085, 24535]), ([25925, 38556]), ([25253, 38169])])"

definition joins_both :: re where
  "joins_both = alts (map lit [([21516, 26102]), ([20197, 21450]), ([21644]), ([24182, 19988])])"

definition no_anchor :: "RouteRequest \<Rightarrow> bool" where
  "no_anchor b \<longleftrightarrow> (rq_history b = [] \<or> rq_anchor b = Some False) \<and> search refers_back (strip (rq_text b))
     \<and> \<not> search names_subject (rq_text b)"

definition needs_context :: str where
  "needs_context = ([36824, 27809, 26377, 19978, 25991, 21487, 20379, 21442, 32771, 12290, 20320, 24819,
      26597, 35810, 20160, 20040, 25351, 26631, 25110, 20869, 23481, 12289, 21738,
      20010, 26102, 38388, 33539, 22260, 65311, 20363, 22914, 8220] @ u ''2025'' @
      [24180, 31532, 19968, 23395, 24230, 21326, 19996, 22320, 21306, 38144, 21806,
      39069, 8221, 12290])"

definition one_at_a_time :: str where
  "one_at_a_time = ([36825, 20010, 38382, 39064, 21253, 21547, 19994, 21153, 25968, 25454, 21644, 26085,
      24535, 20004, 39033, 26597, 35810, 12290, 20320, 24076, 26395, 20808, 26597,
      19994, 21153, 25968, 25454, 65292, 36824, 26159, 20808, 26597, 26381, 21153,
      26085, 24535, 65311, 36873, 23450, 21518, 25105, 20250, 32487, 32493, 30830,
      35748, 38656, 35201, 30340, 26102, 38388, 21644, 33539, 22260, 12290])"

text \<open>Managing the context is an answer.\<close>

definition settle_context :: "ModelDecision \<Rightarrow> ModelDecision" where
  "settle_context d = (if md_kind d = Context then d\<lparr>md_kind := Answer\<rparr> else d)"

definition settle_anchor :: "RouteRequest \<Rightarrow> ModelDecision \<Rightarrow> ModelDecision" where
  "settle_anchor b d = (if md_kind d \<in> {Warehouse, Investigation} \<and> no_anchor b
     then \<lparr>md_kind = Clarify, md_content = needs_context, md_reset = False\<rparr> else d)"

definition settle_both :: "RouteRequest \<Rightarrow> ModelDecision \<Rightarrow> ModelDecision" where
  "settle_both b d = (if md_kind d = Clarify \<and> search names_business (rq_text b) \<and> search names_logs (rq_text b)
       \<and> search joins_both (rq_text b)
     then d\<lparr>md_content := one_at_a_time\<rparr> else d)"

definition fields_of :: "ModelDecision \<Rightarrow> Decision" where
  "fields_of d = (let z = \<lparr>de_kind = md_kind d, de_clarification = [], de_answer = [], de_question = [], de_reset = md_reset d\<rparr> in
     case md_kind d of Answer \<Rightarrow> z\<lparr>de_answer := md_content d\<rparr> | Clarify \<Rightarrow> z\<lparr>de_clarification := md_content d\<rparr>
     | _ \<Rightarrow> z\<lparr>de_question := md_content d\<rparr>)"

definition route_question :: "router \<Rightarrow> RouteRequest \<Rightarrow> Decision res" where
  "route_question R b =
     rbind (rt_llm R (route_messages b) (route_format R)) (\<lambda>content.
     rbind (loads (rt_float R) content) (\<lambda>j.
     rbind (parse_model_decision R j) (\<lambda>d.
     validate_decision (fields_of (settle_both b (settle_anchor b (settle_context d)))))))"

section \<open>Properties\<close>

lemma needs_context_text: "length needs_context \<le> 2000 \<and> strip needs_context \<noteq> []"
  by code_simp

lemma one_at_a_time_text: "length one_at_a_time \<le> 2000"
  by code_simp

lemma route_question_Inr:
  assumes "route_question R b = Inr d"
  obtains m where "validate_decision (fields_of (settle_both b (settle_anchor b m))) = Inr d" "md_kind m \<noteq> Context"
  using assms unfolding route_question_def by (auto simp: rbind_eq_Inr settle_context_def)

lemma validate_decision_Inr:
  "validate_decision d = Inr d' \<longleftrightarrow> d' = d \<and> de_kind d \<noteq> Context \<and> length (de_clarification d) \<le> 2000
     \<and> length (de_answer d) \<le> 2000 \<and> length (de_question d) \<le> 2000 \<and> strip (chosen_field d) \<noteq> []"
  by (auto simp: validate_decision_def)

text \<open>
  C35: Every decision that leaves the router is well typed whatever the model said: its kind is one of
  the four the Go API knows, the field of that kind is filled and not blank, the other two are empty,
  and none is over 2000 characters. And a text that only refers back, without a saved query to refer
  to and without naming a subject, never starts a query or an investigation.
\<close>

theorem route_decision_typed:
  assumes "route_question R b = Inr d"
  shows "de_kind d \<in> {Warehouse, Investigation, Clarify, Answer} \<and> strip (chosen_field d) \<noteq> []
    \<and> (de_kind d \<noteq> Answer \<longrightarrow> de_answer d = []) \<and> (de_kind d \<noteq> Clarify \<longrightarrow> de_clarification d = [])
    \<and> (de_kind d \<in> {Answer, Clarify} \<longrightarrow> de_question d = [])
    \<and> length (de_answer d) \<le> 2000 \<and> length (de_clarification d) \<le> 2000 \<and> length (de_question d) \<le> 2000
    \<and> (no_anchor b \<longrightarrow> de_kind d \<in> {Clarify, Answer})"
proof -
  from assms obtain m where v: "validate_decision (fields_of (settle_both b (settle_anchor b m))) = Inr d"
    and m: "md_kind m \<noteq> Context" by (rule route_question_Inr)
  let ?m = "settle_both b (settle_anchor b m)"
  have k: "md_kind ?m \<noteq> Context" "no_anchor b \<Longrightarrow> md_kind ?m \<notin> {Warehouse, Investigation}"
    using m by (auto simp: settle_both_def settle_anchor_def)
  from v have d: "d = fields_of ?m" "strip (chosen_field d) \<noteq> []" "length (de_answer d) \<le> 2000"
    "length (de_clarification d) \<le> 2000" "length (de_question d) \<le> 2000"
    unfolding validate_decision_Inr by auto
  have f: "de_kind d = md_kind ?m" "de_kind d \<noteq> Answer \<Longrightarrow> de_answer d = []"
    "de_kind d \<noteq> Clarify \<Longrightarrow> de_clarification d = []" "de_kind d \<in> {Answer, Clarify} \<Longrightarrow> de_question d = []"
    unfolding d(1) by (cases "md_kind ?m"; simp add: fields_of_def Let_def)+
  show ?thesis using d(2-5) f k by (cases "md_kind ?m") auto
qed

definition sample_router :: router where
  "sample_router = \<lparr>rt_llm = (\<lambda>_ _. Inr (dumps False (JObj [(u ''kind'', JStr (u ''warehouse'')), (u ''content'', JStr (u ''x''))]))),
     rt_schema = JNull, rt_bool = (\<lambda>j. Inr (truthy j)), rt_float = id\<rparr>"

definition sample_turn :: RouteRequest where
  "sample_turn = \<lparr>rq_text = ([37027, 21326, 21335, 21602]), rq_history = [], rq_capabilities = [], rq_anchor = None\<rparr>"

lemma sample_route: "rbind (route_question sample_router sample_turn) (\<lambda>d. Inr (de_question d)) = Inr []"
  by code_simp

lemma sample_no_anchor: "no_anchor sample_turn"
  by code_simp

theorem route_decision_typed_witness:
  "\<exists>d. route_question sample_router sample_turn = Inr d \<and> de_kind d \<in> {Clarify, Answer}"
proof -
  obtain d where "route_question sample_router sample_turn = Inr d"
    using sample_route by (cases "route_question sample_router sample_turn") auto
  with route_decision_typed[OF this] sample_no_anchor show ?thesis by blast
qed

end
