(* ===== verification/Meta_Knowledge.thy ===== *)
theory Meta_Knowledge
  imports Retrieval
begin

text \<open>
  \<^verbatim>\<open>query/app/services/meta_knowledge_service.py\<close> with its configuration, the metadata repository,
  its mappers and ORM models, the vector and full-text repositories, and
  \<^verbatim>\<open>query/app/scripts/initialize.py\<close>: how the knowledge base is built, and built only once. The
  embedding service, the warehouse and the moments at which a store fails are parameters.
\<close>

section \<open>Configuration\<close>

record ColumnConfig =
  cc_name :: str
  cc_role :: str
  cc_description :: str
  cc_alias :: "str list"
  cc_sync :: bool

record TableConfig =
  tc_name :: str
  tc_role :: str
  tc_description :: str
  tc_columns :: "ColumnConfig list"

record MetricConfig =
  mc_name :: str
  mc_description :: str
  mc_columns :: "str list"
  mc_alias :: "str list"

record MetaConfig =
  mg_tables :: "TableConfig list option"
  mg_metrics :: "MetricConfig list option"

section \<open>ORM models and mappers\<close>

text \<open>Columns that may be NULL are options; JSON columns hold any value.\<close>

record ColumnInfoMySQL =
  cm_id :: str
  cm_name :: "str option"
  cm_type :: "str option"
  cm_role :: "str option"
  cm_examples :: json
  cm_description :: "str option"
  cm_alias :: json
  cm_table :: "str option"

record MetricInfoMySQL =
  mm_id :: str
  mm_name :: "str option"
  mm_description :: "str option"
  mm_columns :: json
  mm_alias :: json

record TableInfoMySQL =
  tm_id :: str
  tm_name :: "str option"
  tm_role :: "str option"
  tm_description :: "str option"

record ColumnMetricMySQL =
  lm_column :: str
  lm_metric :: str

definition column_model :: "ColumnInfo \<Rightarrow> ColumnInfoMySQL" where
  "column_model c = \<lparr>cm_id = ci_id c, cm_name = Some (ci_name c), cm_type = Some (ci_type c), cm_role = Some (ci_role c),
     cm_examples = JList (ci_examples c), cm_description = Some (ci_description c), cm_alias = strs (ci_alias c),
     cm_table = Some (ci_table c)\<rparr>"

definition metric_model :: "MetricInfo \<Rightarrow> MetricInfoMySQL" where
  "metric_model m = \<lparr>mm_id = mi_id m, mm_name = Some (mi_name m), mm_description = Some (mi_description m),
     mm_columns = strs (mi_columns m), mm_alias = strs (mi_alias m)\<rparr>"

definition table_model :: "TableInfo \<Rightarrow> TableInfoMySQL" where
  "table_model t = \<lparr>tm_id = ti_id t, tm_name = Some (ti_name t), tm_role = Some (ti_role t),
     tm_description = Some (ti_description t)\<rparr>"

definition link_model :: "ColumnMetric \<Rightarrow> ColumnMetricMySQL" where
  "link_model l = \<lparr>lm_column = cm_column l, lm_metric = cm_metric l\<rparr>"

text \<open>
  Back to the entities. The dataclasses do not check their fields; the entities here are typed, so a
  row that does not have the entity's types, which \<open>to_model\<close> never writes, has none.
\<close>

definition text_list :: "json \<Rightarrow> str list option" where
  "text_list j = (case j of JList xs \<Rightarrow>
     if list_all (\<lambda>x. str_of x \<noteq> None) xs then Some (map (the \<circ> str_of) xs) else None | _ \<Rightarrow> None)"

definition column_entity :: "ColumnInfoMySQL \<Rightarrow> ColumnInfo option" where
  "column_entity c = (case (cm_name c, cm_type c, cm_role c, cm_examples c, cm_description c, text_list (cm_alias c), cm_table c) of
     (Some n, Some t, Some r, JList ex, Some d, Some al, Some tb) \<Rightarrow>
       Some \<lparr>ci_id = cm_id c, ci_name = n, ci_type = t, ci_role = r, ci_examples = ex, ci_description = d, ci_alias = al,
         ci_table = tb\<rparr>
   | _ \<Rightarrow> None)"

definition metric_entity :: "MetricInfoMySQL \<Rightarrow> MetricInfo option" where
  "metric_entity m = (case (mm_name m, mm_description m, text_list (mm_columns m), text_list (mm_alias m)) of
     (Some n, Some d, Some cs, Some al) \<Rightarrow>
       Some \<lparr>mi_id = mm_id m, mi_name = n, mi_description = d, mi_columns = cs, mi_alias = al\<rparr>
   | _ \<Rightarrow> None)"

definition table_entity :: "TableInfoMySQL \<Rightarrow> TableInfo option" where
  "table_entity t = (case (tm_name t, tm_role t, tm_description t) of
     (Some n, Some r, Some d) \<Rightarrow> Some \<lparr>ti_id = tm_id t, ti_name = n, ti_role = r, ti_description = d\<rparr>
   | _ \<Rightarrow> None)"

definition link_entity :: "ColumnMetricMySQL \<Rightarrow> ColumnMetric" where
  "link_entity l = \<lparr>cm_column = lm_column l, cm_metric = lm_metric l\<rparr>"

section \<open>The knowledge base\<close>

text \<open>A vector point: its id, its vector and the entity it leads to.\<close>

record ('v, 'p) point =
  pt_id :: nat
  pt_vector :: 'v
  pt_payload :: 'p

text \<open>
  The stores, the number of ids drawn (\<open>uuid4\<close> never repeats) and of store operations done. A
  collection or an index that does not exist is \<open>None\<close>.
\<close>

record 'v knowledge =
  kn_version :: "str option"
  kn_tables :: "TableInfoMySQL list"
  kn_columns :: "ColumnInfoMySQL list"
  kn_metrics :: "MetricInfoMySQL list"
  kn_links :: "ColumnMetricMySQL list"
  kn_column_points :: "('v, ColumnInfo) point list option"
  kn_metric_points :: "('v, MetricInfo) point list option"
  kn_values :: "ValueInfo list option"
  kn_ids :: nat
  kn_ops :: nat

type_synonym ('v, 'a) K = "('v knowledge, 'a) M"

record 'v build_env =
  be_types :: "str \<Rightarrow> (str \<times> str) list res"
  be_values :: "str \<Rightarrow> str \<Rightarrow> nat \<Rightarrow> json list res"
  be_embed :: "str list \<Rightarrow> 'v list res"
  be_fault :: "nat \<Rightarrow> exn option"
  be_text :: "json \<Rightarrow> str"
  be_rejected :: "ValueInfo \<Rightarrow> bool"
  be_config :: "MetaConfig res"

text \<open>One operation of a store: it may fail, and then nothing of it has happened.\<close>

definition operate :: "'v build_env \<Rightarrow> ('v knowledge \<Rightarrow> 'v knowledge res) \<Rightarrow> ('v, unit) K" where
  "operate E f = bnd (gets kn_ops) (\<lambda>n. sq (modify (\<lambda>s. s\<lparr>kn_ops := Suc n\<rparr>))
     (case be_fault E n of
        Some e \<Rightarrow> raise e
      | None \<Rightarrow> bnd (bnd (gets f) lift) (\<lambda>s'. modify (\<lambda>_. s'))))"

section \<open>Metadata tables\<close>

definition integrity_error :: exn where
  "integrity_error = OtherError (u ''IntegrityError'') []"

text \<open>\<open>session.add_all\<close> at commit: a primary key may stand only once.\<close>

definition add_rows :: "('r \<Rightarrow> 'k) \<Rightarrow> 'r list \<Rightarrow> 'r list \<Rightarrow> 'r list res" where
  "add_rows key new old = (if distinct (map key (old @ new)) then Inr (old @ new) else Inl integrity_error)"

text \<open>\<open>async with session.begin()\<close>: both lists or neither.\<close>

definition save_tables :: "TableInfo list \<Rightarrow> ColumnInfo list \<Rightarrow> 'v knowledge \<Rightarrow> 'v knowledge res" where
  "save_tables ts cs s =
     rbind (add_rows tm_id (map table_model ts) (kn_tables s)) (\<lambda>ts'.
     rbind (add_rows cm_id (map column_model cs) (kn_columns s)) (\<lambda>cs'.
     Inr (s\<lparr>kn_tables := ts', kn_columns := cs'\<rparr>)))"

definition save_metrics :: "MetricInfo list \<Rightarrow> ColumnMetric list \<Rightarrow> 'v knowledge \<Rightarrow> 'v knowledge res" where
  "save_metrics ms ls s =
     rbind (add_rows mm_id (map metric_model ms) (kn_metrics s)) (\<lambda>ms'.
     rbind (add_rows (\<lambda>l. (lm_column l, lm_metric l)) (map link_model ls) (kn_links s)) (\<lambda>ls'.
     Inr (s\<lparr>kn_metrics := ms', kn_links := ls'\<rparr>)))"

definition get_column_info_by_id :: "str \<Rightarrow> 'v knowledge \<Rightarrow> ColumnInfo option" where
  "get_column_info_by_id i s = Option.bind (find (\<lambda>c. cm_id c = i) (kn_columns s)) column_entity"

definition get_table_info_by_id :: "str \<Rightarrow> 'v knowledge \<Rightarrow> TableInfo option" where
  "get_table_info_by_id i s = Option.bind (find (\<lambda>t. tm_id t = i) (kn_tables s)) table_entity"

text \<open>
  This one goes past the ORM: what the driver hands out for a JSON column, a parameter, is not decoded.
  The row stands for the unchecked dataclass.
\<close>

definition get_key_columns_by_table_id :: "(json \<Rightarrow> json) \<Rightarrow> str \<Rightarrow> 'v knowledge \<Rightarrow> ColumnInfoMySQL list" where
  "get_key_columns_by_table_id raw t s = map (\<lambda>c. c\<lparr>cm_examples := raw (cm_examples c), cm_alias := raw (cm_alias c)\<rparr>)
     (filter (\<lambda>c. cm_table c = Some t \<and> cm_role c \<in> {Some (u ''primary_key''), Some (u ''foreign_key'')}) (kn_columns s))"

text \<open>The entities of the configured tables; a column the warehouse does not have is a \<open>KeyError\<close>.\<close>

definition table_info :: "TableConfig \<Rightarrow> TableInfo" where
  "table_info t = \<lparr>ti_id = tc_name t, ti_name = tc_name t, ti_role = tc_role t, ti_description = tc_description t\<rparr>"

definition column_id :: "str \<Rightarrow> str \<Rightarrow> str" where
  "column_id t c = t @ u ''.'' @ c"

definition column_info :: "'v build_env \<Rightarrow> str \<Rightarrow> (str \<times> str) list \<Rightarrow> ColumnConfig \<Rightarrow> ColumnInfo res" where
  "column_info E t types c =
     rbind (be_values E t (cc_name c) 10) (\<lambda>values.
     case map_of (rev types) (cc_name c) of
       None \<Rightarrow> Inl (KeyError (cc_name c))
     | Some ty \<Rightarrow> Inr \<lparr>ci_id = column_id t (cc_name c), ci_name = cc_name c, ci_type = ty, ci_role = cc_role c,
         ci_examples = values, ci_description = cc_description c, ci_alias = cc_alias c, ci_table = t\<rparr>)"

definition table_columns :: "'v build_env \<Rightarrow> TableConfig \<Rightarrow> ColumnInfo list res" where
  "table_columns E t = rbind (be_types E (tc_name t)) (\<lambda>types. rmap (column_info E (tc_name t) types) (tc_columns t))"

definition save_tables_to_meta_db :: "'v build_env \<Rightarrow> TableConfig list \<Rightarrow> ('v, ColumnInfo list) K" where
  "save_tables_to_meta_db E ts =
     bnd (lift (rbind (rmap (table_columns E) ts) (\<lambda>css. Inr (concat css)))) (\<lambda>cs.
     sq (operate E (save_tables (map table_info ts) cs)) (ret cs))"

definition metric_info :: "MetricConfig \<Rightarrow> MetricInfo" where
  "metric_info m = \<lparr>mi_id = mc_name m, mi_name = mc_name m, mi_description = mc_description m,
     mi_columns = mc_columns m, mi_alias = mc_alias m\<rparr>"

definition save_metrics_to_meta_db :: "'v build_env \<Rightarrow> MetricConfig list \<Rightarrow> ('v, MetricInfo list) K" where
  "save_metrics_to_meta_db E ms =
     sq (operate E (save_metrics (map metric_info ms)
           (concat (map (\<lambda>m. map (\<lambda>c. \<lparr>cm_column = c, cm_metric = mc_name m\<rparr>) (mc_columns m)) ms))))
        (ret (map metric_info ms))"

section \<open>Vector indexes\<close>

text \<open>\<open>for i in range(0, len(xs), n): xs[i : i + n]\<close>.\<close>

function batches :: "nat \<Rightarrow> 'a list \<Rightarrow> 'a list list" where
  "batches n xs = (if xs = [] \<or> n = 0 then [] else take n xs # batches n (drop n xs))"
  by pat_completeness auto
termination
  by (relation "measure (\<lambda>(n, xs). length xs)") auto

declare batches.simps [simp del]

definition embed_all :: "'v build_env \<Rightarrow> str list \<Rightarrow> 'v list res" where
  "embed_all E ts = rbind (rmap (be_embed E) (batches 20 ts)) (\<lambda>vss. Inr (concat vss))"

text \<open>The texts that lead to an entity: its name, its description and each alias.\<close>

definition entry_texts :: "str \<Rightarrow> str \<Rightarrow> str list \<Rightarrow> str list" where
  "entry_texts n d al = n # d # al"

definition entries :: "('p \<Rightarrow> str list) \<Rightarrow> 'p list \<Rightarrow> (str \<times> 'p) list" where
  "entries texts ps = concat (map (\<lambda>p. map (\<lambda>t. (t, p)) (texts p)) ps)"

definition column_texts :: "ColumnInfo \<Rightarrow> str list" where
  "column_texts c = entry_texts (ci_name c) (ci_description c) (ci_alias c)"

definition metric_texts :: "MetricInfo \<Rightarrow> str list" where
  "metric_texts m = entry_texts (mi_name m) (mi_description m) (mi_alias m)"

text \<open>\<open>upsert\<close>: a point replaces the one with its id, \<open>zip\<close> stops at the shortest list.\<close>

definition upsert_point :: "('v, 'p) point list \<Rightarrow> ('v, 'p) point \<Rightarrow> ('v, 'p) point list" where
  "upsert_point ps p = (if pt_id p \<in> pt_id ` set ps then map (\<lambda>q. if pt_id q = pt_id p then p else q) ps else ps @ [p])"

definition make_points :: "nat list \<Rightarrow> 'v list \<Rightarrow> 'p list \<Rightarrow> ('v, 'p) point list" where
  "make_points ids vs ps = map (\<lambda>(i, v, p). \<lparr>pt_id = i, pt_vector = v, pt_payload = p\<rparr>) (zip ids (zip vs ps))"

definition ensure :: "'a list option \<Rightarrow> 'a list option" where
  "ensure c = (case c of None \<Rightarrow> Some [] | Some _ \<Rightarrow> c)"

definition upsert_batch :: "('v, 'p) point list \<Rightarrow> ('v, 'p) point list option \<Rightarrow> ('v, 'p) point list option" where
  "upsert_batch b c = map_option (\<lambda>ps. fold (\<lambda>p q. upsert_point q p) b ps) c"

fun upsert_columns :: "'v build_env \<Rightarrow> ('v, ColumnInfo) point list list \<Rightarrow> ('v, unit) K" where
  "upsert_columns E [] = ret ()"
| "upsert_columns E (b # bs) = sq (operate E (\<lambda>s. Inr (s\<lparr>kn_column_points := upsert_batch b (kn_column_points s)\<rparr>)))
     (upsert_columns E bs)"

fun upsert_metrics :: "'v build_env \<Rightarrow> ('v, MetricInfo) point list list \<Rightarrow> ('v, unit) K" where
  "upsert_metrics E [] = ret ()"
| "upsert_metrics E (b # bs) = sq (operate E (\<lambda>s. Inr (s\<lparr>kn_metric_points := upsert_batch b (kn_metric_points s)\<rparr>)))
     (upsert_metrics E bs)"

definition fresh_ids :: "nat \<Rightarrow> ('v, nat list) K" where
  "fresh_ids n = bnd (gets kn_ids) (\<lambda>i. sq (modify (\<lambda>s. s\<lparr>kn_ids := i + n\<rparr>)) (ret [i..<i + n]))"

definition save_columns_to_qdrant :: "'v build_env \<Rightarrow> ColumnInfo list \<Rightarrow> ('v, unit) K" where
  "save_columns_to_qdrant E cs =
     (let es = entries column_texts cs in
      sq (operate E (\<lambda>s. Inr (s\<lparr>kn_column_points := ensure (kn_column_points s)\<rparr>)))
      (bnd (fresh_ids (length es)) (\<lambda>ids.
       bnd (lift (embed_all E (map fst es))) (\<lambda>vs.
       upsert_columns E (batches 10 (make_points ids vs (map snd es)))))))"

definition save_metrics_to_qdrant :: "'v build_env \<Rightarrow> MetricInfo list \<Rightarrow> ('v, unit) K" where
  "save_metrics_to_qdrant E ms =
     (let es = entries metric_texts ms in
      sq (operate E (\<lambda>s. Inr (s\<lparr>kn_metric_points := ensure (kn_metric_points s)\<rparr>)))
      (bnd (fresh_ids (length es)) (\<lambda>ids.
       bnd (lift (embed_all E (map fst es))) (\<lambda>vs.
       upsert_metrics E (batches 10 (make_points ids vs (map snd es)))))))"

section \<open>The full-text index of values\<close>

definition index_doc :: "ValueInfo list \<Rightarrow> ValueInfo \<Rightarrow> ValueInfo list" where
  "index_doc ds d = (if vi_id d \<in> vi_id ` set ds then map (\<lambda>e. if vi_id e = vi_id d then d else e) ds else ds @ [d])"

text \<open>The answer of \<open>bulk\<close> names the documents the index rejected; nobody reads it.\<close>

definition bulk_index :: "'v build_env \<Rightarrow> ValueInfo list \<Rightarrow> ValueInfo list option \<Rightarrow> ValueInfo list option" where
  "bulk_index E b c = map_option (\<lambda>ds. fold (\<lambda>d ds. index_doc ds d) (filter (\<lambda>d. \<not> be_rejected E d) b) ds) c"

fun bulk :: "'v build_env \<Rightarrow> ValueInfo list list \<Rightarrow> ('v, unit) K" where
  "bulk E [] = ret ()"
| "bulk E (b # bs) = sq (operate E (\<lambda>s. Inr (s\<lparr>kn_values := bulk_index E b (kn_values s)\<rparr>)))
     (bulk E bs)"

text \<open>The values of a synchronised column; a value that is not a text stands as \<open>be_text\<close> writes it.\<close>

definition value_infos :: "'v build_env \<Rightarrow> ColumnInfo \<Rightarrow> ValueInfo list res" where
  "value_infos E c = rbind (be_values E (ci_table c) (ci_name c) 100000) (\<lambda>vs.
     Inr (map (\<lambda>v. \<lparr>vi_id = ci_id c @ u ''.'' @ be_text E v, vi_value = be_text E v, vi_column = ci_id c\<rparr>) vs))"

definition column_sync :: "TableConfig list \<Rightarrow> (str \<times> bool) list" where
  "column_sync ts = rev (concat (map (\<lambda>t. map (\<lambda>c. (column_id (tc_name t) (cc_name c), cc_sync c)) (tc_columns t)) ts))"

definition synced_values :: "'v build_env \<Rightarrow> TableConfig list \<Rightarrow> ColumnInfo \<Rightarrow> ValueInfo list res" where
  "synced_values E ts c = (case map_of (column_sync ts) (ci_id c) of
     None \<Rightarrow> Inl (KeyError (ci_id c))
   | Some sync \<Rightarrow> if sync then value_infos E c else Inr [])"

definition save_values_to_es :: "'v build_env \<Rightarrow> TableConfig list \<Rightarrow> ColumnInfo list \<Rightarrow> ('v, unit) K" where
  "save_values_to_es E ts cs =
     sq (operate E (\<lambda>s. Inr (s\<lparr>kn_values := ensure (kn_values s)\<rparr>)))
     (bnd (lift (rbind (rmap (synced_values E ts) cs) (\<lambda>vss. Inr (concat vss)))) (\<lambda>vs. bulk E (batches 20 vs)))"

section \<open>build and initialize\<close>

definition build :: "'v build_env \<Rightarrow> ('v, unit) K" where
  "build E =
     bnd (lift (be_config E)) (\<lambda>cfg.
     sq (case mg_tables cfg of
           Some (t # ts) \<Rightarrow> bnd (save_tables_to_meta_db E (t # ts)) (\<lambda>cs.
             sq (save_columns_to_qdrant E cs) (save_values_to_es E (t # ts) cs))
         | _ \<Rightarrow> ret ())
        (case mg_metrics cfg of
           Some (m # ms) \<Rightarrow> bnd (save_metrics_to_meta_db E (m # ms)) (save_metrics_to_qdrant E)
         | _ \<Rightarrow> ret ()))"

definition merged_v1 :: str where
  "merged_v1 = u ''merged-v1''"

definition partially_initialized :: exn where
  "partially_initialized =
     RuntimeError (u ''Metadata is partially initialized. Preserve data and repair the index before retrying.'')"

text \<open>The first operation creates the table of versions, which has one row at most, its primary key being the constant 1.\<close>

definition record_version :: "'v knowledge \<Rightarrow> 'v knowledge res" where
  "record_version s = (if kn_version s = None then Inr (s\<lparr>kn_version := Some merged_v1\<rparr>) else Inl integrity_error)"

definition initialize :: "'v build_env \<Rightarrow> ('v, unit) K" where
  "initialize E =
     sq (operate E Inr)
     (bnd (gets (\<lambda>s. (kn_version s, kn_tables s))) (\<lambda>(version, tables).
     if version = Some merged_v1 then ret ()
     else if tables \<noteq> [] then raise partially_initialized
     else sq (build E) (operate E record_version)))"

section \<open>Search\<close>

text \<open>The nearest points over the threshold, as Qdrant orders them, and back to the entities.\<close>

definition vector_search :: "(('v, 'p) point list \<Rightarrow> ('v, 'p) point list) \<Rightarrow> nat \<Rightarrow> ('v, 'p) point list option \<Rightarrow> 'p list res" where
  "vector_search nearest n c = (case c of None \<Rightarrow> Inl (OtherError (u ''UnexpectedResponse'') [])
     | Some ps \<Rightarrow> Inr (map pt_payload (take n (nearest ps))))"

definition value_search :: "(ValueInfo list \<Rightarrow> ValueInfo list) \<Rightarrow> nat \<Rightarrow> ValueInfo list option \<Rightarrow> ValueInfo list res" where
  "value_search best n c = (case c of None \<Rightarrow> Inl (OtherError (u ''NotFoundError'') [])
     | Some ds \<Rightarrow> Inr (take n (best ds)))"

section \<open>Runs of an operation\<close>

lemma operate_Inr [simp]:
  "operate E f s = (Inr (), s') \<longleftrightarrow> be_fault E (kn_ops s) = None \<and> f (s\<lparr>kn_ops := Suc (kn_ops s)\<rparr>) = Inr s'"
  by (auto simp: operate_def run_Inr split: option.splits)

lemma operate_Inl:
  "operate E f s = (Inl e, s') \<Longrightarrow> s' = s\<lparr>kn_ops := Suc (kn_ops s)\<rparr>"
  by (auto simp: operate_def bnd_Inl run_Inr sq_def split: option.splits)

lemma batches_concat: "0 < n \<Longrightarrow> concat (batches n xs) = xs"
proof (induction n xs rule: batches.induct)
  case (1 n xs)
  then show ?case by (cases "xs = []") (simp add: batches.simps, subst batches.simps, simp)
qed

lemma batches_bounded: "b \<in> set (batches n xs) \<Longrightarrow> b \<noteq> [] \<and> length b \<le> n"
proof (induction n xs rule: batches.induct)
  case (1 n xs)
  then show ?case by (cases "xs = [] \<or> n = 0") (auto simp: batches.simps[of n xs])
qed

text \<open>A service that gives each text its vector, in order, gives them over the batches too.\<close>

lemma rmap_concat:
  assumes "\<And>ts vs. f ts = Inr vs \<Longrightarrow> vs = map e ts" "rmap f tss = Inr vss"
  shows "concat vss = map e (concat tss)"
proof -
  have "list_all2 (\<lambda>ts vs. f ts = Inr vs) tss vss" using assms(2) by (simp add: rmap_Inr_iff)
  then show ?thesis by (induction rule: list_all2_induct) (auto dest: assms(1))
qed

lemma embed_all_map:
  assumes "\<And>ts vs. be_embed E ts = Inr vs \<Longrightarrow> vs = map e ts" "embed_all E ts = Inr vs"
  shows "vs = map e ts"
proof -
  obtain vss where r: "rmap (be_embed E) (batches 20 ts) = Inr vss" and v: "vs = concat vss"
    using assms(2) unfolding embed_all_def rbind_eq_Inr by auto
  show ?thesis using rmap_concat[OF assms(1) r] by (simp add: v batches_concat)
qed

lemma upsert_fresh:
  assumes "distinct (map pt_id b)" "pt_id ` set b \<inter> pt_id ` set ps = {}"
  shows "fold (\<lambda>p q. upsert_point q p) b ps = ps @ b"
  using assms
proof (induction b arbitrary: ps)
  case (Cons p b)
  then have "upsert_point ps p = ps @ [p]" by (auto simp: upsert_point_def)
  moreover have "fold (\<lambda>p q. upsert_point q p) b (ps @ [p]) = (ps @ [p]) @ b"
    using Cons.prems by (intro Cons.IH) auto
  ultimately show ?case by simp
qed simp

lemma upsert_batch_append: "upsert_batch c (upsert_batch b ps) = upsert_batch (b @ c) ps"
  by (cases ps) (simp_all add: upsert_batch_def)

lemma upsert_columns_run:
  assumes "upsert_columns E bs s = (Inr (), s')"
  shows "kn_column_points s' = upsert_batch (concat bs) (kn_column_points s)
    \<and> kn_columns s' = kn_columns s \<and> kn_ids s' = kn_ids s"
  using assms
proof (induction bs arbitrary: s)
  case Nil
  then show ?case by (cases "kn_column_points s") (simp_all add: upsert_batch_def)
next
  case (Cons b bs)
  from Cons.prems obtain t where t: "t = s\<lparr>kn_ops := Suc (kn_ops s), kn_column_points := upsert_batch b (kn_column_points s)\<rparr>"
    and run: "upsert_columns E bs t = (Inr (), s')" by (auto simp: run_Inr)
  show ?case using Cons.IH[OF run] by (simp add: t upsert_batch_append)
qed

lemma pt_id_make_points: "length ids = length vs \<Longrightarrow> length vs = length ps \<Longrightarrow> map pt_id (make_points ids vs ps) = ids"
  by (simp add: make_points_def split_def comp_def)

lemma map_make_points:
  "length ids = length ps \<Longrightarrow> length vs = length ps \<Longrightarrow>
     map (\<lambda>p. (pt_vector p, pt_payload p)) (make_points ids vs ps) = zip vs ps"
  by (auto simp: make_points_def list_eq_iff_nth_eq)

lemma save_columns_run:
  assumes run: "save_columns_to_qdrant E cs s = (Inr (), s')"
    and emb: "\<And>ts vs. be_embed E ts = Inr vs \<Longrightarrow> vs = map e ts"
    and fresh: "\<And>ps p. kn_column_points s = Some ps \<Longrightarrow> p \<in> set ps \<Longrightarrow> pt_id p < kn_ids s"
  shows "\<exists>new. kn_column_points s' = Some (the (ensure (kn_column_points s)) @ new)
    \<and> map (\<lambda>p. (pt_vector p, pt_payload p)) new = map (\<lambda>(t, c). (e t, c)) (entries column_texts cs)
    \<and> kn_columns s' = kn_columns s"
proof -
  let ?es = "entries column_texts cs" and ?old = "the (ensure (kn_column_points s))"
  let ?ids = "[kn_ids s..<kn_ids s + length ?es]"
  let ?t = "s\<lparr>kn_ops := Suc (kn_ops s), kn_column_points := ensure (kn_column_points s), kn_ids := kn_ids s + length ?es\<rparr>"
  obtain vs where v: "embed_all E (map fst ?es) = Inr vs"
    and up: "upsert_columns E (batches 10 (make_points ?ids vs (map snd ?es))) ?t = (Inr (), s')"
    using run unfolding save_columns_to_qdrant_def Let_def by (auto simp: run_Inr fresh_ids_def)
  have t: "kn_column_points ?t = Some ?old" "kn_columns ?t = kn_columns s"
    by (simp_all add: ensure_def split: option.splits)
  have vs: "vs = map e (map fst ?es)" using emb v by (rule embed_all_map)
  let ?new = "make_points ?ids vs (map snd ?es)"
  have ids: "map pt_id ?new = ?ids" by (rule pt_id_make_points) (simp_all add: vs)
  have "pt_id ` set ?new = {kn_ids s..<kn_ids s + length ?es}"
    using arg_cong[OF ids, of set] by simp
  moreover have "pt_id p < kn_ids s" if "p \<in> set ?old" for p
    using that fresh by (cases "kn_column_points s") (auto simp: ensure_def)
  ultimately have "pt_id ` set ?new \<inter> pt_id ` set ?old = {}" by force
  moreover have "distinct (map pt_id ?new)" by (simp add: ids)
  ultimately have "fold (\<lambda>p q. upsert_point q p) ?new ?old = ?old @ ?new" by (intro upsert_fresh)
  with upsert_columns_run[OF up] t have "kn_column_points s' = Some (?old @ ?new)" "kn_columns s' = kn_columns s"
    by (simp_all add: batches_concat upsert_batch_def)
  moreover have "map (\<lambda>p. (pt_vector p, pt_payload p)) ?new = map (\<lambda>(t, c). (e t, c)) ?es"
    by (subst map_make_points) (simp_all add: vs zip_map_map zip_same_conv_map split_def comp_def)
  ultimately show ?thesis by blast
qed

lemma text_list_strs [simp]: "text_list (strs xs) = Some xs"
  by (simp add: text_list_def strs_def str_of_def comp_def list_all_iff)

lemma entry_pairs:
  "(v, d) \<in> set (map (\<lambda>(t, c). (e t, c)) (entries texts cs)) \<longleftrightarrow> d \<in> set cs \<and> (\<exists>x \<in> set (texts d). v = e x)"
  by (auto simp: entries_def image_iff)

lemma column_entity_model [simp]: "column_entity (column_model c) = Some c"
  by (simp add: column_entity_def column_model_def)

lemma metric_entity_model [simp]: "metric_entity (metric_model m) = Some m"
  by (simp add: metric_entity_def metric_model_def)

lemma table_entity_model [simp]: "table_entity (table_model t) = Some t"
  by (simp add: table_entity_def table_model_def)

lemma link_entity_model [simp]: "link_entity (link_model l) = l"
  by (simp add: link_entity_def link_model_def)

lemma find_key: "distinct (map key xs) \<Longrightarrow> x \<in> set xs \<Longrightarrow> find (\<lambda>y. key y = key x) xs = Some x"
  by (induction xs) (auto simp: image_iff)

lemma rmap_mem_source: "rmap f xs = Inr ys \<Longrightarrow> x \<in> set xs \<Longrightarrow> \<exists>y \<in> set ys. f x = Inr y"
  unfolding rmap_Inr_iff by (auto simp: list_all2_conv_all_nth in_set_conv_nth)

lemma save_tables_run:
  assumes "save_tables_to_meta_db E ts s = (Inr cs, s')"
  shows "kn_column_points s' = kn_column_points s \<and> kn_ids s' = kn_ids s \<and> (\<forall>c \<in> set cs. get_column_info_by_id (ci_id c) s' = Some c)
    \<and> (\<exists>css. rmap (table_columns E) ts = Inr css \<and> cs = concat css)"
proof -
  obtain css ts' cs' where r: "rmap (table_columns E) ts = Inr css" "cs = concat css"
    and a: "add_rows cm_id (map column_model cs) (kn_columns s) = Inr cs'"
    and s': "s' = s\<lparr>kn_ops := Suc (kn_ops s), kn_tables := ts', kn_columns := cs'\<rparr>"
    using assms unfolding save_tables_to_meta_db_def by (auto simp: run_Inr rbind_eq_Inr save_tables_def)
  from a have d: "distinct (map cm_id cs')" and m: "\<And>c. c \<in> set cs \<Longrightarrow> column_model c \<in> set cs'"
    by (auto simp: add_rows_def split: if_splits)
  have "get_column_info_by_id (ci_id c) s' = Some c" if "c \<in> set cs" for c
    using find_key[OF d m[OF that]] by (simp add: get_column_info_by_id_def s') (simp add: column_model_def column_entity_model[unfolded column_model_def])
  with r show ?thesis by (simp add: s')
qed

section \<open>Initialization\<close>

lemma operate_state:
  "snd (operate E f s) = s\<lparr>kn_ops := Suc (kn_ops s)\<rparr> \<or> f (s\<lparr>kn_ops := Suc (kn_ops s)\<rparr>) = Inr (snd (operate E f s))"
  by (auto simp: operate_def monad_defs split: option.splits sum.splits)

definition version_kept :: "'v knowledge \<Rightarrow> 'v knowledge \<Rightarrow> bool" where
  "version_kept s t \<longleftrightarrow> kn_version t = kn_version s"

text \<open>What the recall of columns reads.\<close>

definition index_kept :: "'v knowledge \<Rightarrow> 'v knowledge \<Rightarrow> bool" where
  "index_kept s t \<longleftrightarrow> kn_columns t = kn_columns s \<and> kn_column_points t = kn_column_points s"

interpretation vk: state_preorder "version_kept :: 'v knowledge \<Rightarrow> 'v knowledge \<Rightarrow> bool"
  by unfold_locales (simp_all add: version_kept_def)

interpretation ik: state_preorder "index_kept :: 'v knowledge \<Rightarrow> 'v knowledge \<Rightarrow> bool"
  by unfold_locales (simp_all add: index_kept_def)

lemma version_operate:
  assumes "\<And>s s'. f s = Inr s' \<Longrightarrow> kn_version s' = kn_version s"
  shows "grows version_kept (operate E f)"
  unfolding grows_def version_kept_def
proof
  fix s show "kn_version (snd (operate E f s)) = kn_version s"
    using operate_state[of E f s] by (auto dest: assms)
qed

lemma index_operate:
  assumes "\<And>s s'. f s = Inr s' \<Longrightarrow> kn_columns s' = kn_columns s \<and> kn_column_points s' = kn_column_points s"
  shows "grows index_kept (operate E f)"
  unfolding grows_def
proof
  fix s show "index_kept s (snd (operate E f s))"
    using operate_state[of E f s] assms[of "s\<lparr>kn_ops := Suc (kn_ops s)\<rparr>"] by (auto simp: index_kept_def)
qed

lemma upserts_version: "grows version_kept (upsert_columns E bs)" "grows version_kept (upsert_metrics E bs')"
  "grows version_kept (bulk E vss)"
  by (induction bs, auto intro!: vk.grows_rules version_operate)
    (induction bs', auto intro!: vk.grows_rules version_operate,
     induction vss, auto intro!: vk.grows_rules version_operate)

lemma fresh_ids_kept: "grows version_kept (fresh_ids n)" "grows index_kept (fresh_ids n)"
  by (simp_all add: fresh_ids_def grows_def monad_defs version_kept_def index_kept_def)

lemma build_version: "grows version_kept (build E)"
proof -
  have t: "grows version_kept (operate E (save_tables ts cs))" for ts cs
    by (rule version_operate) (auto simp: save_tables_def rbind_eq_Inr)
  have m: "grows version_kept (operate E (save_metrics ms ls))" for ms ls
    by (rule version_operate) (auto simp: save_metrics_def rbind_eq_Inr)
  have "grows version_kept (save_tables_to_meta_db E ts)" for ts
    unfolding save_tables_to_meta_db_def by (intro vk.grows_rules t)
  moreover have "grows version_kept (save_columns_to_qdrant E cs)" for cs
    unfolding save_columns_to_qdrant_def Let_def
    by (intro vk.grows_rules fresh_ids_kept upserts_version version_operate) auto
  moreover have "grows version_kept (save_values_to_es E ts cs)" for ts cs
    unfolding save_values_to_es_def by (intro vk.grows_rules upserts_version version_operate) auto
  moreover have "grows version_kept (save_metrics_to_meta_db E ms)" for ms
    unfolding save_metrics_to_meta_db_def by (intro vk.grows_rules m)
  moreover have "grows version_kept (save_metrics_to_qdrant E ms)" for ms
    unfolding save_metrics_to_qdrant_def Let_def
    by (intro vk.grows_rules fresh_ids_kept upserts_version version_operate) auto
  ultimately show ?thesis
    unfolding build_def by (auto intro!: vk.grows_rules split: option.splits list.splits)
qed

lemma build_keeps_version: "build E s = (r, t) \<Longrightarrow> kn_version t = kn_version s"
  using build_version[of E] unfolding grows_def version_kept_def by (metis snd_conv)

lemma initialize_blocked:
  assumes "kn_version s = Some merged_v1 \<or> kn_tables s \<noteq> []"
  shows "\<exists>n. snd (initialize E s) = s\<lparr>kn_ops := n\<rparr>"
proof (cases "be_fault E (kn_ops s)")
  case None
  with assms show ?thesis
    by (auto simp: initialize_def operate_def monad_defs intro: exI[of _ "Suc (kn_ops s)"])
next
  case (Some e)
  then show ?thesis by (auto simp: initialize_def operate_def monad_defs)
qed

text \<open>Attempts one after the other, each with its own faults.\<close>

definition retries :: "'v build_env list \<Rightarrow> 'v knowledge \<Rightarrow> 'v knowledge" where
  "retries Es s = fold (\<lambda>E s. snd (initialize E s)) Es s"

lemma retries_blocked:
  assumes "kn_version s = Some merged_v1 \<or> kn_tables s \<noteq> []"
  shows "\<exists>n. retries Es s = s\<lparr>kn_ops := n\<rparr>"
  using assms
proof (induction Es arbitrary: s)
  case Nil
  then show ?case by (simp add: retries_def exI[of _ "kn_ops s"])
next
  case (Cons E Es)
  then obtain n where n: "snd (initialize E s) = s\<lparr>kn_ops := n\<rparr>" using initialize_blocked by blast
  obtain m where "retries Es (s\<lparr>kn_ops := n\<rparr>) = (s\<lparr>kn_ops := n\<rparr>)\<lparr>kn_ops := m\<rparr>"
    using Cons.IH[of "s\<lparr>kn_ops := n\<rparr>"] Cons.prems by auto
  then show ?case by (auto simp: retries_def n)
qed

lemma initialize_Inr:
  assumes "initialize E s = (Inr (), s')"
  shows "kn_version s' = Some merged_v1
    \<and> (kn_version s = Some merged_v1
       \<or> kn_version s = None \<and> kn_tables s = []
         \<and> (\<exists>t. build E (s\<lparr>kn_ops := Suc (kn_ops s)\<rparr>) = (Inr (), t)
              \<and> s' = t\<lparr>kn_ops := Suc (kn_ops t), kn_version := Some merged_v1\<rparr>))"
proof (cases "kn_version s = Some merged_v1")
  case True
  with assms show ?thesis by (auto simp: initialize_def run_Inr)
next
  case False
  let ?s = "s\<lparr>kn_ops := Suc (kn_ops s)\<rparr>"
  from assms False obtain t where e: "kn_tables s = []" and b: "build E ?s = (Inr (), t)"
    and r: "record_version (t\<lparr>kn_ops := Suc (kn_ops t)\<rparr>) = Inr s'"
    by (auto simp: initialize_def run_Inr split: if_splits)
  have "kn_version t = kn_version s"
    using build_keeps_version[OF b] by simp
  with e b r show ?thesis by (auto simp: record_version_def split: if_splits)
qed

lemma initialize_Inl:
  assumes "initialize E s = (Inl e, s')"
  shows "kn_version s' = kn_version s"
  using assms by (auto simp: initialize_def sq_def bnd_Inl run_Inr record_version_def
      dest!: operate_Inl build_keeps_version split: if_splits)


text \<open>An example: one table with one column, texts as their own vectors.\<close>

definition sample_column :: ColumnConfig where
  "sample_column = \<lparr>cc_name = u ''region'', cc_role = u ''dimension'', cc_description = u ''sales region'',
     cc_alias = [u ''area''], cc_sync = True\<rparr>"

definition sample_table :: TableConfig where
  "sample_table = \<lparr>tc_name = u ''dim_region'', tc_role = u ''dim'', tc_description = u ''regions'',
     tc_columns = [sample_column]\<rparr>"

definition sample_env :: "str build_env" where
  "sample_env = \<lparr>be_types = (\<lambda>_. Inr [(u ''region'', u ''varchar(20)'')]), be_values = (\<lambda>_ _ _. Inr [JStr (u ''east'')]),
     be_embed = Inr, be_fault = (\<lambda>_. None), be_text = (\<lambda>j. the (str_of j)), be_rejected = (\<lambda>_. False),
     be_config = Inr \<lparr>mg_tables = Some [sample_table], mg_metrics = None\<rparr>\<rparr>"

definition empty_knowledge :: "str knowledge" where
  "empty_knowledge = \<lparr>kn_version = None, kn_tables = [], kn_columns = [], kn_metrics = [], kn_links = [],
     kn_column_points = None, kn_metric_points = None, kn_values = None, kn_ids = 0, kn_ops = 0\<rparr>"

lemma sample_initialize: "\<not> isl (fst (initialize sample_env empty_knowledge))"
  by (simp add: initialize_def operate_def build_def save_tables_to_meta_db_def save_tables_def table_columns_def
      column_info_def table_info_def add_rows_def table_model_def column_model_def save_columns_to_qdrant_def
      save_values_to_es_def synced_values_def column_sync_def value_infos_def embed_all_def fresh_ids_def
      record_version_def sample_env_def sample_table_def sample_column_def empty_knowledge_def
      entries_def column_texts_def entry_texts_def make_points_def batches.simps str_of_def monad_defs)


section \<open>The index of columns\<close>

lemma upserts_index: "grows index_kept (upsert_metrics E bs)" "grows index_kept (bulk E vss)"
  by (induction bs, auto intro!: ik.grows_rules index_operate)
    (induction vss, auto intro!: ik.grows_rules index_operate)

lemma save_values_index: "grows index_kept (save_values_to_es E ts cs)"
  unfolding save_values_to_es_def by (intro ik.grows_rules upserts_index index_operate) auto

lemma save_metrics_index: "grows index_kept (save_metrics_to_meta_db E ms)" "grows index_kept (save_metrics_to_qdrant E mis)"
proof -
  show "grows index_kept (save_metrics_to_meta_db E ms)" unfolding save_metrics_to_meta_db_def
    by (intro ik.grows_rules index_operate) (auto simp: save_metrics_def rbind_eq_Inr)
  show "grows index_kept (save_metrics_to_qdrant E mis)" unfolding save_metrics_to_qdrant_def Let_def
    by (intro ik.grows_rules upserts_index fresh_ids_kept index_operate) auto
qed

lemma grows_run: "grows R m \<Longrightarrow> m s = (r, t) \<Longrightarrow> R s t"
  unfolding grows_def by (metis snd_conv)

lemma build_columns:
  assumes "build E s = (Inr (), s')" "be_config E = Inr cfg" "mg_tables cfg = Some ts" "ts \<noteq> []"
  obtains cs s1 s2 where "save_tables_to_meta_db E ts s = (Inr cs, s1)" "save_columns_to_qdrant E cs s1 = (Inr (), s2)"
    "index_kept s2 s'"
proof -
  let ?metrics = "case mg_metrics cfg of Some (m # ms) \<Rightarrow> bnd (save_metrics_to_meta_db E (m # ms)) (save_metrics_to_qdrant E)
    | _ \<Rightarrow> ret ()"
  obtain cs s1 s2 s3 where r: "save_tables_to_meta_db E ts s = (Inr cs, s1)" "save_columns_to_qdrant E cs s1 = (Inr (), s2)"
    and v: "save_values_to_es E ts cs s2 = (Inr (), s3)" and m: "?metrics s3 = (Inr (), s')"
    using assms by (cases ts) (auto simp: build_def run_Inr)
  have "grows index_kept ?metrics"
    by (auto intro!: ik.grows_rules save_metrics_index split: option.splits list.splits)
  from ik.R_trans[OF grows_run[OF save_values_index v] grows_run[OF this m]] r that show thesis by blast
qed

lemma column_info_Inr:
  "column_info E t types c = Inr ci \<Longrightarrow> ci_id ci = column_id t (cc_name c) \<and> ci_table ci = t
     \<and> column_texts ci = entry_texts (cc_name c) (cc_description c) (cc_alias c)"
  by (auto simp: column_info_def rbind_eq_Inr column_texts_def split: option.splits)

text \<open>
  C37: A successful initialization makes every configured column findable: the metadata base returns
  its entity under \<open>table.column\<close>, and its name, its description and each alias has a point in the
  vector index with that text's vector and that entity. Nothing that was in the index is lost, and
  every new point comes from such a text.
\<close>

theorem knowledge_indexed:
  assumes run: "initialize E s = (Inr (), s')" "kn_version s \<noteq> Some merged_v1"
    and cfg: "be_config E = Inr cfg" "mg_tables cfg = Some ts"
    and embed: "\<And>us vs. be_embed E us = Inr vs \<Longrightarrow> vs = map e us"
    and fresh: "\<And>ps p. kn_column_points s = Some ps \<Longrightarrow> p \<in> set ps \<Longrightarrow> pt_id p < kn_ids s"
    and c: "t \<in> set ts" "c \<in> set (tc_columns t)"
  shows "\<exists>ci new. get_column_info_by_id (column_id (tc_name t) (cc_name c)) s' = Some ci \<and> ci_table ci = tc_name t
    \<and> kn_column_points s' = Some (the (ensure (kn_column_points s)) @ new)
    \<and> (\<forall>x \<in> set (entry_texts (cc_name c) (cc_description c) (cc_alias c)).
          \<exists>p \<in> set new. pt_vector p = e x \<and> pt_payload p = ci)
    \<and> (\<forall>p \<in> set new. \<exists>x \<in> set (column_texts (pt_payload p)). pt_vector p = e x)"
proof -
  let ?s = "s\<lparr>kn_ops := Suc (kn_ops s)\<rparr>"
  from initialize_Inr[OF run(1)] run(2) obtain b where b: "build E ?s = (Inr (), b)"
    and s': "s' = b\<lparr>kn_ops := Suc (kn_ops b), kn_version := Some merged_v1\<rparr>" by blast
  obtain cs s1 s2 where r1: "save_tables_to_meta_db E ts ?s = (Inr cs, s1)"
    and r2: "save_columns_to_qdrant E cs s1 = (Inr (), s2)" and k: "index_kept s2 b"
    using build_columns[OF b cfg] c(1) by (metis list.set_cases list.discI)
  from save_tables_run[OF r1] obtain css where o: "kn_column_points s1 = kn_column_points s" "kn_ids s1 = kn_ids s"
    and found: "\<forall>c \<in> set cs. get_column_info_by_id (ci_id c) s1 = Some c"
    and css: "rmap (table_columns E) ts = Inr css" "cs = concat css" by auto
  from rmap_mem_source[OF css(1) c(1)] obtain tcs types where "tcs \<in> set css"
    and "rmap (column_info E (tc_name t) types) (tc_columns t) = Inr tcs"
    by (auto simp: table_columns_def rbind_eq_Inr)
  with rmap_mem_source[OF this(2) c(2)] css(2) obtain ci where ci: "ci \<in> set cs"
    and i: "column_info E (tc_name t) types c = Inr ci" by auto
  note ci_facts = column_info_Inr[OF i]
  from save_columns_run[OF r2 embed] fresh o obtain new where
    n: "kn_column_points s2 = Some (the (ensure (kn_column_points s)) @ new)"
    and m: "map (\<lambda>p. (pt_vector p, pt_payload p)) new = map (\<lambda>(t, c). (e t, c)) (entries column_texts cs)"
    and col: "kn_columns s2 = kn_columns s1" by auto
  have points: "(\<exists>p \<in> set new. pt_vector p = v \<and> pt_payload p = d) \<longleftrightarrow> d \<in> set cs \<and> (\<exists>x \<in> set (column_texts d). v = e x)" for v d
    using entry_pairs[of v d e column_texts cs] unfolding m[symmetric] by (auto simp: image_iff)
  have "get_column_info_by_id (column_id (tc_name t) (cc_name c)) s' = Some ci"
    using found ci ci_facts k col by (force simp: get_column_info_by_id_def s' index_kept_def)
  moreover have "kn_column_points s' = Some (the (ensure (kn_column_points s)) @ new)"
    using n k by (simp add: s' index_kept_def)
  moreover have "\<exists>p \<in> set new. pt_vector p = e x \<and> pt_payload p = ci"
    if "x \<in> set (entry_texts (cc_name c) (cc_description c) (cc_alias c))" for x
    using that points[of "e x" ci] ci ci_facts by auto
  moreover have "\<exists>x \<in> set (column_texts (pt_payload p)). pt_vector p = e x" if "p \<in> set new" for p
    using points[of "pt_vector p" "pt_payload p"] that by blast
  ultimately show ?thesis using ci_facts by blast
qed

theorem knowledge_indexed_witness:
  "\<exists>s' ci new. initialize sample_env empty_knowledge = (Inr (), s')
     \<and> get_column_info_by_id (column_id (u ''dim_region'') (u ''region'')) s' = Some ci
     \<and> kn_column_points s' = Some new \<and> (\<exists>p \<in> set new. pt_vector p = u ''area'' \<and> pt_payload p = ci)"
proof -
  obtain s' where r: "initialize sample_env empty_knowledge = (Inr (), s')"
    using run_ok[OF sample_initialize] by auto
  have "\<exists>ci new. get_column_info_by_id (column_id (tc_name sample_table) (cc_name sample_column)) s' = Some ci \<and> ci_table ci = tc_name sample_table
    \<and> kn_column_points s' = Some (the (ensure (kn_column_points empty_knowledge)) @ new)
    \<and> (\<forall>x \<in> set (entry_texts (cc_name sample_column) (cc_description sample_column) (cc_alias sample_column)).
          \<exists>p \<in> set new. pt_vector p = id x \<and> pt_payload p = ci)
    \<and> (\<forall>p \<in> set new. \<exists>x \<in> set (column_texts (pt_payload p)). pt_vector p = id x)"
    by (rule knowledge_indexed[OF r, where cfg = "\<lparr>mg_tables = Some [sample_table], mg_metrics = None\<rparr>" and ts = "[sample_table]"])
      (simp_all add: empty_knowledge_def sample_env_def sample_table_def)
  with r show ?thesis
    by (auto simp: empty_knowledge_def ensure_def sample_table_def sample_column_def entry_texts_def)
qed

end
