(* ===== verification/Log_Index.thy ===== *)
theory Log_Index
  imports Log_Store "HOL-Library.Multiset"
begin

text \<open>
  \<^verbatim>\<open>demo/log_store.py\<close>, \<open>initialize\<close>: the full-text index beside the log table and the three triggers
  that keep it. \<open>Log_Store\<close> lets a query match the message of a row; the code asks the index. That both
  are the same rests on the index being in step with the table, which is shown here.
\<close>

section \<open>The table, its index and its triggers\<close>

text \<open>
  The index holds row ids with the text indexed under them; it is external to the content, so its
  \<open>delete\<close> command is told what to forget and forgets nothing else.
\<close>

record log_db =
  db_rows :: "log_row list"
  db_fts :: "(int \<times> json) list option"
  db_ai :: bool
  db_ad :: bool
  db_au :: bool

text \<open>A row of the view \<open>logs_search_content\<close>.\<close>

definition message_entry :: "log_row \<Rightarrow> int \<times> json" where
  "message_entry r = (lr_id r, json_extract (u ''message'') (lr_payload r))"

definition fts_add :: "log_row \<Rightarrow> log_db \<Rightarrow> log_db" where
  "fts_add r d = d\<lparr>db_fts := map_option (\<lambda>es. es @ [message_entry r]) (db_fts d)\<rparr>"

definition fts_delete :: "log_row \<Rightarrow> log_db \<Rightarrow> log_db" where
  "fts_delete r d = d\<lparr>db_fts := map_option (remove1 (message_entry r)) (db_fts d)\<rparr>"

section \<open>initialize\<close>

definition fts_exists :: "log_db \<Rightarrow> bool" where
  "fts_exists d \<longleftrightarrow> db_fts d \<noteq> None"

text \<open>
  The transaction: the table of the index where it is missing, filled from the view when there was
  none before the transaction.
\<close>

definition build_index :: "bool \<Rightarrow> log_db \<Rightarrow> log_db" where
  "build_index exists d =
     (let d1 = (if fts_exists d then d else d\<lparr>db_fts := Some []\<rparr>) in
      if exists then d1 else d1\<lparr>db_fts := Some (map message_entry (db_rows d1))\<rparr>)"

text \<open>\<open>executescript\<close> commits that transaction first; each trigger is a statement of its own after it.\<close>

definition create_ai :: "log_db \<Rightarrow> log_db" where "create_ai d = d\<lparr>db_ai := True\<rparr>"

definition create_ad :: "log_db \<Rightarrow> log_db" where "create_ad d = d\<lparr>db_ad := True\<rparr>"

definition create_au :: "log_db \<Rightarrow> log_db" where "create_au d = d\<lparr>db_au := True\<rparr>"

definition initialize_store :: "log_db \<Rightarrow> log_db" where
  "initialize_store d = create_au (create_ad (create_ai (build_index (fts_exists d) d)))"

section \<open>Changes of the table\<close>

definition row_ids :: "log_db \<Rightarrow> int list" where
  "row_ids d = map lr_id (db_rows d)"

definition unique_failed :: exn where
  "unique_failed = OtherError (u ''IntegrityError'') []"

definition insert_row :: "log_row \<Rightarrow> log_db \<Rightarrow> log_db res" where
  "insert_row r d =
     (if lr_id r \<in> set (row_ids d) then Inl unique_failed
      else let d1 = d\<lparr>db_rows := db_rows d @ [r]\<rparr> in Inr (if db_ai d then fts_add r d1 else d1))"

definition delete_row :: "int \<Rightarrow> log_db \<Rightarrow> log_db" where
  "delete_row i d = (case find (\<lambda>r. lr_id r = i) (db_rows d) of
     None \<Rightarrow> d
   | Some r \<Rightarrow> let d1 = d\<lparr>db_rows := remove1 r (db_rows d)\<rparr> in if db_ad d then fts_delete r d1 else d1)"

definition update_row :: "int \<Rightarrow> log_row \<Rightarrow> log_db \<Rightarrow> log_db res" where
  "update_row i r d = (case find (\<lambda>r. lr_id r = i) (db_rows d) of
     None \<Rightarrow> Inr d
   | Some old \<Rightarrow>
       if lr_id r \<noteq> i \<and> lr_id r \<in> set (row_ids d) then Inl unique_failed
       else let d1 = d\<lparr>db_rows := map (\<lambda>q. if q = old then r else q) (db_rows d)\<rparr>
            in Inr (if db_au d then fts_add r (fts_delete old d1) else d1))"

datatype log_op = Insert log_row | Delete int | Update int log_row | Restart

text \<open>A failing statement changes nothing.\<close>

fun apply_op :: "log_op \<Rightarrow> log_db \<Rightarrow> log_db" where
  "apply_op (Insert r) d = (case insert_row r d of Inr d' \<Rightarrow> d' | Inl _ \<Rightarrow> d)"
| "apply_op (Delete i) d = delete_row i d"
| "apply_op (Update i r) d = (case update_row i r d of Inr d' \<Rightarrow> d' | Inl _ \<Rightarrow> d)"
| "apply_op Restart d = initialize_store d"

section \<open>Search\<close>

text \<open>\<open>id in (select rowid from logs_fts where logs_fts match ?)\<close>.\<close>

definition in_index :: "engine \<Rightarrow> log_db \<Rightarrow> str \<Rightarrow> log_row \<Rightarrow> bool" where
  "in_index E d expr r \<longleftrightarrow> lr_id r \<in> fst ` {e \<in> set (case db_fts d of Some es \<Rightarrow> es | None \<Rightarrow> []). fts_match E expr (snd e)}"

definition selected :: "engine \<Rightarrow> log_db \<Rightarrow> log_scope \<Rightarrow> log_spec \<Rightarrow> log_row list" where
  "selected E d sc q = filter (\<lambda>r. lr_service r = s_service sc \<and> s_start sc \<le> lr_time r \<and> lr_time r \<le> s_end sc
     \<and> (q_terms q \<noteq> [] \<longrightarrow> in_index E d (fts_expression (q_terms q)) r)) (db_rows d)"

section \<open>The index stays in step\<close>

definition in_step :: "log_db \<Rightarrow> bool" where
  "in_step d \<longleftrightarrow> distinct (row_ids d) \<and> db_ai d \<and> db_ad d \<and> db_au d
     \<and> (\<exists>es. db_fts d = Some es \<and> mset es = image_mset message_entry (mset (db_rows d)))"

lemma find_mem: "find P xs = Some x \<Longrightarrow> x \<in> set xs \<and> P x"
  by (induction xs) (auto split: if_splits)

lemma in_step_initialize: "in_step d \<Longrightarrow> in_step (initialize_store d)"
  by (auto simp: in_step_def initialize_store_def create_ai_def create_ad_def create_au_def build_index_def
      fts_exists_def row_ids_def)

lemma first_initialize:
  "distinct (row_ids d) \<Longrightarrow> db_fts d = None \<Longrightarrow> in_step (initialize_store d)"
  by (simp add: in_step_def initialize_store_def create_ai_def create_ad_def create_au_def build_index_def
      fts_exists_def row_ids_def)

lemma in_step_insert: "in_step d \<Longrightarrow> insert_row r d = Inr d' \<Longrightarrow> in_step d'"
  by (auto simp: in_step_def insert_row_def fts_add_def row_ids_def Let_def split: if_splits)

lemma remove_mset_map: "x \<in> set xs \<Longrightarrow> image_mset f (mset xs - {#x#}) = image_mset f (mset xs) - {#f x#}"
  by (simp add: image_mset_Diff)

lemma distinct_remove1_map: "distinct (map f xs) \<Longrightarrow> distinct (map f (remove1 x xs))"
  unfolding distinct_map by (meson distinct_remove1 inj_on_subset set_remove1_subset)

lemma in_step_delete:
  assumes "in_step d"
  shows "in_step (delete_row i d)"
proof (cases "find (\<lambda>r. lr_id r = i) (db_rows d)")
  case None
  then show ?thesis using assms by (simp add: delete_row_def)
next
  case (Some r)
  then have r: "r \<in> set (db_rows d)" using find_mem by fastforce
  from assms obtain es where es: "db_fts d = Some es" "mset es = image_mset message_entry (mset (db_rows d))"
    and ids: "distinct (map lr_id (db_rows d))" and tr: "db_ai d" "db_ad d" "db_au d"
    by (auto simp: in_step_def row_ids_def)
  from Some tr have d': "delete_row i d = fts_delete r (d\<lparr>db_rows := remove1 r (db_rows d)\<rparr>)"
    by (simp add: delete_row_def)
  show ?thesis using es tr distinct_remove1_map[OF ids]
    by (simp add: in_step_def d' fts_delete_def row_ids_def remove_mset_map[OF r])
qed

lemma replaced_mset:
  "distinct xs \<Longrightarrow> x \<in> set xs \<Longrightarrow> mset (map (\<lambda>q. if q = x then y else q) xs) = add_mset y (mset (remove1 x xs))"
proof (induction xs)
  case (Cons q xs)
  show ?case
  proof (cases "q = x")
    case True
    then have "map (\<lambda>q. if q = x then y else q) xs = xs" using Cons.prems(1) by (intro map_idI) auto
    with True show ?thesis by simp
  qed (use Cons in auto)
qed simp

lemma replaced_ids:
  assumes "distinct (map key xs)" "x \<in> set xs" "key y = key x \<or> key y \<notin> key ` set xs"
  shows "distinct (map key (map (\<lambda>q. if q = x then y else q) xs))"
proof -
  have i: "inj_on key (set xs)" and d: "distinct xs" using assms(1) by (simp_all add: distinct_map)
  have "inj_on (\<lambda>q. key (if q = x then y else q)) (set xs)"
  proof (rule inj_onI)
    fix a b assume ab: "a \<in> set xs" "b \<in> set xs" and e: "key (if a = x then y else a) = key (if b = x then y else b)"
    have "key y \<noteq> key c \<and> key c \<noteq> key y" if "c \<in> set xs" "c \<noteq> x" for c
      using assms(2,3) that inj_onD[OF i, of c x] imageI[OF that(1), of key] by metis
    with ab e i show "a = b" by (cases "a = x"; cases "b = x") (auto dest: inj_onD)
  qed
  with d show ?thesis by (simp add: distinct_map comp_def)
qed

lemma in_step_update:
  assumes "in_step d" "update_row i r d = Inr d'"
  shows "in_step d'"
proof (cases "find (\<lambda>r. lr_id r = i) (db_rows d)")
  case None
  then show ?thesis using assms by (simp add: update_row_def)
next
  case (Some old)
  then have old: "old \<in> set (db_rows d)" "lr_id old = i" using find_mem by fastforce+
  from assms(1) obtain es where es: "db_fts d = Some es" "mset es = image_mset message_entry (mset (db_rows d))"
    and ids: "distinct (map lr_id (db_rows d))" and tr: "db_ai d" "db_ad d" "db_au d"
    by (auto simp: in_step_def row_ids_def)
  have d: "distinct (db_rows d)" using ids by (simp add: distinct_map)
  let ?rows = "map (\<lambda>q. if q = old then r else q) (db_rows d)"
  from assms(2) Some tr have ok: "lr_id r = i \<or> lr_id r \<notin> lr_id ` set (db_rows d)"
    and d': "d' = fts_add r (fts_delete old (d\<lparr>db_rows := ?rows\<rparr>))"
    by (auto simp: update_row_def Let_def row_ids_def split: if_splits)
  have "distinct (map lr_id ?rows)" using ids old(1) ok old(2) by (intro replaced_ids) auto
  moreover have "image_mset message_entry (mset ?rows)
      = add_mset (message_entry r) (image_mset message_entry (mset (remove1 old (db_rows d))))"
    using replaced_mset[OF d old(1), of r] by simp
  ultimately show ?thesis
    using es tr old(1) by (simp add: in_step_def d' fts_add_def fts_delete_def row_ids_def remove_mset_map)
qed

lemma in_step_ops: "in_step d \<Longrightarrow> in_step (fold apply_op ops d)"
proof (induction ops arbitrary: d)
  case (Cons a ops)
  then have "in_step (apply_op a d)"
    by (cases a) (auto split: sum.splits intro: in_step_insert in_step_delete in_step_update in_step_initialize)
  with Cons.IH show ?case by simp
qed simp

lemma in_index_message:
  assumes "in_step d" "r \<in> set (db_rows d)"
  shows "in_index E d expr r \<longleftrightarrow> fts_match E expr (json_extract (u ''message'') (lr_payload r))"
proof -
  from assms(1) obtain es where es: "db_fts d = Some es" "mset es = image_mset message_entry (mset (db_rows d))"
    and ids: "inj_on lr_id (set (db_rows d))"
    by (auto simp: in_step_def row_ids_def distinct_map)
  have "set es = message_entry ` set (db_rows d)" using arg_cong[OF es(2), of set_mset] by simp
  with es(1) assms(2) ids show ?thesis
    by (auto simp: in_index_def message_entry_def image_iff dest: inj_onD)
qed

text \<open>
  C38: What a query selects through the full-text index is what \<open>in_query\<close> selects by the messages
  themselves, whatever inserts, updates, deletes and restarts have happened since the index was made
  for a log table without one.
\<close>

theorem search_index_in_step:
  assumes "distinct (row_ids d)" "db_fts d = None"
  shows "let d' = fold apply_op ops (initialize_store d) in
    selected E d' sc q = filter (in_query E sc q) (db_rows d')"
proof -
  have s: "in_step (fold apply_op ops (initialize_store d))"
    using in_step_ops[OF first_initialize[OF assms]] .
  show ?thesis unfolding Let_def selected_def
    by (rule filter_cong) (auto simp: in_query_def in_index_message[OF s])
qed

definition sample_engine :: engine where
  "sample_engine = \<lparr>fts_match = (\<lambda>e m. m = JStr (u ''pool'')), scan_order = id, json_text = (\<lambda>_. []), utc_iso = Inr, float_repr = id\<rparr>"

definition sample_log :: "int \<Rightarrow> log_row" where
  "sample_log i = \<lparr>lr_id = i, lr_service = u ''svc-17'', lr_time = u ''2026-01-01'',
     lr_payload = JObj [(u ''message'', JStr (u ''pool''))]\<rparr>"

definition sample_db :: log_db where
  "sample_db = \<lparr>db_rows = [sample_log 1], db_fts = None, db_ai = False, db_ad = False, db_au = False\<rparr>"

theorem search_index_in_step_witness:
  "let d' = fold apply_op [Insert (sample_log 2), Delete 1, Restart] (initialize_store sample_db) in
    selected sample_engine d' \<lparr>s_service = u ''svc-17'', s_start = [], s_end = [200]\<rparr> \<lparr>q_terms = [u ''pool''], q_levels = [], q_mode = []\<rparr>
      = filter (in_query sample_engine \<lparr>s_service = u ''svc-17'', s_start = [], s_end = [200]\<rparr> \<lparr>q_terms = [u ''pool''], q_levels = [], q_mode = []\<rparr>)
          (db_rows d')"
  by (rule search_index_in_step) (simp_all add: sample_db_def row_ids_def)

text \<open>
  The triggers come after the commit: a row another connection inserts in between is in the table but
  never in the index, and no restart notices.
\<close>

lemma insert_before_triggers_unsearchable:
  "let d = create_au (create_ad (create_ai (apply_op (Insert (sample_log 2)) (build_index (fts_exists sample_db) sample_db)))) in
   sample_log 2 \<in> set (db_rows (initialize_store d)) \<and> \<not> in_index E (initialize_store d) expr (sample_log 2)"
  by (simp add: Let_def sample_db_def build_index_def fts_exists_def insert_row_def row_ids_def sample_log_def
      create_ai_def create_ad_def create_au_def initialize_store_def in_index_def message_entry_def image_iff)

end
