(* ===== verification/Retention.thy ===== *)
theory Retention
  imports Artifacts
begin

text \<open>
  \<^verbatim>\<open>scripts/retention.py\<close>: the administrative removal of what is older than a number of days, in one
  transaction on the business database, one on the agent's, and the cleanup of \<open>Artifacts\<close>. Columns
  that it neither reads nor writes are left out; the session's time zone has days of 86400 seconds.
\<close>

section \<open>The databases\<close>

record investigation =
  in_id :: str
  in_report :: json
  in_manifest :: json
  in_created :: rat

record stored_event =
  se_investigation :: str
  se_seq :: int
  se_payload :: json

record rate_limit =
  rl_subject :: str
  rl_window :: int
  rl_count :: int

record business =
  bu_investigations :: "investigation list"
  bu_events :: "stored_event list"
  bu_limits :: "rate_limit list"

text \<open>A row of the three checkpoint tables is its \<open>thread_id\<close> and the rest.\<close>

record agent_db =
  ag_tables :: "(str \<times> (str \<times> json) list) list"
  ag_cache :: cache_db

record retained =
  re_business :: business
  re_agent :: agent_db
  re_store :: store

text \<open>
  How a transaction ends: committed, failed and rolled back, or committed although the client never
  learns it, since the connection broke.
\<close>

datatype tx_end = Committed | Failed exn | Unacknowledged exn

record cleaning =
  cl_days :: int
  cl_checkpoint_url :: bool
  cl_s3 :: bool
  cl_business_now :: rat
  cl_agent_now :: rat
  cl_now :: rat
  cl_store_now :: rat
  cl_business_end :: tx_end
  cl_agent_end :: tx_end
  cl_object_fault :: "str \<Rightarrow> exn option"

type_synonym 'a R = "(retained, 'a) M"

definition transaction :: "tx_end \<Rightarrow> (retained \<Rightarrow> 'a \<times> retained) \<Rightarrow> 'a R" where
  "transaction e f = (\<lambda>s. case e of
     Committed \<Rightarrow> (Inr (fst (f s)), snd (f s))
   | Failed x \<Rightarrow> (Inl x, s)
   | Unacknowledged x \<Rightarrow> (Inl x, snd (f s)))"

section \<open>The statements\<close>

text \<open>SQL's \<open>like\<close>: \<open>%\<close> is any text, \<open>_\<close> one character, \<open>\\<close> takes the next one as it is.\<close>

fun like :: "str \<Rightarrow> str \<Rightarrow> bool" where
  "like [] t = (t = [])"
| "like (c # p) [] = (c = 37 \<and> like p [])"
| "like (c # p) (d # t) =
     (if c = 37 then like p (d # t) \<or> like (c # p) t
      else if c = 95 then like p t
      else if c = 92 then (case p of [] \<Rightarrow> False | q # p' \<Rightarrow> q = d \<and> like p' t)
      else c = d \<and> like p t)"

definition too_old :: "rat \<Rightarrow> int \<Rightarrow> rat \<Rightarrow> bool" where
  "too_old now days t \<longleftrightarrow> t < now - of_int days * 86400"

definition old_ids :: "cleaning \<Rightarrow> business \<Rightarrow> str list" where
  "old_ids E b = map in_id (filter (\<lambda>i. too_old (cl_business_now E) (cl_days E) (in_created i)) (bu_investigations b))"

definition redact_reports :: "cleaning \<Rightarrow> business \<Rightarrow> business" where
  "redact_reports E b = b\<lparr>bu_investigations := map (\<lambda>i.
     if too_old (cl_business_now E) (cl_days E) (in_created i) then i\<lparr>in_report := JNull, in_manifest := JNull\<rparr> else i)
     (bu_investigations b)\<rparr>"

definition removed_payload :: json where
  "removed_payload = JObj [(u ''retention_removed'', JBool True)]"

definition redact_events :: "str \<Rightarrow> business \<Rightarrow> business" where
  "redact_events i b = b\<lparr>bu_events := map (\<lambda>e. if se_investigation e = i then e\<lparr>se_payload := removed_payload\<rparr> else e) (bu_events b)\<rparr>"

definition drop_limits :: "cleaning \<Rightarrow> business \<Rightarrow> business" where
  "drop_limits E b = b\<lparr>bu_limits := filter (\<lambda>l. \<not> of_int (rl_window l) < cl_business_now E - 3600) (bu_limits b)\<rparr>"

definition clean_business :: "cleaning \<Rightarrow> business \<Rightarrow> str list \<times> business" where
  "clean_business E b = (let ids = old_ids E b in
     (ids, drop_limits E (fold redact_events ids (redact_reports E b))))"

definition checkpoint_tables :: "str list" where
  "checkpoint_tables = [u ''checkpoint_writes'', u ''checkpoint_blobs'', u ''checkpoints'']"

definition thread_pattern :: "str \<Rightarrow> str" where
  "thread_pattern i = i @ u '':g%''"

definition delete_threads :: "str \<Rightarrow> str \<Rightarrow> agent_db \<Rightarrow> agent_db" where
  "delete_threads i table a = a\<lparr>ag_tables := map (\<lambda>(n, rows). (n,
     if n = table then filter (\<lambda>r. \<not> like (thread_pattern i) (fst r)) rows else rows)) (ag_tables a)\<rparr>"

definition clean_agent :: "cleaning \<Rightarrow> str list \<Rightarrow> agent_db \<Rightarrow> agent_db" where
  "clean_agent E ids a =
     (let a' = fold (\<lambda>i. fold (delete_threads i) checkpoint_tables) ids a in
      a'\<lparr>ag_cache := (ag_cache a')\<lparr>cache_rows :=
        filter (\<lambda>r. \<not> too_old (cl_agent_now E) (cl_days E) (c_created r)) (cache_rows (ag_cache a'))\<rparr>\<rparr>)"

section \<open>The program\<close>

text \<open>The two numbers it prints; the second only with an object store.\<close>

definition retention :: "cleaning \<Rightarrow> (nat \<times> nat option) R" where
  "retention E =
     sq (guard_M (1 \<le> cl_days E) (OtherError (u ''AssertionError'') []))
     (bnd (transaction (cl_business_end E) (\<lambda>s. let (ids, b) = clean_business E (re_business s) in (ids, s\<lparr>re_business := b\<rparr>))) (\<lambda>ids.
      sq (when_M (cl_checkpoint_url E) (transaction (cl_agent_end E) (\<lambda>s. ((), s\<lparr>re_agent := clean_agent E ids (re_agent s)\<rparr>))))
      (if cl_s3 E \<and> cl_checkpoint_url E
       then bnd (\<lambda>s. case art_cleanup (cl_now E) (cl_store_now E) (of_int (cl_days E)) (cl_object_fault E) (re_store s) of
                  (r, d) \<Rightarrow> (r, s\<lparr>re_store := d\<rparr>)) (\<lambda>n. ret (length ids, Some n))
       else ret (length ids, None))))"

section \<open>What a complete run does\<close>

text \<open>The three parts at once, each as one pass over its rows.\<close>

definition swept_business :: "cleaning \<Rightarrow> business \<Rightarrow> business" where
  "swept_business E b = \<lparr>
     bu_investigations = map (\<lambda>i. if too_old (cl_business_now E) (cl_days E) (in_created i)
       then i\<lparr>in_report := JNull, in_manifest := JNull\<rparr> else i) (bu_investigations b),
     bu_events = map (\<lambda>e. if se_investigation e \<in> set (old_ids E b) then e\<lparr>se_payload := removed_payload\<rparr> else e) (bu_events b),
     bu_limits = filter (\<lambda>l. cl_business_now E - 3600 \<le> of_int (rl_window l)) (bu_limits b)\<rparr>"

definition of_old_thread :: "str list \<Rightarrow> str \<Rightarrow> bool" where
  "of_old_thread ids t \<longleftrightarrow> list_ex (\<lambda>i. like (thread_pattern i) t) ids"

definition swept_agent :: "cleaning \<Rightarrow> str list \<Rightarrow> agent_db \<Rightarrow> agent_db" where
  "swept_agent E ids a = \<lparr>
     ag_tables = map (\<lambda>(n, rows). (n, if n \<in> set checkpoint_tables then filter (\<lambda>r. \<not> of_old_thread ids (fst r)) rows else rows)) (ag_tables a),
     ag_cache = (ag_cache a)\<lparr>cache_rows := filter (\<lambda>r. \<not> too_old (cl_agent_now E) (cl_days E) (c_created r)) (cache_rows (ag_cache a))\<rparr>\<rparr>"

definition expired_keys :: "cleaning \<Rightarrow> store \<Rightarrow> str list" where
  "expired_keys E d = map ar_key (filter (expired (cl_now E) (cl_store_now E) (of_int (cl_days E))) (art_rows d))"

definition swept_store :: "cleaning \<Rightarrow> store \<Rightarrow> store" where
  "swept_store E d = \<lparr>art_rows = filter (\<lambda>r. ar_key r \<notin> set (expired_keys E d)) (art_rows d),
     objects_of = (\<lambda>k. if k \<in> set (expired_keys E d) then None else objects_of d k)\<rparr>"

definition swept :: "cleaning \<Rightarrow> retained \<Rightarrow> retained" where
  "swept E s = \<lparr>re_business = swept_business E (re_business s),
     re_agent = (if cl_checkpoint_url E then swept_agent E (old_ids E (re_business s)) (re_agent s) else re_agent s),
     re_store = (if cl_s3 E \<and> cl_checkpoint_url E then swept_store E (re_store s) else re_store s)\<rparr>"

lemma fold_redact_events:
  "fold redact_events ids b = b\<lparr>bu_events := map (\<lambda>e. if se_investigation e \<in> set ids then e\<lparr>se_payload := removed_payload\<rparr> else e) (bu_events b)\<rparr>"
  by (induction ids arbitrary: b) (auto simp: redact_events_def intro!: map_cong)

lemma clean_business_swept: "clean_business E b = (old_ids E b, swept_business E b)"
  by (cases b) (simp add: clean_business_def fold_redact_events swept_business_def redact_reports_def drop_limits_def Let_def not_less)

lemma fold_tables:
  "fold (delete_threads i) ts a = a\<lparr>ag_tables := map (\<lambda>(n, rows). (n,
     if n \<in> set ts then filter (\<lambda>r. \<not> like (thread_pattern i) (fst r)) rows else rows)) (ag_tables a)\<rparr>"
proof (induction ts arbitrary: a)
  case (Cons t ts)
  show ?case unfolding fold_simps comp_apply Cons.IH by (auto simp: delete_threads_def o_def split: prod.splits intro!: map_cong filter_cong)
qed simp

lemma fold_threads:
  "fold (\<lambda>i. fold (delete_threads i) ts) ids a = a\<lparr>ag_tables := map (\<lambda>(n, rows). (n,
     if n \<in> set ts then filter (\<lambda>r. \<not> of_old_thread ids (fst r)) rows else rows)) (ag_tables a)\<rparr>"
proof (induction ids arbitrary: a)
  case (Cons i ids)
  show ?case unfolding fold_simps comp_apply Cons.IH
    by (auto simp: fold_tables of_old_thread_def o_def split: prod.splits intro!: map_cong filter_cong)
next
  case Nil
  show ?case by (cases a) (auto simp: of_old_thread_def intro!: map_idI[symmetric])
qed

lemma clean_agent_swept: "clean_agent E ids a = swept_agent E ids a"
  by (simp add: clean_agent_def fold_threads swept_agent_def)

lemma cleanup_swept:
  assumes "art_cleanup (cl_now E) (cl_store_now E) (of_int (cl_days E)) f d = (Inr n, d')"
  shows "d' = swept_store E d"
proof -
  have run: "delete_all f (expired_keys E d) d d = (Inr (), d')"
    using assms by (auto simp: art_cleanup_def expired_keys_def Let_def split: prod.splits sum.splits)
  from delete_all_Inr[OF run] show ?thesis by (cases d') (simp add: swept_store_def)
qed

lemma delete_all_Inl:
  "delete_all f ks old d = (Inl e, d') \<Longrightarrow> art_rows d' = art_rows old
     \<and> (\<exists>K. K \<subseteq> set ks \<and> objects_of d' = (\<lambda>k. if k \<in> K then None else objects_of d k))"
proof (induction ks arbitrary: d)
  case (Cons k ks)
  show ?case
  proof (cases "f k")
    case (Some x)
    with Cons.prems show ?thesis by (auto simp: delete_one_def intro!: exI[of _ "{}"])
  next
    case None
    with Cons.prems have "delete_all f ks old (d\<lparr>objects_of := (objects_of d)(k := None),
        art_rows := filter (\<lambda>r. ar_key r \<noteq> k) (art_rows d)\<rparr>) = (Inl e, d')"
      by (simp add: delete_one_def)
    from Cons.IH[OF this] obtain K where "art_rows d' = art_rows old" "K \<subseteq> set ks"
      "objects_of d' = (\<lambda>j. if j \<in> K then None else objects_of (d\<lparr>objects_of := (objects_of d)(k := None),
        art_rows := filter (\<lambda>r. ar_key r \<noteq> k) (art_rows d)\<rparr>) j)" by blast
    then show ?thesis by (intro conjI exI[of _ "insert k K"]) (auto simp: fun_eq_iff)
  qed
qed simp

lemma expired_keys_swept: "expired_keys E (swept_store E d) = []"
  by (auto simp: swept_store_def expired_keys_def filter_empty_conv)

lemma swept_store_after:
  assumes "art_cleanup (cl_now E) (cl_store_now E) (of_int (cl_days E)) f d = (r, d')"
  shows "swept_store E d' = swept_store E d"
proof (cases r)
  case (Inr n)
  have "swept_store E (swept_store E d) = swept_store E d"
    unfolding swept_store_def[of E "swept_store E d"] expired_keys_swept by (cases "swept_store E d") simp
  with cleanup_swept assms Inr show ?thesis by simp
next
  case (Inl e)
  with assms have "delete_all f (expired_keys E d) d d = (Inl e, d')"
    by (auto simp: art_cleanup_def expired_keys_def Let_def split: prod.splits sum.splits)
  from delete_all_Inl[OF this] obtain K where "art_rows d' = art_rows d" "K \<subseteq> set (expired_keys E d)"
    "objects_of d' = (\<lambda>k. if k \<in> K then None else objects_of d k)" by blast
  then show ?thesis by (auto simp: swept_store_def expired_keys_def fun_eq_iff)
qed

lemma old_ids_swept [simp]: "old_ids E (swept_business E b) = old_ids E b"
  by (induction "bu_investigations b" arbitrary: b) (auto simp: old_ids_def swept_business_def filter_map o_def intro!: map_cong filter_cong)

lemma swept_business_idem: "swept_business E (swept_business E b) = swept_business E b"
proof -
  have "swept_business E (swept_business E b) = \<lparr>
     bu_investigations = bu_investigations (swept_business E b), bu_events = bu_events (swept_business E b),
     bu_limits = bu_limits (swept_business E b)\<rparr>"
    unfolding swept_business_def[of E "swept_business E b"] old_ids_swept by (auto simp: swept_business_def)
  then show ?thesis by simp
qed

lemma swept_agent_idem: "swept_agent E ids (swept_agent E ids a) = swept_agent E ids a"
  by (auto simp: swept_agent_def)

lemma transaction_Inr:
  "transaction e f s = (Inr x, t) \<longleftrightarrow> e = Committed \<and> f s = (x, t)"
  by (cases e) (auto simp: transaction_def prod_eq_iff)

lemma transaction_state:
  "transaction e f s = (r, t) \<Longrightarrow> t = s \<or> t = snd (f s)"
  by (cases e) (auto simp: transaction_def)

lemma retention_Inr:
  assumes "retention E s = (Inr out, t)"
  shows "t = swept E s" "fst out = length (old_ids E (re_business s))"
proof -
  have "t = swept E s \<and> fst out = length (old_ids E (re_business s))"
    using assms
    by (auto simp: retention_def run_Inr transaction_Inr clean_business_swept clean_agent_swept when_M_def swept_def
        dest!: cleanup_swept split: if_splits prod.splits)
  then show "t = swept E s" "fst out = length (old_ids E (re_business s))" by simp_all
qed

text \<open>Whatever a run did, ended or not, a complete run afterwards does the same as one from the start.\<close>

definition drop_artifacts :: "cleaning \<Rightarrow> str list \<Rightarrow> (nat \<times> nat option) R" where
  "drop_artifacts E ids = (if cl_s3 E \<and> cl_checkpoint_url E
       then bnd (\<lambda>s. case art_cleanup (cl_now E) (cl_store_now E) (of_int (cl_days E)) (cl_object_fault E) (re_store s) of
                  (r, d) \<Rightarrow> (r, s\<lparr>re_store := d\<rparr>)) (\<lambda>n. ret (length ids, Some n))
       else ret (length ids, None))"

lemma swept_drop_artifacts:
  assumes "drop_artifacts E ids s = (r, t)"
  shows "swept E t = swept E s"
proof -
  have d: "swept E (s\<lparr>re_store := d\<rparr>) = swept E s"
    if "cl_s3 E \<and> cl_checkpoint_url E"
      "art_cleanup (cl_now E) (cl_store_now E) (of_int (cl_days E)) f (re_store s) = (q, d)" for f q d
    using that(1) swept_store_after[OF that(2)] by (simp add: swept_def)
  show ?thesis using assms d by (cases r) (auto simp: drop_artifacts_def bnd_Inl bnd_Inr split: if_splits prod.splits)
qed

lemma swept_drop_threads:
  assumes "when_M (cl_checkpoint_url E) (transaction (cl_agent_end E)
      (\<lambda>s. ((), s\<lparr>re_agent := clean_agent E (old_ids E (re_business s0)) (re_agent s)\<rparr>))) s = (r, t)"
    and "old_ids E (re_business s) = old_ids E (re_business s0)"
  shows "swept E t = swept E s"
proof (cases "cl_checkpoint_url E")
  case True
  with assms(1) have "t = s \<or> t = s\<lparr>re_agent := swept_agent E (old_ids E (re_business s)) (re_agent s)\<rparr>"
    by (auto simp: when_M_def clean_agent_swept assms(2) dest: transaction_state)
  with True show ?thesis by (auto simp: swept_def swept_agent_idem)
qed (use assms(1) in \<open>simp add: when_M_def\<close>)

lemma swept_after:
  assumes "retention E s = (r, t)"
  shows "swept E t = swept E s"
proof -
  have b: "swept E (s\<lparr>re_business := swept_business E (re_business s)\<rparr>) = swept E s"
    by (simp add: swept_def swept_business_idem)
  define clean where "clean = (\<lambda>s :: retained. let (ids, b) = clean_business E (re_business s) in (ids, s\<lparr>re_business := b\<rparr>))"
  have c: "clean s = (old_ids E (re_business s), s\<lparr>re_business := swept_business E (re_business s)\<rparr>)"
    by (simp add: clean_def clean_business_swept)
  obtain q s1 where m: "transaction (cl_business_end E) clean s = (q, s1)" by (metis surj_pair)
  have s1: "swept E s1 = swept E s" using transaction_state[OF m] b by (auto simp: c)
  from assms have r: "sq (guard_M (1 \<le> cl_days E) (OtherError (u ''AssertionError'') []))
     (bnd (transaction (cl_business_end E) clean) (\<lambda>ids.
      sq (when_M (cl_checkpoint_url E) (transaction (cl_agent_end E) (\<lambda>s. ((), s\<lparr>re_agent := clean_agent E ids (re_agent s)\<rparr>))))
      (drop_artifacts E ids))) s = (r, t)"
    by (simp add: retention_def drop_artifacts_def clean_def)
  show ?thesis
  proof (cases "cl_days E \<ge> 1 \<and> \<not> isl q")
    case False
    with r m s1 show ?thesis by (cases q) (auto simp: monad_defs split: if_splits)
  next
    case True
    then obtain ids where q: "q = Inr ids" by (cases q) auto
    with m have i: "ids = old_ids E (re_business s)" "old_ids E (re_business s1) = old_ids E (re_business s)"
      by (auto simp: transaction_Inr c)
    obtain p s2 where a: "when_M (cl_checkpoint_url E) (transaction (cl_agent_end E)
        (\<lambda>s. ((), s\<lparr>re_agent := clean_agent E ids (re_agent s)\<rparr>))) s1 = (p, s2)" by (metis surj_pair)
    then have s2: "swept E s2 = swept E s1" using swept_drop_threads[of E s s1 p s2] i by simp
    have "t = s2 \<or> drop_artifacts E ids s2 = (r, t)"
      using r True m a q by (cases p) (auto simp: guard_M_def sq_def bnd_def ret_def)
    with swept_drop_artifacts s1 s2 show ?thesis by metis
  qed
qed

text \<open>Attempts with the same clocks and settings, each ending in its own way.\<close>

type_synonym ending = "tx_end \<times> tx_end \<times> (str \<Rightarrow> exn option)"

definition ending_with :: "cleaning \<Rightarrow> ending \<Rightarrow> cleaning" where
  "ending_with E f = (case f of (b, a, k) \<Rightarrow> E\<lparr>cl_business_end := b, cl_agent_end := a, cl_object_fault := k\<rparr>)"

definition attempts :: "cleaning \<Rightarrow> ending list \<Rightarrow> retained \<Rightarrow> retained" where
  "attempts E = fold (\<lambda>f s. snd (retention (ending_with E f) s))"

lemma swept_ending: "swept (ending_with E f) = swept E"
  by (cases f) (simp add: fun_eq_iff ending_with_def swept_def swept_business_def old_ids_def swept_agent_def swept_store_def expired_keys_def)

lemma swept_attempts: "swept E (attempts E fs s) = swept E s"
proof (induction fs arbitrary: s)
  case (Cons f fs)
  have "swept E (snd (retention (ending_with E f) s)) = swept E s"
    using swept_after[of "ending_with E f" s] unfolding swept_ending by (metis prod.collapse)
  with Cons.IH[of "snd (retention (ending_with E f) s)"] show ?case by (simp add: attempts_def)
qed (simp add: attempts_def)

section \<open>Threads\<close>

definition plain :: "str \<Rightarrow> bool" where
  "plain p \<longleftrightarrow> list_all (\<lambda>c. c \<noteq> 37 \<and> c \<noteq> 95 \<and> c \<noteq> 92 \<and> c \<noteq> 58) p"

lemma like_any: "like [37] t"
  by (induction t) auto

lemma like_plain: "plain p \<Longrightarrow> like (p @ q) t \<longleftrightarrow> (\<exists>t'. t = p @ t' \<and> like q t')"
proof (induction p arbitrary: t)
  case (Cons c p)
  then show ?case by (cases t) (auto simp: plain_def)
qed (simp add: plain_def)

lemma like_thread: "plain i \<Longrightarrow> like (thread_pattern i) t \<longleftrightarrow> (\<exists>g. t = i @ u '':g'' @ g)"
proof -
  assume i: "plain i"
  have "like (u '':g%'') t \<longleftrightarrow> (\<exists>g. t = u '':g'' @ g)" for t
  proof -
    have "like (u '':g%'') t \<longleftrightarrow> (\<exists>g. t = 58 # 103 # g \<and> like [37] g)"
    proof (cases t)
      case (Cons a r)
      then show ?thesis by (cases r) (auto simp: u_def)
    qed (simp add: u_def)
    then show ?thesis by (simp add: like_any) (simp add: u_def)
  qed
  with like_plain[OF i, of "u '':g%''" t] show ?thesis by (auto simp: thread_pattern_def)
qed

text \<open>The checkpoints of the deep agent, whose threads \<open>harness.py\<close> names differently, match no pattern.\<close>

lemma model_thread_kept:
  assumes "list_all plain ids" "plain i"
  shows "\<not> of_old_thread ids (i @ u '':model:'' @ n)"
proof
  assume "of_old_thread ids (i @ u '':model:'' @ n)"
  then obtain j where j: "plain j" "like (thread_pattern j) (i @ u '':model:'' @ n)"
    using assms(1) by (auto simp: of_old_thread_def list_ex_iff list_all_iff)
  then obtain g where e: "i @ 58 # 109 # u ''odel:'' @ n = j @ 58 # 103 # g" by (auto simp: like_thread u_def)
  have "takeWhile (\<lambda>c. c \<noteq> 58) (p @ 58 # q) = p" if "plain p" for p q
    using that by (induction p) (auto simp: plain_def)
  with e assms(2) j(1) have "i = j" by metis
  with e show False by simp
qed

section \<open>Properties\<close>

lemma delete_all_done: "\<exists>d'. delete_all (\<lambda>_. None) ks old d = (Inr (), d')"
  by (induction ks arbitrary: d) (auto simp: delete_one_def)

lemma retention_ends:
  assumes "1 \<le> cl_days E" "cl_business_end E = Committed" "cl_agent_end E = Committed" "cl_object_fault E = (\<lambda>_. None)"
  shows "\<exists>out t. retention E s = (Inr out, t)"
proof -
  have "\<exists>n d'. art_cleanup (cl_now E) (cl_store_now E) (of_int (cl_days E)) (\<lambda>_. None) d = (Inr n, d')" for d
    using delete_all_done[of "map ar_key (filter (expired (cl_now E) (cl_store_now E) (of_int (cl_days E))) (art_rows d))" d d]
    by (auto simp: art_cleanup_def Let_def)
  then obtain f g where "\<And>d. art_cleanup (cl_now E) (cl_store_now E) (of_int (cl_days E)) (\<lambda>_. None) d = (Inr (f d), g d)" by metis
  with assms show ?thesis
    by (auto simp: retention_def monad_defs transaction_def clean_business_swept split: prod.splits)
qed

text \<open>
  C40: However the earlier attempts ended, by a statement that failed, a connection that broke around a commit or an object that
  could not be deleted, a run that meets no failure finishes and leaves what one run from the start would:
  the old reports, manifests, event payloads, checkpoint threads, cached bundles and artifacts are gone, the rest is as it was.
\<close>

theorem retention_recovers:
  assumes "1 \<le> cl_days E" "cl_business_end E = Committed" "cl_agent_end E = Committed" "cl_object_fault E = (\<lambda>_. None)"
  shows "\<exists>out. retention E (attempts E fs s) = (Inr out, swept E s)"
  using retention_ends[OF assms, of "attempts E fs s"] retention_Inr(1) swept_attempts by metis

definition sample_cleaning :: cleaning where
  "sample_cleaning = \<lparr>cl_days = 30, cl_checkpoint_url = True, cl_s3 = True, cl_business_now = 10000000,
     cl_agent_now = 10000000, cl_now = 10000000, cl_store_now = 10000000, cl_business_end = Committed,
     cl_agent_end = Committed, cl_object_fault = (\<lambda>_. None)\<rparr>"

definition sample_retained :: retained where
  "sample_retained = \<lparr>re_business =
       \<lparr>bu_investigations = [\<lparr>in_id = u ''a1'', in_report = JInt 1, in_manifest = JInt 1, in_created = 0\<rparr>,
          \<lparr>in_id = u ''b2'', in_report = JInt 2, in_manifest = JInt 2, in_created = 9000000\<rparr>],
        bu_events = [\<lparr>se_investigation = u ''a1'', se_seq = 1, se_payload = JInt 3\<rparr>,
          \<lparr>se_investigation = u ''b2'', se_seq = 1, se_payload = JInt 4\<rparr>],
        bu_limits = [\<lparr>rl_subject = u ''alice'', rl_window = 9996000, rl_count = 1\<rparr>]\<rparr>,
     re_agent = \<lparr>ag_tables = [(u ''checkpoints'', [(u ''a1:g1'', JNull), (u ''a1:model:1'', JNull), (u ''b2:g1'', JNull)])],
        ag_cache = \<lparr>cache_rows = [], index_rows = []\<rparr>\<rparr>,
     re_store = sample_store\<rparr>"

definition broken :: "ending list" where
  "broken = [(Unacknowledged TransportError, Committed, \<lambda>_. None), (Committed, Failed TransportError, \<lambda>_. None),
     (Committed, Committed, \<lambda>k. if k = u ''staged'' then Some TransportError else None)]"

lemma sample_swept:
  "bu_events (re_business (swept sample_cleaning sample_retained))
     = [\<lparr>se_investigation = u ''a1'', se_seq = 1, se_payload = removed_payload\<rparr>,
        \<lparr>se_investigation = u ''b2'', se_seq = 1, se_payload = JInt 4\<rparr>]"
  "ag_tables (re_agent (swept sample_cleaning sample_retained))
     = [(u ''checkpoints'', [(u ''a1:model:1'', JNull), (u ''b2:g1'', JNull)])]"
  by code_simp+

theorem retention_recovers_witness:
  "\<exists>out t. retention sample_cleaning (attempts sample_cleaning broken sample_retained) = (Inr out, t)
     \<and> ag_tables (re_agent t) = [(u ''checkpoints'', [(u ''a1:model:1'', JNull), (u ''b2:g1'', JNull)])]"
proof -
  have "1 \<le> cl_days sample_cleaning" "cl_business_end sample_cleaning = Committed" "cl_agent_end sample_cleaning = Committed"
    "cl_object_fault sample_cleaning = (\<lambda>_. None)" by (simp_all add: sample_cleaning_def)
  from retention_recovers[OF this, of broken sample_retained] sample_swept(2) show ?thesis by auto
qed

end
