(* ===== verification/Benchmark.thy ===== *)
theory Benchmark
  imports Log_Store Calendar Retrieval
begin

text \<open>
  \<^verbatim>\<open>scripts/public_log_benchmark.py\<close>: the ingestion of two public log datasets into the log table, the
  cases it derives with what a query should find, and the check of those expectations against the
  table. The archives and their digests are parameters; timings, sizes and progress lines are left out.
\<close>

section \<open>Datasets\<close>

record dataset =
  sp_name :: str
  sp_file :: str
  sp_member :: str
  sp_md5 :: str
  sp_lines :: nat
  sp_service :: str

definition SPECS :: "dataset list" where
  "SPECS =
     [\<lparr>sp_name = u ''BGL'', sp_file = u ''BGL.zip'', sp_member = u ''BGL.log'',
       sp_md5 = u ''4452953c470f2d95fcb32d5f6e733f7a'', sp_lines = 4747963, sp_service = u ''svc-17''\<rparr>,
      \<lparr>sp_name = u ''HDFS'', sp_file = u ''HDFS_v1.zip'', sp_member = u ''HDFS.log'',
       sp_md5 = u ''76a24b4d9a6164d543fb275f89773260'', sp_lines = 11175629, sp_service = u ''svc-23''\<rparr>]"

definition is_bgl :: "dataset \<Rightarrow> bool" where
  "is_bgl d \<longleftrightarrow> sp_name d = u ''BGL''"

text \<open>The MD5 of an archive and the raw lines of a member of it.\<close>

record archives =
  ar_md5 :: "str \<Rightarrow> str"
  ar_lines :: "str \<Rightarrow> str \<Rightarrow> int list list"

text \<open>The database: the table of logs and the one of labels, which is not the application's.\<close>

record bench_db =
  bd_logs :: "log_row list"
  bd_alerts :: "(nat \<times> str) list option"

type_synonym 'a B = "(bench_db, 'a) M"

section \<open>One line\<close>

text \<open>\<open>s.split(" ", n)\<close>.\<close>

fun split_max :: "nat \<Rightarrow> str \<Rightarrow> str list" where
  "split_max 0 s = [s]"
| "split_max (Suc n) s = (case dropWhile (\<lambda>c. c \<noteq> 32) s of
     [] \<Rightarrow> [s] | _ # r \<Rightarrow> takeWhile (\<lambda>c. c \<noteq> 32) s # split_max n r)"

text \<open>\<open>raw.decode("utf-8").rstrip("\r\n")\<close>.\<close>

definition line_of :: "int list \<Rightarrow> str res" where
  "line_of raw = rbind (decode raw) (\<lambda>t. Inr (rev (dropWhile (\<lambda>c. c = 13 \<or> c = 10) (rev t))))"

text \<open>The kind of error of a time out of range is not distinguished.\<close>

definition epoch_iso :: "str \<Rightarrow> str res" where
  "epoch_iso s = rbind (py_int s) (\<lambda>n. case from_epoch n of
     None \<Rightarrow> Inl (ValueError (u ''year is out of range'')) | Some w \<Rightarrow> Inr (iso_text w))"

record parsed =
  pa_time :: str
  pa_level :: str
  pa_label :: "str option"
  pa_message :: str
  pa_bucket :: str
  pa_empty :: bool

definition malformed :: "str \<Rightarrow> nat \<Rightarrow> exn" where
  "malformed name n = ValueError (name @ u '' malformed line '' @ dec_nat n)"

definition parse_bgl :: "nat \<Rightarrow> str \<Rightarrow> parsed res" where
  "parse_bgl n line =
     (let fields = split_max 9 line in
      if length fields < 9 then Inl (malformed (u ''BGL'') n)
      else rbind (epoch_iso (fields ! 1)) (\<lambda>t.
        Inr \<lparr>pa_time = t, pa_level = fields ! 8, pa_label = Some (fields ! 0), pa_message = split_max 1 line ! 1,
             pa_bucket = take 10 t, pa_empty = (length fields = 9)\<rparr>))"

definition hdfs_time :: "str \<Rightarrow> str \<Rightarrow> str" where
  "hdfs_time day clk = u ''20'' @ take 2 day @ [45] @ take 2 (drop 2 day) @ [45] @ drop 4 day @ [84]
     @ take 2 clk @ [58] @ take 2 (drop 2 clk) @ [58] @ drop 4 clk @ u ''+00:00''"

definition parse_hdfs :: "nat \<Rightarrow> str \<Rightarrow> parsed res" where
  "parse_hdfs n line =
     (let fields = split_max 5 line in
      if length fields \<noteq> 6 \<or> length (fields ! 0) \<noteq> 6 \<or> length (fields ! 1) \<noteq> 6 then Inl (malformed (u ''HDFS'') n)
      else let t = hdfs_time (fields ! 0) (fields ! 1) in
        Inr \<lparr>pa_time = t, pa_level = fields ! 3, pa_label = None, pa_message = line, pa_bucket = take 13 t, pa_empty = False\<rparr>)"

definition parse_line :: "dataset \<Rightarrow> nat \<Rightarrow> int list \<Rightarrow> parsed res" where
  "parse_line d n raw = rbind (line_of raw) (if is_bgl d then parse_bgl n else parse_hdfs n)"

definition log_payload :: "dataset \<Rightarrow> nat \<Rightarrow> parsed \<Rightarrow> json" where
  "log_payload d n p = JObj
     [(u ''service_name'', JStr (if is_bgl d then u ''checkout-api'' else u ''payment-api'')), (u ''level'', JStr (pa_level p)),
      (u ''message'', JStr (pa_message p)), (u ''dataset'', JStr (sp_name d)), (u ''original_line'', JInt (int n))]"

section \<open>Ingestion\<close>

text \<open>\<open>counter[k] += 1\<close>.\<close>

definition bump :: "str \<Rightarrow> (str \<times> nat) list \<Rightarrow> (str \<times> nat) list" where
  "bump k d = AList.update k (dict_get d k 0 + 1) d"

record tally =
  ta_levels :: "(str \<times> nat) list"
  ta_labels :: "(str \<times> nat) list"
  ta_buckets :: "(str \<times> nat) list"
  ta_alerts :: "(str \<times> nat) list"
  ta_min :: str
  ta_max :: str
  ta_bytes :: nat
  ta_empty :: nat

definition no_tally :: tally where
  "no_tally = \<lparr>ta_levels = [], ta_labels = [], ta_buckets = [], ta_alerts = [], ta_min = u ''9999'', ta_max = [],
     ta_bytes = 0, ta_empty = 0\<rparr>"

definition alert_of :: "parsed \<Rightarrow> str option" where
  "alert_of p = (case pa_label p of Some l \<Rightarrow> if l \<noteq> u ''-'' then Some l else None | None \<Rightarrow> None)"

definition count_line :: "int list \<Rightarrow> parsed \<Rightarrow> tally \<Rightarrow> tally" where
  "count_line raw p t =
     \<lparr>ta_levels = bump (pa_level p) (ta_levels t),
      ta_labels = (case pa_label p of Some l \<Rightarrow> bump l (ta_labels t) | None \<Rightarrow> ta_labels t),
      ta_buckets = bump (pa_bucket p) (ta_buckets t),
      ta_alerts = (if alert_of p = None then ta_alerts t else bump (pa_bucket p) (ta_alerts t)),
      ta_min = min (ta_min t) (pa_time p), ta_max = max (ta_max t) (pa_time p),
      ta_bytes = ta_bytes t + length raw, ta_empty = ta_empty t + (if pa_empty p then 1 else 0)\<rparr>"

text \<open>The local variables of the loop; \<open>lo_n\<close> is the line number, unset before the first line.\<close>

record loop =
  lo_total :: nat
  lo_n :: "nat option"
  lo_tally :: tally
  lo_batch :: "log_row list"
  lo_truth :: "(nat \<times> str) list"

definition insert_batch :: "loop \<Rightarrow> unit B" where
  "insert_batch l = modify (\<lambda>s. s\<lparr>bd_logs := bd_logs s @ lo_batch l,
     bd_alerts := map_option (\<lambda>a. a @ lo_truth l) (bd_alerts s)\<rparr>)"

definition row_of :: "dataset \<Rightarrow> nat \<Rightarrow> nat \<Rightarrow> parsed \<Rightarrow> log_row" where
  "row_of d i n p = \<lparr>lr_id = int i, lr_service = sp_service d, lr_time = pa_time p, lr_payload = log_payload d n p\<rparr>"

definition add_line :: "dataset \<Rightarrow> nat \<Rightarrow> int list \<Rightarrow> parsed \<Rightarrow> loop \<Rightarrow> loop" where
  "add_line d n raw p l =
     (let i = lo_total l + 1 in
      \<lparr>lo_total = i, lo_n = Some n, lo_tally = count_line raw p (lo_tally l),
       lo_batch = lo_batch l @ [row_of d i n p],
       lo_truth = lo_truth l @ (case alert_of p of Some a \<Rightarrow> [(i, a)] | None \<Rightarrow> [])\<rparr>)"

definition ingest_line :: "dataset \<Rightarrow> nat \<Rightarrow> int list \<Rightarrow> loop \<Rightarrow> loop B" where
  "ingest_line d n raw l =
     bnd (lift (parse_line d n raw)) (\<lambda>p.
     let l' = add_line d n raw p l in
     if length (lo_batch l') \<ge> 10000 then sq (insert_batch l') (ret (l'\<lparr>lo_batch := [], lo_truth := []\<rparr>)) else ret l')"

fun ingest_lines :: "dataset \<Rightarrow> nat \<Rightarrow> int list list \<Rightarrow> loop \<Rightarrow> loop B" where
  "ingest_lines d n [] l = ret l"
| "ingest_lines d n (raw # raws) l = bnd (ingest_line d n raw l) (ingest_lines d (Suc n) raws)"

definition unbound_n :: exn where
  "unbound_n = OtherError (u ''UnboundLocalError'') (u ''n'')"

definition assertion :: exn where
  "assertion = OtherError (u ''AssertionError'') []"

text \<open>A dataset: fresh counters, its lines, the rest of the batch, the number of lines checked.\<close>

definition ingest_dataset :: "archives \<Rightarrow> dataset \<Rightarrow> loop \<Rightarrow> loop B" where
  "ingest_dataset A d l =
     bnd (ingest_lines d 1 (ar_lines A (sp_file d) (sp_member d)) (l\<lparr>lo_tally := no_tally, lo_batch := [], lo_truth := []\<rparr>)) (\<lambda>l.
     sq (when_M (lo_batch l \<noteq> []) (insert_batch l))
     (case lo_n l of
        None \<Rightarrow> raise unbound_n
      | Some n \<Rightarrow> if n \<noteq> sp_lines d then raise assertion else ret l))"

section \<open>Cases\<close>

record bench_case =
  bc_name :: str
  bc_dataset :: str
  bc_service :: str
  bc_start :: str
  bc_end :: str
  bc_records :: nat
  bc_alerts :: "nat option"

text \<open>\<open>available[round((len(available) - 1) * f)]\<close>, in floating point.\<close>

definition fractions :: "rat list" where
  "fractions = [0, 1 / 10, 1 / 4, 1 / 2, 3 / 4, 9 / 10, 1]"

definition quantile :: "str list \<Rightarrow> rat \<Rightarrow> str res" where
  "quantile av f = (let i = round_even (double (of_nat (length av - 1) * double f)) in
     if 0 \<le> i \<and> nat i < length av then Inr (av ! nat i) else Inl IndexError)"

text \<open>\<open>max(d, key=d.get)\<close> and \<open>min(ks, key=\<dots>)\<close>: the first of the best.\<close>

definition first_max :: "('a \<Rightarrow> 'k::linorder) \<Rightarrow> 'a \<Rightarrow> 'a list \<Rightarrow> 'a" where
  "first_max f x xs = fold (\<lambda>y best. if f best < f y then y else best) xs x"

definition first_min :: "('a \<Rightarrow> 'k::linorder) \<Rightarrow> 'a \<Rightarrow> 'a list \<Rightarrow> 'a" where
  "first_min f x xs = fold (\<lambda>y best. if f y < f best then y else best) xs x"

definition alert_keys :: "tally \<Rightarrow> str list" where
  "alert_keys t = (case map fst (ta_alerts t) of [] \<Rightarrow> []
     | k # ks \<Rightarrow> first_max (\<lambda>k. dict_get (ta_alerts t) k 0) k ks
         # (case filter (\<lambda>k. dict_get (ta_buckets t) k 0 > dict_get (ta_alerts t) k 0) (k # ks) of [] \<Rightarrow> []
            | m # ms \<Rightarrow> [first_min (\<lambda>k. double (of_nat (dict_get (ta_alerts t) k 0) / of_nat (dict_get (ta_buckets t) k 0))) m ms]))"

definition chosen_keys :: "tally \<Rightarrow> str list res" where
  "chosen_keys t = rbind (rmap (quantile (sort (map fst (ta_buckets t)))) fractions) (\<lambda>ks.
     Inr (sorted_list_of_set (set (ks @ alert_keys t))))"

text \<open>\<open>start.replace("Z", "+00:00")\<close>.\<close>

definition replace_z :: "str \<Rightarrow> str" where
  "replace_z t = concat (map (\<lambda>c. if c = 90 then u ''+00:00'' else [c]) t)"

definition case_start :: "dataset \<Rightarrow> str \<Rightarrow> str" where
  "case_start d k = k @ (if is_bgl d then u ''T00:00:00+00:00'' else u '':00:00+00:00'')"

definition case_end :: "dataset \<Rightarrow> str \<Rightarrow> str res" where
  "case_end d k = (case iso_parse (replace_z (case_start d k)) of
     None \<Rightarrow> Inl (ValueError (u ''Invalid isoformat string''))
   | Some w \<Rightarrow> let w' = w + (if is_bgl d then 86400 else 3600) in
       if max_second \<le> w' then Inl OverflowError else Inr (iso_text (w' - 1)))"

definition key_case :: "dataset \<Rightarrow> tally \<Rightarrow> str \<Rightarrow> bench_case res" where
  "key_case d t k = rbind (case_end d k) (\<lambda>e. Inr
     \<lparr>bc_name = sp_name d @ u '':'' @ k, bc_dataset = sp_name d, bc_service = sp_service d, bc_start = case_start d k,
      bc_end = e, bc_records = dict_get (ta_buckets t) k 0,
      bc_alerts = (if is_bgl d then Some (dict_get (ta_alerts t) k 0) else None)\<rparr>)"

definition dataset_cases :: "dataset \<Rightarrow> tally \<Rightarrow> bench_case list res" where
  "dataset_cases d t = rbind (chosen_keys t) (rmap (key_case d t))"

definition empty_case :: "dataset \<Rightarrow> bench_case" where
  "empty_case d = \<lparr>bc_name = sp_name d @ u '':empty'', bc_dataset = sp_name d, bc_service = sp_service d,
     bc_start = u ''2020-01-01T00:00:00Z'', bc_end = u ''2020-01-01T00:59:59Z'', bc_records = 0,
     bc_alerts = (if is_bgl d then Some 0 else None)\<rparr>"

section \<open>prepare\<close>

definition checksum :: "archives \<Rightarrow> dataset \<Rightarrow> unit res" where
  "checksum A d = (if ar_md5 A (sp_file d) \<noteq> sp_md5 d
     then Inl (ValueError (sp_name d @ u '': archive checksum mismatch'')) else Inr ())"

definition refuse :: exn where
  "refuse = RuntimeError (u ''Refusing to append to nonempty logs; use a fresh benchmark volume'')"

fun ingest_all :: "archives \<Rightarrow> dataset list \<Rightarrow> loop \<Rightarrow> (loop \<times> bench_case list) B" where
  "ingest_all A [] l = ret (l, [])"
| "ingest_all A (d # ds) l =
     bnd (ingest_dataset A d l) (\<lambda>l.
     bnd (lift (dataset_cases d (lo_tally l))) (\<lambda>cs.
     bnd (ingest_all A ds l) (\<lambda>(l, cs'). ret (l, cs @ cs'))))"

definition fresh_loop :: loop where
  "fresh_loop = \<lparr>lo_total = 0, lo_n = None, lo_tally = no_tally, lo_batch = [], lo_truth = []\<rparr>"

definition prepare :: "archives \<Rightarrow> dataset list \<Rightarrow> bench_case list B" where
  "prepare A specs =
     bnd (lift (rmap (checksum A) specs)) (\<lambda>_.
     bnd (gets bd_logs) (\<lambda>logs.
     sq (guard_M (logs = []) refuse)
     (bnd (gets bd_alerts) (\<lambda>alerts.
     sq (guard_M (alerts = None) (OtherError (u ''OperationalError'') (u ''table benchmark_alerts already exists'')))
     (sq (modify (\<lambda>s. s\<lparr>bd_alerts := Some []\<rparr>))
     (bnd (ingest_all A specs fresh_loop) (\<lambda>(l, cs).
      bnd (gets bd_logs) (\<lambda>logs.
      sq (guard_M (length logs = lo_total l) assertion)
         (ret (cs @ map empty_case specs))))))))))"

section \<open>source\<close>

definition window :: "bench_case \<Rightarrow> log_row \<Rightarrow> bool" where
  "window c r \<longleftrightarrow> lr_service r = bc_service c \<and> bc_start c \<le> lr_time r \<and> lr_time r \<le> bc_end c \<and> 0 < lr_id r"

text \<open>The statement \<open>SQL\<close> with the limit 51.\<close>

definition select_page :: "bench_db \<Rightarrow> bench_case \<Rightarrow> log_row list" where
  "select_page db c = take 51 (sort_key lr_id (filter (window c) (bd_logs db)))"

record source_result =
  sr_case :: bench_case
  sr_returned :: nat
  sr_next :: "str option"
  sr_ids :: "int list"
  sr_alerts :: "nat option"
  sr_matches :: bool

definition alert_hits :: "bench_db \<Rightarrow> log_row list \<Rightarrow> nat" where
  "alert_hits db page = sum_list (map (\<lambda>r. length (filter (\<lambda>(i, _). int i = lr_id r)
     (case bd_alerts db of Some a \<Rightarrow> a | None \<Rightarrow> []))) page)"

definition source_case :: "bench_db \<Rightarrow> bench_case \<Rightarrow> source_result" where
  "source_case db c = (let rows = select_page db c; page = take 50 rows in
     \<lparr>sr_case = c, sr_returned = length page, sr_next = (if length rows > 50 then Some (dec (lr_id (last page))) else None),
      sr_ids = map lr_id page, sr_alerts = (if bc_dataset c = u ''BGL'' then Some (alert_hits db page) else None),
      sr_matches = (length page = min (bc_records c) 50)\<rparr>)"

definition source :: "bench_case list \<Rightarrow> source_result list B" where
  "source cs = bnd (gets (\<lambda>db. map (source_case db) cs)) (\<lambda>rs.
     sq (guard_M (list_all sr_matches rs) assertion) (ret rs))"

section \<open>Windows\<close>

text \<open>
  A bucket is a prefix of the time text, a day or an hour; a case asks for the times from \<open>lo_of\<close> to
  \<open>hi_of\<close> after the prefix. On texts of that form the order of texts picks out the bucket.
\<close>

definition klen :: "dataset \<Rightarrow> nat" where
  "klen d = (if is_bgl d then 10 else 13)"

definition lo_of :: "dataset \<Rightarrow> str" where
  "lo_of d = (if is_bgl d then u ''T00:00:00+00:00'' else u '':00:00+00:00'')"

definition hi_of :: "dataset \<Rightarrow> str" where
  "hi_of d = (if is_bgl d then u ''T23:59:59+00:00'' else u '':59:59+00:00'')"

definition time_ok :: "dataset \<Rightarrow> str \<Rightarrow> bool" where
  "time_ok d t \<longleftrightarrow> lo_of d \<le> drop (klen d) t \<and> drop (klen d) t \<le> hi_of d"

lemma prefix_window: "k @ a \<le> t \<and> t \<le> k @ b \<longleftrightarrow> take (length k) t = k \<and> a \<le> drop (length k) t \<and> drop (length k) t \<le> b"
  for k t a b :: str
proof (induction k arbitrary: t)
  case IH: (Cons c k)
  show ?case
  proof (cases t)
    case (Cons e r)
    with IH[of r] show ?thesis by (cases e c rule: linorder_cases) (simp_all add: Cons_le_Cons)
  qed simp
qed simp

lemma pointwise_le: "list_all2 (\<le>) xs ys \<Longrightarrow> xs \<le> ys" for xs ys :: "int list"
  by (induction rule: list_all2_induct) auto

lemma digits_range:
  fixes a b c d e f :: int
  assumes "0 \<le> a" "0 \<le> b" "0 \<le> c" "c \<le> 5" "0 \<le> d" "d \<le> 9" "0 \<le> e" "e \<le> 5" "0 \<le> f" "f \<le> 9"
    and "a < 2 \<or> a = 2 \<and> b \<le> 3"
  shows "u ''T00:00:00+00:00'' \<le> [84, 48 + a, 48 + b, 58, 48 + c, 48 + d, 58, 48 + e, 48 + f, 43, 48, 48, 58, 48, 48]"
    "[84, 48 + a, 48 + b, 58, 48 + c, 48 + d, 58, 48 + e, 48 + f, 43, 48, 48, 58, 48, 48] \<le> u ''T23:59:59+00:00''"
proof -
  show "u ''T00:00:00+00:00'' \<le> [84, 48 + a, 48 + b, 58, 48 + c, 48 + d, 58, 48 + e, 48 + f, 43, 48, 48, 58, 48, 48]"
    by (rule pointwise_le) (use assms in \<open>simp add: u_def\<close>)
  have "[48 + c, 48 + d, 58, 48 + e, 48 + f, 43, 48, 48, 58, 48, 48] \<le> [53, 57, 58, 53, 57, 43, 48, 48, 58, 48, 48]"
    by (rule pointwise_le) (use assms in simp)
  with assms(11)
  show "[84, 48 + a, 48 + b, 58, 48 + c, 48 + d, 58, 48 + e, 48 + f, 43, 48, 48, 58, 48, 48] \<le> u ''T23:59:59+00:00''"
    by (auto simp: u_def)
qed

lemma two_digits:
  fixes n :: int
  assumes "0 \<le> n" "n \<le> 59"
  shows "0 \<le> n div 10 mod 10" "n div 10 mod 10 \<le> 5" "0 \<le> n mod 10" "n mod 10 \<le> 9"
proof -
  have "n div 10 \<le> 5" using assms(2) by linarith
  moreover have "n div 10 mod 10 \<le> n div 10" by (rule zmod_le_nonneg_dividend) (use assms in simp)
  ultimately show "n div 10 mod 10 \<le> 5" by (rule order_trans[rotated])
  show "n mod 10 \<le> 9" using pos_mod_bound[of 10 n] by simp
qed simp_all

lemma two_digits_23:
  fixes n :: int
  assumes "0 \<le> n" "n \<le> 23"
  shows "n div 10 mod 10 < 2 \<or> n div 10 mod 10 = 2 \<and> n mod 10 \<le> 3"
proof (cases "n < 20")
  case True
  then have "n div 10 < 2" by linarith
  moreover have "n div 10 mod 10 \<le> n div 10" by (rule zmod_le_nonneg_dividend) (use assms in simp)
  ultimately show ?thesis by simp
next
  case False
  then have "n div 10 = 2" using assms by (intro int_div_pos_eq[of _ 10 2 "n - 20"]) simp_all
  moreover from this have "n mod 10 = n - 20" using minus_div_mult_eq_mod[of n 10] by simp
  ultimately show ?thesis using assms by simp
qed

lemma clock_range:
  assumes "0 \<le> h" "h \<le> 23" "0 \<le> mi" "mi \<le> 59" "0 \<le> s" "s \<le> 59"
  shows "u ''T00:00:00+00:00'' \<le> iso_clock h mi s" "iso_clock h mi s \<le> u ''T23:59:59+00:00''"
proof -
  have c: "iso_clock h mi s = [84, 48 + h div 10 mod 10, 48 + h mod 10, 58, 48 + mi div 10 mod 10, 48 + mi mod 10, 58,
      48 + s div 10 mod 10, 48 + s mod 10, 43, 48, 48, 58, 48, 48]"
    by (simp only: iso_clock_def pad2_def append.simps) (simp add: u_def)
  have h: "h \<le> 59" using assms(2) by simp
  note r = two_digits[OF assms(1) h] two_digits[OF assms(3,4)] two_digits[OF assms(5,6)] two_digits_23[OF assms(1,2)]
  show "u ''T00:00:00+00:00'' \<le> iso_clock h mi s" "iso_clock h mi s \<le> u ''T23:59:59+00:00''"
    unfolding c by (rule digits_range; rule r)+
qed

lemma length_iso_date: "length (iso_date t) = 10"
  by (cases t) (simp add: iso_date_def pad2_def pad4_def)

lemma iso_text_clock: "drop 10 (iso_text w) = iso_clock (w mod 86400 div 3600) (w mod 86400 div 60 mod 60) (w mod 86400 mod 60)"
  "10 \<le> length (iso_text w)"
  by (simp_all add: iso_text_def Let_def length_iso_date)

lemma iso_text_range: "u ''T00:00:00+00:00'' \<le> drop 10 (iso_text w)" "drop 10 (iso_text w) \<le> u ''T23:59:59+00:00''"
proof -
  have t: "0 \<le> w mod 86400" "w mod 86400 < 86400" by simp_all
  have h: "w mod 86400 div 3600 \<le> 23" using t(2) by linarith
  show "u ''T00:00:00+00:00'' \<le> drop 10 (iso_text w)" "drop 10 (iso_text w) \<le> u ''T23:59:59+00:00''"
    unfolding iso_text_clock(1) by (rule clock_range; use t h in simp)+
qed

lemma parse_line_time:
  assumes "parse_line d n raw = Inr p"
  shows "pa_bucket p = take (klen d) (pa_time p)" "klen d \<le> length (pa_time p)" "is_bgl d \<Longrightarrow> time_ok d (pa_time p)"
proof -
  from assms obtain line where p: "(if is_bgl d then parse_bgl n line else parse_hdfs n line) = Inr p"
    by (auto simp: parse_line_def rbind_eq_Inr split: if_splits)
  show "pa_bucket p = take (klen d) (pa_time p)"
    using p by (auto simp: parse_bgl_def parse_hdfs_def Let_def rbind_eq_Inr klen_def split: if_splits)
  show "klen d \<le> length (pa_time p)"
    using p by (auto simp: parse_bgl_def parse_hdfs_def Let_def rbind_eq_Inr klen_def epoch_iso_def iso_text_clock
        hdfs_time_def split: if_splits option.splits)
  show "time_ok d (pa_time p)" if "is_bgl d"
    using p that by (auto simp: parse_bgl_def Let_def rbind_eq_Inr klen_def epoch_iso_def iso_text_range time_ok_def
        lo_of_def hi_of_def split: if_splits option.splits)
qed

lemma replace_z_length: "length t \<le> length (replace_z t)"
  by (induction t) (auto simp: replace_z_def)

lemma replace_z_id: "length (replace_z t) = length t \<Longrightarrow> replace_z t = t"
proof (induction t)
  case (Cons c t)
  then show ?case using replace_z_length[of t] by (auto simp: replace_z_def u_def split: if_splits)
qed (simp add: replace_z_def)

lemma case_start_lo: "case_start d k = k @ lo_of d"
  by (simp add: case_start_def lo_of_def)

lemma pad2_zero:
  assumes "pad2 n = [48, 48]" "0 \<le> n" "n \<le> 59"
  shows "n = 0"
proof -
  have m: "n div 10 mod 10 = 0" "n mod 10 = 0" using assms(1) unfolding pad2_def list.inject add_cancel_left_right by blast+
  have "0 \<le> n div 10" "n div 10 < 10" using assms(2,3) by linarith+
  then have "n div 10 = 0" using m(1) by (simp only: mod_pos_pos_trivial)
  then show ?thesis using m(2) minus_div_mult_eq_mod[of n 10] by (simp only:)
qed

lemma clock_eq:
  assumes "iso_clock h mi s = [84] @ hh @ u '':00:00+00:00''" "length hh = 2" "valid_clock h mi s"
  shows "mi = 0" "s = 0" "pad2 h = hh"
proof -
  obtain a b where hh: "hh = [a, b]" using assms(2) by (auto simp: numeral_2_eq_2 length_Suc_conv)
  from assms(1) have p: "pad2 h = hh" "pad2 mi = [48, 48]" "pad2 s = [48, 48]"
    by (simp_all add: iso_clock_def hh u_def pad2_def)
  show "mi = 0" by (rule pad2_zero[OF p(2)]) (use assms(3) in \<open>simp_all add: valid_clock_def\<close>)
  show "s = 0" by (rule pad2_zero[OF p(3)]) (use assms(3) in \<open>simp_all add: valid_clock_def\<close>)
  show "pad2 h = hh" by (rule p(1))
qed

lemma pad2_24:
  assumes "pad2 h = [48, 48]" "0 \<le> h" "h \<le> 23"
  shows "h = 0"
  using pad2_zero[OF assms(1,2)] assms(3) by simp

lemma case_end_text:
  assumes "case_end d k = Inr e" and k: "length k = klen d"
  shows "e = k @ hi_of d"
proof -
  from assms(1) obtain w where w: "iso_parse (replace_z (case_start d k)) = Some w"
    and e: "e = iso_text (w + (if is_bgl d then 86400 else 3600) - 1)"
    by (auto simp: case_end_def Let_def split: option.splits if_splits)
  from iso_parse_shape[OF w] obtain y m dd h mi s where v: "valid_day (y, m, dd)" "valid_clock h mi s"
    and ws: "w = second_of y m dd h mi s" and r: "replace_z (case_start d k) = iso_date (y, m, dd) @ iso_clock h mi s" by blast
  have "length (case_start d k) = 25" by (simp add: case_start_lo lo_of_def k klen_def u_def)
  moreover have "length (replace_z (case_start d k)) = 25" unfolding r by (simp add: length_iso_date iso_clock_def pad2_def u_def)
  ultimately have c: "k @ lo_of d = iso_date (y, m, dd) @ iso_clock h mi s"
    using replace_z_id[of "case_start d k"] r by (simp add: case_start_lo)
  have h: "0 \<le> h" "h \<le> 23" using v(2) by (simp_all add: valid_clock_def)
  show ?thesis
  proof (cases "is_bgl d")
    case True
    with k have "length k = length (iso_date (y, m, dd))" by (simp add: klen_def length_iso_date)
    with c have kd: "k = iso_date (y, m, dd)" and cl: "iso_clock h mi s = [84] @ [48, 48] @ u '':00:00+00:00''"
      using True by (simp_all add: lo_of_def u_def)
    note z = clock_eq[OF cl _ v(2)]
    have "h = 0" using pad2_24[OF z(3) h] by simp
    then have "w + 86400 - 1 = second_of y m dd 23 59 59" using z(1,2) ws by (simp add: second_of_def)
    then show ?thesis using True kd e iso_text_second[OF v(1), of 23 59 59]
      by (simp add: hi_of_def valid_clock_def iso_clock_def pad2_def u_def)
  next
    case False
    obtain kd kh where kk: "k = kd @ [kh ! 0] @ tl kh" "length kd = 10" "length kh = 3"
    proof
      show "k = take 10 k @ [drop 10 k ! 0] @ tl (drop 10 k)" "length (take 10 k) = 10" "length (drop 10 k) = 3"
        using False k by (simp_all add: klen_def hd_drop_conv_nth[symmetric] nth_drop)
    qed
    then have kd: "kd = iso_date (y, m, dd)" and cl: "iso_clock h mi s = kh ! 0 # tl kh @ u '':00:00+00:00''"
      using c False by (simp_all add: lo_of_def length_iso_date)
    have k84: "kh ! 0 = 84" using cl by (simp add: iso_clock_def)
    with cl have "iso_clock h mi s = [84] @ tl kh @ u '':00:00+00:00''" by simp
    note z = clock_eq[OF this _ v(2)]
    have p: "pad2 h = tl kh" using z(3) kk(3) by simp
    have "w + 3600 - 1 = second_of y m dd h 59 59" using z(1,2) kk(3) ws by (simp add: second_of_def)
    then show ?thesis using False kd kk(1) k84 e p h iso_text_second[OF v(1), of h 59 59]
      by (simp add: hi_of_def valid_clock_def iso_clock_def) (simp add: pad2_def u_def)
  qed
qed

section \<open>What an ingestion has counted\<close>

text \<open>
  The lines read so far, each with the alert label kept outside the payload; \<open>wrote\<close> relates them to
  the database and the batch, \<open>counted\<close> those of the present dataset to its counters.
\<close>

type_synonym lines = "(log_row \<times> str option) list"

definition labels :: "lines \<Rightarrow> (nat \<times> str) list" where
  "labels Q = concat (map (\<lambda>(r, a). case a of Some x \<Rightarrow> [(nat (lr_id r), x)] | None \<Rightarrow> []) Q)"

definition wrote :: "lines \<Rightarrow> loop \<Rightarrow> bench_db \<Rightarrow> bool" where
  "wrote Q l db \<longleftrightarrow> bd_logs db @ lo_batch l = map fst Q \<and> (\<exists>a. bd_alerts db = Some a \<and> a @ lo_truth l = labels Q)
     \<and> (lo_batch l = [] \<longrightarrow> lo_truth l = []) \<and> lo_total l = length Q \<and> map (lr_id \<circ> fst) Q = map int [1..<length Q + 1]"

definition hits :: "dataset \<Rightarrow> str \<Rightarrow> lines \<Rightarrow> nat" where
  "hits d k P = length (filter (\<lambda>(r, a). take (klen d) (lr_time r) = k) P)"

definition alarms :: "dataset \<Rightarrow> str \<Rightarrow> lines \<Rightarrow> nat" where
  "alarms d k P = length (filter (\<lambda>(r, a). take (klen d) (lr_time r) = k \<and> a \<noteq> None) P)"

definition counted :: "dataset \<Rightarrow> lines \<Rightarrow> tally \<Rightarrow> bool" where
  "counted d P t \<longleftrightarrow> (\<forall>k. dict_get (ta_buckets t) k 0 = hits d k P) \<and> (\<forall>k. dict_get (ta_alerts t) k 0 = alarms d k P)
     \<and> (\<forall>k \<in> fst ` set (ta_buckets t) \<union> fst ` set (ta_alerts t). length k = klen d)"

definition dataset_row :: "dataset \<Rightarrow> log_row \<Rightarrow> bool" where
  "dataset_row d r \<longleftrightarrow> lr_service r = sp_service d \<and> klen d \<le> length (lr_time r) \<and> (is_bgl d \<longrightarrow> time_ok d (lr_time r))"

lemma dict_get_bump: "dict_get (bump k d) k' 0 = dict_get d k' 0 + (if k' = k then 1 else 0)"
  by (simp add: bump_def dict_get_def update_conv)

lemma bump_keys: "fst ` set (bump k d) = insert k (fst ` set d)"
  by (simp add: bump_def keys_update)

lemma labels_snoc: "labels (Q @ [(r, a)]) = labels Q @ (case a of Some x \<Rightarrow> [(nat (lr_id r), x)] | None \<Rightarrow> [])"
  by (simp add: labels_def)

lemma wrote_snoc:
  assumes "wrote Q l db"
  shows "wrote (Q @ [(row_of d (lo_total l + 1) n p, alert_of p)]) (add_line d n raw p l) db"
  using assms by (auto simp: wrote_def add_line_def Let_def labels_snoc row_of_def split: option.splits)

lemma counted_snoc:
  assumes "counted d P t" "parse_line d n raw = Inr p"
  shows "counted d (P @ [(row_of d i n p, alert_of p)]) (count_line raw p t)"
  using assms(1) parse_line_time[OF assms(2)]
  by (auto simp: counted_def count_line_def dict_get_bump bump_keys hits_def alarms_def row_of_def)

lemma row_of_dataset: "parse_line d n raw = Inr p \<Longrightarrow> dataset_row d (row_of d i n p)"
  using parse_line_time by (simp add: dataset_row_def row_of_def)

lemma wrote_flush:
  assumes "wrote Q l db" "insert_batch l db = (Inr x, db')"
  shows "wrote Q (l\<lparr>lo_batch := [], lo_truth := []\<rparr>) db'"
  using assms by (auto simp: wrote_def insert_batch_def)

lemma ingest_line_ok:
  assumes "ingest_line d n raw l db = (Inr l', db')" "wrote (Q @ P) l db" "counted d P (lo_tally l)"
  shows "\<exists>r a. wrote (Q @ P @ [(r, a)]) l' db' \<and> counted d (P @ [(r, a)]) (lo_tally l') \<and> dataset_row d r"
proof -
  from assms(1) obtain p where p: "parse_line d n raw = Inr p"
    and k: "(if length (lo_batch (add_line d n raw p l)) \<ge> 10000
      then sq (insert_batch (add_line d n raw p l)) (ret ((add_line d n raw p l)\<lparr>lo_batch := [], lo_truth := []\<rparr>))
      else ret (add_line d n raw p l)) db = (Inr l', db')"
    by (auto simp: ingest_line_def Let_def bnd_Inr)
  let ?l = "add_line d n raw p l" and ?r = "row_of d (lo_total l + 1) n p"
  have w: "wrote (Q @ P @ [(?r, alert_of p)]) ?l db" using wrote_snoc[OF assms(2)] by simp
  have c: "counted d (P @ [(?r, alert_of p)]) (lo_tally ?l)"
    using counted_snoc[OF assms(3) p] by (simp add: add_line_def Let_def)
  have "wrote (Q @ P @ [(?r, alert_of p)]) l' db' \<and> lo_tally l' = lo_tally ?l"
    using k w by (auto simp: sq_Inr dest: wrote_flush split: if_splits)
  with c row_of_dataset[OF p] show ?thesis by metis
qed

lemma ingest_lines_ok:
  assumes "ingest_lines d n raws l db = (Inr l', db')" "wrote (Q @ P) l db" "counted d P (lo_tally l)"
    "(\<forall>q \<in> set P. dataset_row d (fst q))"
  shows "\<exists>P'. wrote (Q @ P') l' db' \<and> counted d P' (lo_tally l') \<and> (\<forall>q \<in> set P'. dataset_row d (fst q))"
  using assms
proof (induction d n raws l arbitrary: db P rule: ingest_lines.induct)
  case (2 d n raw raws l)
  then obtain l1 db1 where s: "ingest_line d n raw l db = (Inr l1, db1)" "ingest_lines d (Suc n) raws l1 db1 = (Inr l', db')"
    by (auto simp: bnd_Inr)
  from ingest_line_ok[OF s(1) 2(3,4)] obtain r a where
    r: "wrote (Q @ P @ [(r, a)]) l1 db1" "counted d (P @ [(r, a)]) (lo_tally l1)" "dataset_row d r" by blast
  from r(3) 2(5) have "\<forall>q \<in> set (P @ [(r, a)]). dataset_row d (fst q)" by simp
  from 2(1)[OF s(2) r(1,2) this] show ?case .
qed auto

lemma counted_fresh: "counted d [] no_tally"
  by (simp add: counted_def no_tally_def hits_def alarms_def dict_get_def)

lemma ingest_dataset_ok:
  assumes "ingest_dataset A d l db = (Inr l', db')" "wrote Q (l\<lparr>lo_batch := [], lo_truth := []\<rparr>) db"
  shows "\<exists>P. wrote (Q @ P) (l'\<lparr>lo_batch := [], lo_truth := []\<rparr>) db' \<and> counted d P (lo_tally l')
    \<and> (\<forall>q \<in> set P. dataset_row d (fst q))"
proof -
  let ?l = "l\<lparr>lo_tally := no_tally, lo_batch := [], lo_truth := []\<rparr>"
  from assms(1) obtain db1 x where s: "ingest_lines d 1 (ar_lines A (sp_file d) (sp_member d)) ?l db = (Inr l', db1)"
    "when_M (lo_batch l' \<noteq> []) (insert_batch l') db1 = (Inr x, db')"
    by (auto simp: ingest_dataset_def run_Inr split: option.splits if_splits)
  have w: "wrote (Q @ []) ?l db" using assms(2) by (simp add: wrote_def)
  have "counted d [] (lo_tally ?l)" by (simp add: counted_fresh)
  from ingest_lines_ok[OF s(1) w this] obtain P where
    P: "wrote (Q @ P) l' db1" "counted d P (lo_tally l')" "(\<forall>q \<in> set P. dataset_row d (fst q))" by auto
  show ?thesis
  proof (cases "lo_batch l' = []")
    case False
    with s(2) have "insert_batch l' db1 = (Inr x, db')" by (simp add: when_M_def)
    from wrote_flush[OF P(1) this] P(2,3) show ?thesis by blast
  next
    case True
    with P(1) s(2) have "db' = db1" "lo_truth l' = []" by (auto simp: when_M_def wrote_def)
    with True P show ?thesis by (auto simp: wrote_def)
  qed
qed

section \<open>The expectations of the cases\<close>

text \<open>A case as the database has it: the rows in its window and those of them that carry a label.\<close>

definition expects :: "lines \<Rightarrow> bench_case \<Rightarrow> bool" where
  "expects Q c \<longleftrightarrow> length (filter (\<lambda>q. window c (fst q)) Q) = bc_records c
     \<and> (\<forall>n. bc_alerts c = Some n \<longrightarrow> length (filter (\<lambda>q. window c (fst q) \<and> snd q \<noteq> None) Q) = n)"

text \<open>Every clock text of an HDFS row ends before the next hour, as that of a time of day does.\<close>

definition clocks_ok :: "dataset \<Rightarrow> lines \<Rightarrow> bool" where
  "clocks_ok d Q \<longleftrightarrow> (\<forall>q \<in> set Q. lr_service (fst q) = sp_service d \<longrightarrow> time_ok d (lr_time (fst q)))"

lemma key_case_expects:
  assumes "key_case d t k = Inr c" "counted d P t" "length k = klen d" "\<forall>q \<in> set P. dataset_row d (fst q) \<and> 0 < lr_id (fst q)"
    "clocks_ok d P"
  shows "expects P c" "bc_service c = sp_service d"
proof -
  from assms(1) have c: "c = \<lparr>bc_name = sp_name d @ u '':'' @ k, bc_dataset = sp_name d, bc_service = sp_service d,
      bc_start = k @ lo_of d, bc_end = k @ hi_of d, bc_records = dict_get (ta_buckets t) k 0,
      bc_alerts = (if is_bgl d then Some (dict_get (ta_alerts t) k 0) else None)\<rparr>"
    using case_end_text[OF _ assms(3)] by (auto simp: key_case_def rbind_eq_Inr case_start_lo)
  have "window c r \<longleftrightarrow> take (klen d) (lr_time r) = k" if "(r, a) \<in> set P" for r a
    using assms(4,5) that prefix_window[of k "lo_of d" "lr_time r" "hi_of d"]
    by (force simp: c window_def dataset_row_def clocks_ok_def time_ok_def assms(3))
  then have "filter (\<lambda>q. window c (fst q)) P = filter (\<lambda>(r, a). take (klen d) (lr_time r) = k) P"
    "filter (\<lambda>q. window c (fst q) \<and> snd q \<noteq> None) P = filter (\<lambda>(r, a). take (klen d) (lr_time r) = k \<and> a \<noteq> None) P"
    by (auto intro!: filter_cong)
  moreover have "bc_records c = hits d k P" "bc_alerts c = Some n \<Longrightarrow> n = alarms d k P" for n
    using assms(2) by (auto simp: c counted_def split: if_splits)
  ultimately show "expects P c" by (simp only: expects_def hits_def alarms_def) blast
  show "bc_service c = sp_service d" by (simp add: c)
qed

lemma expects_other:
  assumes "\<forall>q \<in> set P. lr_service (fst q) \<noteq> bc_service c"
  shows "expects (Q @ P) c = expects Q c" "expects (P @ Q) c = expects Q c"
proof -
  have "filter (\<lambda>q. window c (fst q)) P = []" "filter (\<lambda>q. window c (fst q) \<and> snd q \<noteq> None) P = []"
    using assms by (auto simp: filter_empty_conv window_def)
  then show "expects (Q @ P) c = expects Q c" "expects (P @ Q) c = expects Q c" by (simp_all add: expects_def)
qed

lemma first_best_mem: "first_max f x xs \<in> set (x # xs)" "first_min f x xs \<in> set (x # xs)"
proof -
  have "fold (\<lambda>y b. if p y b then y else b) xs x \<in> set (x # xs)" for p
    by (induction xs arbitrary: x) auto
  from this[of "\<lambda>y b. f b < f y"] this[of "\<lambda>y b. f y < f b"]
  show "first_max f x xs \<in> set (x # xs)" "first_min f x xs \<in> set (x # xs)"
    by (simp_all only: first_max_def first_min_def)
qed

lemma alert_keys_mem: "set (alert_keys t) \<subseteq> fst ` set (ta_alerts t)"
proof (cases "map fst (ta_alerts t)")
  case Nil
  then show ?thesis by (simp add: alert_keys_def)
next
  case (Cons k ks)
  then have s: "set (k # ks) = fst ` set (ta_alerts t)" by (metis set_map)
  let ?m = "filter (\<lambda>k. dict_get (ta_buckets t) k 0 > dict_get (ta_alerts t) k 0) (k # ks)"
  have m: "set ?m \<subseteq> set (k # ks)" by (rule filter_is_subset)
  show ?thesis
  proof (cases ?m)
    case Nil
    then show ?thesis using first_best_mem(1)[of _ k ks] by (simp add: alert_keys_def Cons s[symmetric])
  next
    case (Cons x xs)
    with m have xs: "set (x # xs) \<subseteq> set (k # ks)" by (simp only:)
    have "set (alert_keys t) = {first_max (\<lambda>k. dict_get (ta_alerts t) k 0) k ks,
        first_min (\<lambda>k. double (of_nat (dict_get (ta_alerts t) k 0) / of_nat (dict_get (ta_buckets t) k 0))) x xs}"
      by (simp only: alert_keys_def \<open>map fst (ta_alerts t) = k # ks\<close> Cons list.case list.set)
    then show ?thesis unfolding s[symmetric]
      by (simp only: insert_subset empty_subsetI simp_thms first_best_mem(1) subsetD[OF xs first_best_mem(2)])
  qed
qed

lemma quantile_mem: "quantile av f = Inr k \<Longrightarrow> k \<in> set av"
  unfolding quantile_def Let_def by (metis nth_mem Inl_Inr_False sum.inject(2))

lemma chosen_keys_mem:
  assumes "chosen_keys t = Inr ks"
  shows "set ks \<subseteq> fst ` set (ta_buckets t) \<union> fst ` set (ta_alerts t)"
proof -
  from assms obtain qs where q: "rmap (quantile (sort (map fst (ta_buckets t)))) fractions = Inr qs"
    and ks: "ks = sorted_list_of_set (set (qs @ alert_keys t))" by (auto simp: chosen_keys_def rbind_eq_Inr)
  have "set qs \<subseteq> fst ` set (ta_buckets t)" using rmap_mem[OF q] quantile_mem by fastforce
  with alert_keys_mem[of t] show ?thesis by (auto simp: ks)
qed

lemma dataset_cases_expect:
  assumes "dataset_cases d t = Inr cs" "counted d P t" "\<forall>q \<in> set P. dataset_row d (fst q) \<and> 0 < lr_id (fst q)" "clocks_ok d P"
    and "c \<in> set cs"
  shows "expects P c" "bc_service c = sp_service d"
proof -
  from assms(1) obtain ks where k: "chosen_keys t = Inr ks" "rmap (key_case d t) ks = Inr cs"
    by (auto simp: dataset_cases_def rbind_eq_Inr)
  from rmap_mem[OF k(2) assms(5)] obtain k where c: "k \<in> set ks" "key_case d t k = Inr c" by blast
  then have "length k = klen d" using chosen_keys_mem[OF k(1)] assms(2) by (auto simp: counted_def)
  with key_case_expects[OF c(2) assms(2)] assms(3,4) show "expects P c" "bc_service c = sp_service d" by blast+
qed

lemma wrote_ids: "wrote Q l db \<Longrightarrow> q \<in> set Q \<Longrightarrow> 0 < lr_id (fst q)"
proof -
  assume w: "wrote Q l db" and q: "q \<in> set Q"
  from q have "lr_id (fst q) \<in> set (map (lr_id \<circ> fst) Q)" by auto
  also have "\<dots> = int ` {1..<length Q + 1}" using w unfolding wrote_def by (metis set_map set_upt)
  finally show ?thesis by auto
qed

lemma ingest_all_ok:
  assumes "ingest_all A ds l db = (Inr (l', cs), db')" "wrote Q (l\<lparr>lo_batch := [], lo_truth := []\<rparr>) db"
    and "distinct (map sp_service ds)" "\<forall>q \<in> set Q. lr_service (fst q) \<notin> sp_service ` set ds"
  shows "\<exists>R. wrote (Q @ R) (l'\<lparr>lo_batch := [], lo_truth := []\<rparr>) db' \<and> (\<forall>q \<in> set R. \<exists>d \<in> set ds. dataset_row d (fst q))
    \<and> ((\<forall>d \<in> set ds. clocks_ok d R) \<longrightarrow> (\<forall>c \<in> set cs. expects (Q @ R) c))"
  using assms
proof (induction ds arbitrary: l db Q cs)
  case Nil
  then show ?case by (intro exI[of _ "[]"]) simp
next
  case (Cons d ds)
  from Cons.prems(1) obtain l1 db1 cs1 cs2 where s: "ingest_dataset A d l db = (Inr l1, db1)"
    "dataset_cases d (lo_tally l1) = Inr cs1" "ingest_all A ds l1 db1 = (Inr (l', cs2), db')" "cs = cs1 @ cs2"
    by (auto simp: bnd_Inr)
  from ingest_dataset_ok[OF s(1) Cons.prems(2)] obtain P where
    P: "wrote (Q @ P) (l1\<lparr>lo_batch := [], lo_truth := []\<rparr>) db1" "counted d P (lo_tally l1)" "\<forall>q \<in> set P. dataset_row d (fst q)"
    by blast
  have svc: "lr_service (fst q) = sp_service d" if "q \<in> set P" for q using P(3) that by (simp add: dataset_row_def)
  have "\<forall>q \<in> set (Q @ P). lr_service (fst q) \<notin> sp_service ` set ds"
    using svc Cons.prems(3,4) by auto
  with Cons.IH[OF s(3) P(1)] Cons.prems(3) obtain R where
    R: "wrote ((Q @ P) @ R) (l'\<lparr>lo_batch := [], lo_truth := []\<rparr>) db'" "\<forall>q \<in> set R. \<exists>d \<in> set ds. dataset_row d (fst q)"
    "(\<forall>d \<in> set ds. clocks_ok d R) \<Longrightarrow> (\<forall>c \<in> set cs2. expects ((Q @ P) @ R) c)" by auto
  have "expects (Q @ P @ R) c" if ok: "\<forall>e \<in> set (d # ds). clocks_ok e (P @ R)" and c: "c \<in> set cs" for c
  proof (cases "c \<in> set cs2")
    case True
    have "\<forall>e \<in> set ds. clocks_ok e R" using ok by (auto simp: clocks_ok_def)
    from R(3)[OF this] True show ?thesis by simp
  next
    case False
    with c s(4) have c: "c \<in> set cs1" by simp
    have "clocks_ok d P" using ok by (auto simp: clocks_ok_def)
    from dataset_cases_expect[OF s(2) P(2) _ this c] P(3) wrote_ids[OF P(1)]
    have e: "expects P c" "bc_service c = sp_service d" by auto
    have "\<forall>q \<in> set Q. lr_service (fst q) \<noteq> bc_service c" "\<forall>q \<in> set R. lr_service (fst q) \<noteq> bc_service c"
      using Cons.prems(3,4) R(2) e(2) by (auto simp: dataset_row_def)
    with e(1) expects_other show ?thesis by metis
  qed
  with R(1,2) P(3) show ?case by (intro exI[of _ "P @ R"]) auto
qed

lemma label_count:
  "\<forall>q \<in> set R. 0 < lr_id (fst q) \<Longrightarrow> length (filter (\<lambda>(j, _). int j = i) (labels R))
     = length (filter (\<lambda>q. lr_id (fst q) = i \<and> snd q \<noteq> None) R)"
  by (induction R) (auto simp: labels_def split: option.splits)

lemma filter_key: "distinct (map f R) \<Longrightarrow> q \<in> set R \<Longrightarrow> filter (\<lambda>p. f p = f q \<and> P p) R = (if P q then [q] else [])"
  by (induction R) (auto simp: filter_empty_conv image_iff)

lemma alert_hits_labels:
  assumes "wrote R l db" "lo_batch l = []" "lo_truth l = []"
  shows "alert_hits db (filter w (map fst R)) = length (filter (\<lambda>q. w (fst q) \<and> snd q \<noteq> None) R)"
proof -
  have a: "bd_alerts db = Some (labels R)" using assms by (auto simp: wrote_def)
  have ids: "distinct (map (\<lambda>q. lr_id (fst q)) R)" using assms(1) by (simp add: wrote_def o_def distinct_map del: upt_Suc)
  have one: "length (filter (\<lambda>(j, _). int j = lr_id (fst q)) (labels R)) = (if snd q = None then 0 else 1)" if "q \<in> set R" for q
    using filter_key[OF ids that, of "\<lambda>q. snd q \<noteq> None"] label_count[of R "lr_id (fst q)"] wrote_ids[OF assms(1)] by simp
  have "alert_hits db (filter w (map fst R))
      = sum_list (map (\<lambda>q. length (filter (\<lambda>(j, _). int j = lr_id (fst q)) (labels R))) (filter (\<lambda>q. w (fst q)) R))"
    by (simp add: alert_hits_def a filter_map o_def)
  also have "\<dots> = sum_list (map (\<lambda>q. if snd q = None then 0 else 1) (filter (\<lambda>q. w (fst q)) R))"
    by (intro arg_cong[of _ _ sum_list] map_cong refl) (use one in simp)
  also have "\<dots> = length (filter (\<lambda>q. w (fst q) \<and> snd q \<noteq> None) R)" by (induction R) auto
  finally show ?thesis .
qed

lemma prepare_ok:
  assumes "prepare A specs db = (Inr cs, db')" "distinct (map sp_service specs)"
  shows "\<exists>R l cs0. cs = cs0 @ map empty_case specs \<and> wrote R l db' \<and> lo_batch l = [] \<and> lo_truth l = []
    \<and> ((\<forall>d \<in> set specs. clocks_ok d R) \<longrightarrow> (\<forall>c \<in> set cs0. expects R c))
    \<and> (\<forall>q \<in> set R. \<exists>d \<in> set specs. dataset_row d (fst q))"
proof -
  from assms(1) obtain l cs0 where i: "ingest_all A specs fresh_loop (db\<lparr>bd_alerts := Some []\<rparr>) = (Inr (l, cs0), db')"
    and e: "bd_logs db = []" "cs = cs0 @ map empty_case specs"
    by (auto simp: prepare_def run_Inr)
  have "wrote [] (fresh_loop\<lparr>lo_batch := [], lo_truth := []\<rparr>) (db\<lparr>bd_alerts := Some []\<rparr>)"
    by (simp add: wrote_def fresh_loop_def e labels_def)
  from ingest_all_ok[OF i this assms(2)] obtain R where "wrote R (l\<lparr>lo_batch := [], lo_truth := []\<rparr>) db'"
    "(\<forall>d \<in> set specs. clocks_ok d R) \<longrightarrow> (\<forall>c \<in> set cs0. expects R c)"
    "\<forall>q \<in> set R. \<exists>d \<in> set specs. dataset_row d (fst q)" by auto
  with e(2) show ?thesis by (intro exI[of _ R] exI[of _ "l\<lparr>lo_batch := [], lo_truth := []\<rparr>"] exI[of _ cs0]) simp
qed

definition hdfs_clocks :: "dataset list \<Rightarrow> log_row list \<Rightarrow> bool" where
  "hdfs_clocks specs = list_all (\<lambda>r. list_all (\<lambda>d. is_bgl d \<or> lr_service r \<noteq> sp_service d \<or> time_ok d (lr_time r)) specs)"

definition outside_empty :: "log_row list \<Rightarrow> bool" where
  "outside_empty = list_all (\<lambda>r. take 13 (lr_time r) \<noteq> u ''2020-01-01T00'')"

lemma clocks_all:
  assumes "\<forall>q \<in> set R. \<exists>d \<in> set specs. dataset_row d (fst q)" "distinct (map sp_service specs)"
    "hdfs_clocks specs (map fst R)" "d \<in> set specs"
  shows "clocks_ok d R"
  unfolding clocks_ok_def
proof (intro ballI impI)
  fix q assume q: "q \<in> set R" and svc: "lr_service (fst q) = sp_service d"
  from assms(1) q obtain e where e: "e \<in> set specs" "dataset_row e (fst q)" by blast
  with svc have "sp_service e = sp_service d" by (simp add: dataset_row_def)
  with assms(2,4) e(1) have "e = d" by (auto simp: distinct_map dest: inj_onD)
  with e(2) show "time_ok d (lr_time (fst q))"
    using assms(3,4) q svc by (auto simp: dataset_row_def hdfs_clocks_def list_all_iff)
qed

lemma empty_case_expects: "outside_empty (map fst R) \<Longrightarrow> expects R (empty_case d)"
proof -
  assume o: "outside_empty (map fst R)"
  have s: "u ''2020-01-01T00:00:00Z'' = u ''2020-01-01T00'' @ u '':00:00Z''" "u ''2020-01-01T00:59:59Z'' = u ''2020-01-01T00'' @ u '':59:59Z''"
    "length (u ''2020-01-01T00'') = 13"
    by (simp_all add: u_def)
  have "\<not> window (empty_case d) (fst q)" if "q \<in> set R" for q
  proof -
    have "take 13 (lr_time (fst q)) \<noteq> u ''2020-01-01T00''" using o that by (simp add: outside_empty_def list_all_iff)
    then show ?thesis
      using prefix_window[of "u ''2020-01-01T00''" "u '':00:00Z''" "lr_time (fst q)" "u '':59:59Z''", unfolded s(3)]
      by (simp add: window_def empty_case_def s(1,2)) blast
  qed
  then have "filter (\<lambda>q. window (empty_case d) (fst q)) R = []" "filter (\<lambda>q. window (empty_case d) (fst q) \<and> snd q \<noteq> None) R = []"
    by (auto simp: filter_empty_conv)
  moreover have "bc_records (empty_case d) = 0" "bc_alerts (empty_case d) = Some n \<Longrightarrow> n = 0" for n
    by (auto simp: empty_case_def split: if_splits)
  ultimately show ?thesis unfolding expects_def by simp
qed

lemma prepared_cases:
  assumes "prepare A specs db = (Inr cs, db')" "distinct (map sp_service specs)"
    "hdfs_clocks specs (bd_logs db')" "outside_empty (bd_logs db')" "c \<in> set cs"
  shows "length (filter (window c) (bd_logs db')) = bc_records c"
    "bc_alerts c = Some n \<Longrightarrow> alert_hits db' (filter (window c) (bd_logs db')) = n"
proof -
  from prepare_ok[OF assms(1,2)] obtain R l cs0 where r: "cs = cs0 @ map empty_case specs" "wrote R l db'" "lo_batch l = []"
    "lo_truth l = []" "(\<forall>d \<in> set specs. clocks_ok d R) \<Longrightarrow> (\<forall>c \<in> set cs0. expects R c)"
    "\<forall>q \<in> set R. \<exists>d \<in> set specs. dataset_row d (fst q)" by blast
  from r(2,3) have logs: "bd_logs db' = map fst R" by (simp add: wrote_def)
  have "\<forall>d \<in> set specs. clocks_ok d R" using clocks_all[OF r(6) assms(2)] assms(3) logs by simp
  with r(1,5) assms(4,5) empty_case_expects have e: "expects R c" by (auto simp: logs)
  then show "length (filter (window c) (bd_logs db')) = bc_records c" by (simp add: logs expects_def filter_map o_def)
  show "alert_hits db' (filter (window c) (bd_logs db')) = n" if "bc_alerts c = Some n"
    using alert_hits_labels[OF r(2-4), of "window c"] e that by (simp add: logs expects_def)
qed

lemma source_matches:
  assumes "\<And>c. c \<in> set cs \<Longrightarrow> length (filter (window c) (bd_logs db)) = bc_records c"
  shows "source cs db = (Inr (map (source_case db) cs), db)"
proof -
  have "sr_matches (source_case db c)" if "c \<in> set cs" for c
    using assms[OF that] by (simp add: source_case_def Let_def select_page_def)
  then show ?thesis by (auto simp: source_def monad_defs list_all_iff)
qed

lemma scale_0: "scale n 0 = n"
  by (induction n) simp_all

lemma quantile_code [code]:
  "quantile [] f = Inl IndexError"
  "quantile [k] f = Inr k"
  "quantile (k # k' # av) f = (let i = round_even (double (of_nat (length (k' # av)) * double f)) in
     if 0 \<le> i \<and> nat i < length (k # k' # av) then Inr ((k # k' # av) ! nat i) else Inl IndexError)"
  by (simp_all add: quantile_def double_def round_even_def)

definition pick_alerts :: "tally \<Rightarrow> str list \<Rightarrow> str list" where
  "pick_alerts t ks = (case ks of [] \<Rightarrow> []
     | k # ks \<Rightarrow> first_max (\<lambda>k. dict_get (ta_alerts t) k 0) k ks
         # (case filter (\<lambda>k. dict_get (ta_buckets t) k 0 > dict_get (ta_alerts t) k 0) (k # ks) of [] \<Rightarrow> []
            | m # ms \<Rightarrow> [first_min (\<lambda>k. double (of_nat (dict_get (ta_alerts t) k 0) / of_nat (dict_get (ta_buckets t) k 0))) m ms]))"

lemma pick_alerts_code [code]:
  "pick_alerts t [] = []"
  "pick_alerts t [k] = k # (if dict_get (ta_buckets t) k 0 > dict_get (ta_alerts t) k 0 then [k] else [])"
  "pick_alerts t (k # k' # ks) = first_max (\<lambda>k. dict_get (ta_alerts t) k 0) k (k' # ks)
     # (case filter (\<lambda>k. dict_get (ta_buckets t) k 0 > dict_get (ta_alerts t) k 0) (k # k' # ks) of [] \<Rightarrow> []
        | m # ms \<Rightarrow> [first_min (\<lambda>k. double (of_nat (dict_get (ta_alerts t) k 0) / of_nat (dict_get (ta_buckets t) k 0))) m ms])"
  by (simp_all add: pick_alerts_def first_max_def first_min_def)

lemma alert_keys_code [code]: "alert_keys t = pick_alerts t (map fst (ta_alerts t))"
  by (simp add: alert_keys_def pick_alerts_def)

definition tiny_specs :: "dataset list" where
  "tiny_specs =
     [\<lparr>sp_name = u ''BGL'', sp_file = u ''BGL.zip'', sp_member = u ''BGL.log'', sp_md5 = u ''a'', sp_lines = 2, sp_service = u ''svc-17''\<rparr>,
      \<lparr>sp_name = u ''HDFS'', sp_file = u ''HDFS_v1.zip'', sp_member = u ''HDFS.log'', sp_md5 = u ''a'', sp_lines = 1, sp_service = u ''svc-23''\<rparr>]"

definition tiny_archives :: archives where
  "tiny_archives = \<lparr>ar_md5 = (\<lambda>_. u ''a''), ar_lines = (\<lambda>f _. if f = u ''BGL.zip''
     then [u ''- 5 d n t n RAS KERNEL INFO parity error'', u ''APPREAD 7 d n t n RAS APP FATAL ciod'']
     else [u ''081109 203518 143 INFO dfs.DataNode: Receiving block''])\<rparr>"

definition no_bench :: bench_db where
  "no_bench = \<lparr>bd_logs = [], bd_alerts = None\<rparr>"

lemma tiny_run:
  "case prepare tiny_archives tiny_specs no_bench of (Inr cs, db) \<Rightarrow>
     map (\<lambda>c. (bc_name c, bc_end c, bc_records c, bc_alerts c)) cs =
       [(u ''BGL:1970-01-01'', u ''1970-01-01T23:59:59+00:00'', 2, Some 1),
        (u ''HDFS:2008-11-09T20'', u ''2008-11-09T20:59:59+00:00'', 1, None),
        (u ''BGL:empty'', u ''2020-01-01T00:59:59Z'', 0, Some 0), (u ''HDFS:empty'', u ''2020-01-01T00:59:59Z'', 0, None)]
     \<and> hdfs_clocks tiny_specs (bd_logs db) \<and> outside_empty (bd_logs db) | _ \<Rightarrow> False"
  by code_simp

text \<open>
  C39: After a finished \<^verbatim>\<open>prepare\<close>, the window of every case holds as many rows as the case expects and, for the
  dataset with labels, as many labels, so \<^verbatim>\<open>source\<close> ends normally. The services of the datasets differ, the clock of an HDFS line
  is a time of day, and no line is of the hour that the empty cases ask for.
\<close>

theorem benchmark_expectations:
  assumes "prepare A specs db = (Inr cs, db')" "distinct (map sp_service specs)"
    and "hdfs_clocks specs (bd_logs db')" "outside_empty (bd_logs db')"
  shows "source cs db' = (Inr (map (source_case db') cs), db')
    \<and> (\<forall>c \<in> set cs. length (filter (window c) (bd_logs db')) = bc_records c
        \<and> (\<forall>n. bc_alerts c = Some n \<longrightarrow> alert_hits db' (filter (window c) (bd_logs db')) = n))"
  using prepared_cases[OF assms] source_matches by auto

theorem benchmark_expectations_witness:
  "case prepare tiny_archives tiny_specs no_bench of (Inr cs, db) \<Rightarrow>
     map (source_case db) cs \<noteq> [] \<and> source cs db = (Inr (map (source_case db) cs), db) | _ \<Rightarrow> False"
proof (cases "prepare tiny_archives tiny_specs no_bench")
  case (Pair r db)
  with tiny_run obtain cs where r: "r = Inr cs" "hdfs_clocks tiny_specs (bd_logs db)" "outside_empty (bd_logs db)" "cs \<noteq> []"
    by (cases r) auto
  have "distinct (map sp_service tiny_specs)" by (simp add: tiny_specs_def)
  from benchmark_expectations[OF Pair[unfolded r(1)] this r(2,3)] r(4) Pair r(1) show ?thesis by simp
qed

end
