(* ===== verification/Spec2Isabelle.thy ===== *)
theory Spec2Isabelle
  imports Evaluation Json_Parse Cache Artifacts Gateway Context_Api Log_Store Retrieval Calendar
    Sql_Guard Query_Agent Mistral Natural Harness Worker Task_Report Demo_Server Routing Meta_Knowledge
    Log_Index Retention Benchmark
begin

text \<open>
  Verification development for IncidentDesk, a system that investigates incidents of services and
  answers questions about a warehouse. A Go API owns users, permissions, tasks and leases; it is not
  Python and not modelled, what its clients see of it is a response. The Python parts are modelled:

  \<^item> The worker (\<^verbatim>\<open>worker/incident_worker\<close>) claims a task, validates a plan of sources, collects
    evidence from logs, releases, commits, runbooks and a cluster, relates it, lets a language model
    or a deterministic rule write the report, and sends it back.
  \<^item> The question service (\<^verbatim>\<open>query\<close>) routes a conversation, recalls metadata, lets a model write SQL,
    guards it, runs it and streams the result; its knowledge base is built once from a configuration.
  \<^item> The demo server (\<^verbatim>\<open>demo\<close>) issues tokens, stores logs and plays the sources a development system
    is investigated with.

  Theories and sources.

  \<^item> \<open>Prelude\<close>: strings as code points, dictionaries as association lists, exceptions as a datatype with
    the branches the code distinguishes, results \<open>exn + 'a\<close>, the exception-state monad \<open>M\<close> with its
    rules (\<open>run_Inr\<close>), and two proof principles for programs in it: \<open>grows R\<close>, the state moves along a
    preorder whatever happens (locale \<open>state_preorder\<close>), and \<open>leads J I\<close>, an invariant across raises.
  \<^item> \<open>Json\<close>, \<open>Json_Parse\<close>, \<open>Base64\<close>, \<open>Regex\<close>, \<open>Pydantic\<close>, \<open>Calendar\<close>: what the code uses of the standard
    library and of pydantic. \<open>loads_dumps\<close> is the round trip of JSON text. \<open>loads\<close> recurses on fuel, one
    more than the length of the text; \<open>loads_fuel\<close> shows that no larger amount reads anything else.
    Python's recursion limit is not modelled. Floats are held as the text \<open>repr\<close> gives them.
  \<^item> \<open>Contracts\<close> (\<^verbatim>\<open>contracts.py\<close>): a record per pydantic model, its constraints as predicates \<open>wf_\<close>.
  \<^item> \<open>World\<close>: what a worker process does to its outside, as a trace of effects with the answers as
    parameters. \<open>Resilience\<close> (\<^verbatim>\<open>resilience.py\<close>), \<open>Runtime\<close> (\<^verbatim>\<open>runtime.py\<close>) and \<open>Connectors\<close>
    (\<^verbatim>\<open>connectors.py\<close>): circuit breakers with retries, calls to the API, the authorisation budget, and the
    five sources on top. The locale \<open>runtime\<close> states what the assembly needs of a runtime; the live one
    and the offline one of \<open>Evaluation\<close> (\<^verbatim>\<open>evaluation.py\<close>) are its interpretations.
  \<^item> \<open>Redaction\<close> (\<^verbatim>\<open>redaction.py\<close>) and \<open>Context\<close> (\<^verbatim>\<open>context.py\<close>): the ontology, the plan validator, the
    assembly of a bundle (authorise, query, scope check, redact, hash, record, relate), the candidates
    and the report. Groundedness, scope, completeness and budget of a bundle are invariants of it.
  \<^item> \<open>Cache\<close> (\<^verbatim>\<open>cache.py\<close>), \<open>Artifacts\<close> (\<^verbatim>\<open>artifacts.py\<close>), \<open>Gateway\<close> (\<^verbatim>\<open>gateway.py\<close>, \<^verbatim>\<open>mcp_server.py\<close>),
    \<open>Context_Api\<close> (\<^verbatim>\<open>context_api.py\<close>), \<open>Harness\<close> (\<^verbatim>\<open>harness.py\<close>), \<open>Mistral\<close> (\<^verbatim>\<open>mistral.py\<close>), \<open>Natural\<close>
    (\<^verbatim>\<open>natural.py\<close>), \<open>Worker\<close> and \<open>Task_Report\<close> (\<^verbatim>\<open>main.py\<close>): the two cache tables, staged and ready snapshots, approved
    skills and the analysis tool, the endpoint, the deep agent's middleware, the token budget and the
    citations of a model's answer, plans from natural language, a task from claim to answer, and the
    composition of all: the report that is sent is grounded in the evidence it carries.
  \<^item> \<open>Log_Store\<close> and \<open>Log_Index\<close> (\<^verbatim>\<open>demo/log_store.py\<close>), \<open>Demo_Pool\<close> and \<open>Demo_Server\<close>
    (\<^verbatim>\<open>demo/server.py\<close>): the bounded log query with its keyset cursor, the search index its triggers keep
    in step, the one-permit pool as a step relation over all interleavings, and the fixture endpoints.
  \<^item> \<open>Retrieval\<close> (\<^verbatim>\<open>query/app/core/retrieval.py\<close>, \<^verbatim>\<open>entities\<close>), \<open>Sql_Guard\<close> (\<^verbatim>\<open>core/sql_guard.py\<close>,
    \<^verbatim>\<open>relations.py\<close>, \<^verbatim>\<open>metrics.py\<close>, \<^verbatim>\<open>periods.py\<close>), \<open>Query_Agent\<close> (\<^verbatim>\<open>agent\<close>, \<^verbatim>\<open>query_service.py\<close>,
    \<^verbatim>\<open>main.py\<close>), \<open>Routing\<close> (\<^verbatim>\<open>api/routers/routing.py\<close>) and \<open>Meta_Knowledge\<close>
    (\<^verbatim>\<open>meta_knowledge_service.py\<close>, the repositories, mappers and models, \<^verbatim>\<open>scripts/initialize.py\<close>): bounded
    concurrent recall as a step relation and its sequential reference, rank fusion, the SQL checks over
    a parameter for sqlglot's trees, the agent's graph and event stream, the router, and the knowledge base.

  \<^item> \<open>Retention\<close> (\<^verbatim>\<open>scripts/retention.py\<close>): the administrative removal of old data from two databases and the
    object store; it recovers from any interruption, and \<open>model_thread_kept\<close> shows what it never removes.
  \<^item> \<open>Benchmark\<close> (\<^verbatim>\<open>scripts/public_log_benchmark.py\<close>): two public datasets read line by line into the log table
    in batches, the cases with what a query over a day or an hour should find, and the check of it.

  State and outside. A component's state is a record, its operations are functions in \<open>M\<close> that
  return the new state also where they raise. What is not Python of this repository is a parameter: HTTP
  answers, language models, embeddings, sqlglot, hash functions, time zones, Unicode case tables,
  git, JWT, the moments at which a store fails. A theorem that needs something of a parameter says so
  as a hypothesis, and its witness gives a concrete function.

  Not modelled, and why: clients, dependency wiring, configuration files, logging and the lifespan
  hook of the question service construct third-party objects and hold no logic; table definitions
  and migrations are SQL; signals and threads of the worker's \<open>main\<close> are library scheduling around the
  modelled turn; key generation and the initial commits of the demo server run once outside any
  request; the scripts not named above and the tests drive the running system from outside.
\<close>

section \<open>Confidentiality and the source protocol\<close>

text \<open>
  C8: Two recordings that differ only in what stands under a sensitive key (authorization, API key,
  password, secret, token, in any case) are the same after redaction: no such value can reach a
  bundle, a fact or a digest.
\<close>

theorem redact_noninterference: "alike j k \<Longrightarrow> redact j = redact k"
  by (rule redact_alike)

theorem redact_noninterference_witness:
  "redact (JObj [(u ''API-Key'', JStr (u ''k1''))]) = redact (JObj [(u ''API-Key'', JStr (u ''k2''))])"
proof -
  have "sensitive_key (u ''API-Key'')" by code_simp
  then have "alike (JObj [(u ''API-Key'', JStr (u ''k1''))]) (JObj [(u ''API-Key'', JStr (u ''k2''))])"
    by (auto intro!: alike.intros)
  from redact_noninterference[OF this] show ?thesis .
qed



end
